(* ===== verification/Prelude.thy ===== *)
theory Prelude
  imports Main "HOL-Library.Word" "HOL-Library.Product_Lexorder" "HOL-Library.Multiset"
    "HOL-Library.Code_Target_Numeral"
begin

text \<open>
  Shared vocabulary of the development: machine integers, clocks, byte encodings, hash maps
  and the two interfaces every component is an instance of.

  \<^item> \<open>u8\<close>, \<open>u16\<close>, \<open>u32\<close>, \<open>u64\<close> are words.  Counters and lengths that the code only ever adds to
    with \<open>saturating_add\<close> are natural numbers with the saturation written out
    (\<open>sat_add64\<close>).  An \<open>i64\<close> is a 64-bit word read through \<open>sint\<close>.
  \<^item> A \<open>std::time::Instant\<close> and a \<open>Duration\<close> are natural numbers of nanoseconds, so that
    subtraction on \<open>nat\<close> is \<open>Instant::duration_since\<close>, which saturates at zero.  Every reading
    of a clock is an argument of the operation that makes it.
  \<^item> A \<open>HashMap\<close> is an association list with distinct keys.  The order of the list stands for
    the iteration order, which Rust leaves open; the interface \<open>hash_map\<close> only speaks of
    lookups and sizes, so that what is proved over it does not depend on that order.
  \<^item> A \<open>DateTime<Utc>\<close> is an integer of nanoseconds, and so is the difference of two of them;
    \<open>num_milliseconds\<close> cuts such a difference to whole milliseconds.
  \<^item> \<open>min_on\<close> is \<open>Iterator::min_by_key\<close>, which keeps the first of several least elements.
  \<^item> \<open>machine\<close> is the interface of a component whose operations keep an invariant; it gives
    the invariant of every sequence of operations and of every reachable state.
\<close>

named_theorems hm_simps \<open>lookups and sizes of hash maps\<close>
named_theorems codec_simps \<open>lengths and splits of byte encodings\<close>

type_synonym u8 = "8 word"
type_synonym u16 = "16 word"
type_synonym u32 = "32 word"
type_synonym u64 = "64 word"
type_synonym i64 = "64 word"
type_synonym bytes = "8 word list"
type_synonym instant = nat
type_synonym duration = nat
type_synonym datetime = int

subsection \<open>Saturating and wrapping arithmetic\<close>

abbreviation u64_max :: nat where
  "u64_max \<equiv> 2 ^ 64 - 1"

definition sat_add64 :: "nat \<Rightarrow> nat \<Rightarrow> nat" where
  "sat_add64 a b = min (a + b) u64_max"

definition u64_as_i64 :: "nat \<Rightarrow> int" where
  "u64_as_i64 n = sint (of_nat n :: 64 word)"

definition secs :: "nat \<Rightarrow> duration" where
  "secs n = n * 1000000000"

definition millis :: "nat \<Rightarrow> duration" where
  "millis n = n * 1000000"

definition num_milliseconds :: "int \<Rightarrow> int" where
  "num_milliseconds d = (if 0 \<le> d then d div 1000000 else - ((- d) div 1000000))"

subsection \<open>Least elements\<close>

fun min_on :: "('a \<Rightarrow> 'k::linorder) \<Rightarrow> 'a list \<Rightarrow> 'a option" where
  "min_on key [] = None"
| "min_on key (x # xs) = (case min_on key xs of
       None \<Rightarrow> Some x
     | Some y \<Rightarrow> if key y < key x then Some y else Some x)"

subsection \<open>Hash maps\<close>

type_synonym ('k, 'v) hashmap = "('k \<times> 'v) list"

definition hm_inv :: "('k, 'v) hashmap \<Rightarrow> bool" where
  "hm_inv m \<longleftrightarrow> distinct (map fst m)"

fun hm_insert :: "'k \<Rightarrow> 'v \<Rightarrow> ('k, 'v) hashmap \<Rightarrow> ('k, 'v) hashmap" where
  "hm_insert k v [] = [(k, v)]"
| "hm_insert k v (p # m) = (if fst p = k then (k, v) # m else p # hm_insert k v m)"

definition hm_remove :: "'k \<Rightarrow> ('k, 'v) hashmap \<Rightarrow> ('k, 'v) hashmap" where
  "hm_remove k m = filter (\<lambda>p. fst p \<noteq> k) m"

definition hm_retain :: "('k \<Rightarrow> 'v \<Rightarrow> bool) \<Rightarrow> ('k, 'v) hashmap \<Rightarrow> ('k, 'v) hashmap" where
  "hm_retain P m = filter (\<lambda>p. P (fst p) (snd p)) m"

definition hm_contains :: "'k \<Rightarrow> ('k, 'v) hashmap \<Rightarrow> bool" where
  "hm_contains k m = (map_of m k \<noteq> None)"

subsection \<open>Results\<close>

text \<open>\<open>Result<T, E>\<close> is \<open>'e + 'a\<close>; \<open>res_bind\<close> is the \<open>?\<close> operator and \<open>ok_or\<close> \<open>Option::ok_or\<close>.\<close>

fun res_bind :: "'e + 'a \<Rightarrow> ('a \<Rightarrow> 'e + 'b) \<Rightarrow> 'e + 'b" where
  "res_bind (Inl e) f = Inl e"
| "res_bind (Inr a) f = f a"

fun ok_or :: "'e \<Rightarrow> 'a option \<Rightarrow> 'e + 'a" where
  "ok_or e None = Inl e"
| "ok_or e (Some a) = Inr a"

text \<open>Sequences of operations, and the states they reach.\<close>

inductive reachable :: "('op \<Rightarrow> 's \<Rightarrow> 's) \<Rightarrow> ('op \<Rightarrow> 's \<Rightarrow> bool) \<Rightarrow> 's \<Rightarrow> 's \<Rightarrow> bool"
  for step ok s0 where
  reach_init: "reachable step ok s0 s0"
| reach_step: "reachable step ok s0 s \<Longrightarrow> ok op s \<Longrightarrow> reachable step ok s0 (step op s)"

inductive_cases reachable_elim: "reachable step ok s0 s"

fun legal :: "('op \<Rightarrow> 's \<Rightarrow> 's) \<Rightarrow> ('op \<Rightarrow> 's \<Rightarrow> bool) \<Rightarrow> 'op list \<Rightarrow> 's \<Rightarrow> bool" where
  "legal step ok [] s = True"
| "legal step ok (op # ops) s = (ok op s \<and> legal step ok ops (step op s))"

fun outputs :: "('op \<Rightarrow> 's \<Rightarrow> 'o \<times> 's) \<Rightarrow> 'op list \<Rightarrow> 's \<Rightarrow> 'o list" where
  "outputs step [] s = []"
| "outputs step (op # ops) s = fst (step op s) # outputs step ops (snd (step op s))"

subsection \<open>Lemmas on arithmetic\<close>

lemma sat_add64_le: "a \<le> u64_max \<Longrightarrow> a \<le> sat_add64 a b"
  by (simp add: sat_add64_def)

lemma sat_add64_bound [simp]: "sat_add64 a b \<le> u64_max"
  by (simp add: sat_add64_def)

lemma u64_as_i64_small: "n < 2 ^ 63 \<Longrightarrow> u64_as_i64 n = int n"
  by (simp add: u64_as_i64_def signed_of_nat signed_take_bit_int_eq_self)

lemma u64_as_i64_max [simp]: "u64_as_i64 18446744073709551615 = - 1"
  by (simp add: u64_as_i64_def)

lemma unat_max64 [simp]: "unat (- 1 :: 64 word) = 18446744073709551615"
  by (simp add: unsigned_minus_1_eq_mask mask_eq_exp_minus_1)

lemma u64_as_i64_big:
  assumes "2 ^ 63 \<le> n" "n \<le> u64_max"
  shows "u64_as_i64 n < 0"
proof -
  have "n div 2 ^ 63 = 1" using assms by (intro div_nat_eqI) simp_all
  then have "bit n 63" by (simp add: bit_iff_odd)
  then have "bit (of_nat n :: 64 word) 63" by (simp add: bit_of_nat_iff)
  then show ?thesis using bit_last_iff[of "of_nat n :: 64 word"] by (simp add: u64_as_i64_def)
qed

lemma num_milliseconds_mono: "a \<le> b \<Longrightarrow> num_milliseconds a \<le> num_milliseconds b"
proof -
  assume "a \<le> b"
  then show ?thesis
    by (auto simp: num_milliseconds_def zdiv_mono1)
       (smt (verit) div_neg_pos_less0 pos_imp_zdiv_nonneg_iff zdiv_mono1)
qed

lemma num_milliseconds_zero [simp]: "num_milliseconds 0 = 0"
  by (simp add: num_milliseconds_def)

lemma min_on_None [simp]: "min_on key xs = None \<longleftrightarrow> xs = []"
  by (cases xs) (auto split: option.splits)

lemma min_on_Some:
  "min_on key xs = Some m \<Longrightarrow> m \<in> set xs \<and> (\<forall>x\<in>set xs. key m \<le> key x)"
proof (induction xs arbitrary: m)
  case (Cons x xs)
  then show ?case by (cases "min_on key xs") (fastforce split: if_splits)+
qed simp

lemma res_bind_Inr [simp]: "res_bind r f = Inr b \<longleftrightarrow> (\<exists>a. r = Inr a \<and> f a = Inr b)"
  by (cases r) auto

lemma ok_or_Inr [simp]: "ok_or e x = Inr a \<longleftrightarrow> x = Some a"
  by (cases x) auto

subsection \<open>The interface of a hash map\<close>

locale hash_map =
  fixes get :: "'m \<Rightarrow> 'k \<Rightarrow> 'v option"
    and ins :: "'k \<Rightarrow> 'v \<Rightarrow> 'm \<Rightarrow> 'm"
    and del :: "'k \<Rightarrow> 'm \<Rightarrow> 'm"
    and len :: "'m \<Rightarrow> nat"
    and inv :: "'m \<Rightarrow> bool"
  assumes get_ins: "get (ins k v m) = (get m)(k \<mapsto> v)"
    and get_del: "get (del k m) = (get m)(k := None)"
    and inv_ins: "inv m \<Longrightarrow> inv (ins k v m)"
    and inv_del: "inv m \<Longrightarrow> inv (del k m)"
    and finite_dom: "finite (dom (get m))"
    and len_card: "inv m \<Longrightarrow> len m = card (dom (get m))"
begin

lemma len_ins:
  assumes "inv m"
  shows "len (ins k v m) = (if get m k = None then Suc (len m) else len m)"
  using assms by (auto simp: len_card inv_ins get_ins finite_dom insert_absorb domIff)

lemma len_del:
  assumes "inv m"
  shows "len (del k m) = (if get m k = None then len m else len m - 1)"
  using assms by (simp add: len_card inv_del get_del domIff)

lemma len_del_le: "inv m \<Longrightarrow> len (del k m) \<le> len m"
  by (simp add: len_del)

lemma len_pos: "inv m \<Longrightarrow> get m k = Some v \<Longrightarrow> 0 < len m"
  using finite_dom[of m] by (auto simp: len_card card_gt_0_iff)

end

subsection \<open>Association lists implement the interface\<close>

lemma hm_insert_get [simp, hm_simps]: "map_of (hm_insert k v m) = (map_of m)(k \<mapsto> v)"
  by (induction m) (auto simp: fun_eq_iff)

lemma hm_remove_get [simp, hm_simps]: "map_of (hm_remove k m) = (map_of m)(k := None)"
  by (induction m) (auto simp: hm_remove_def fun_eq_iff)

lemma hm_insert_keys [simp, hm_simps]: "fst ` set (hm_insert k v m) = insert k (fst ` set m)"
  by (induction m) auto

lemma hm_inv_insert [simp, intro]: "hm_inv m \<Longrightarrow> hm_inv (hm_insert k v m)"
  by (induction m) (auto simp: hm_inv_def)

lemma hm_inv_filter [simp, intro]: "hm_inv m \<Longrightarrow> hm_inv (filter P m)"
  by (simp add: hm_inv_def distinct_map_filter)

lemma hm_inv_remove [simp, intro]: "hm_inv m \<Longrightarrow> hm_inv (hm_remove k m)"
  by (simp add: hm_remove_def hm_inv_filter)

lemma hm_inv_Nil [simp]: "hm_inv []"
  by (simp add: hm_inv_def)

interpretation hm: hash_map map_of hm_insert hm_remove length hm_inv
proof unfold_locales
  fix m :: "('a, 'b) hashmap"
  assume "hm_inv m"
  then show "length m = card (dom (map_of m))"
    using distinct_card[of "map fst m"] by (simp add: hm_inv_def dom_map_of_conv_image_fst)
qed (auto simp: finite_dom_map_of)

lemmas hm_sizes [hm_simps] = hm.len_ins hm.len_del hm.len_del_le

lemma hm_get_in_set: "map_of m k = Some v \<Longrightarrow> (k, v) \<in> set m"
  by (rule map_of_SomeD)

lemma hm_in_set_get: "hm_inv m \<Longrightarrow> (k, v) \<in> set m \<Longrightarrow> map_of m k = Some v"
  by (simp add: hm_inv_def)

lemma hm_get_eq: "hm_inv m \<Longrightarrow> map_of m k = Some v \<longleftrightarrow> (k, v) \<in> set m"
  by (simp add: hm_inv_def)

lemma hm_retain_inv [simp, intro]: "hm_inv m \<Longrightarrow> hm_inv (hm_retain P m)"
  by (simp add: hm_retain_def hm_inv_filter)

lemma hm_retain_get [hm_simps]:
  "hm_inv m \<Longrightarrow> map_of (hm_retain P m) k = (case map_of m k of None \<Rightarrow> None | Some v \<Rightarrow> if P k v then Some v else None)"
  by (induction m) (auto simp: hm_retain_def hm_inv_def rev_image_eqI split: option.splits dest: map_of_SomeD)

lemma hm_insert_fresh: "k \<notin> fst ` set m \<Longrightarrow> hm_insert k v m = m @ [(k, v)]"
  by (induction m) auto

text \<open>Collecting pairs with distinct keys into a map keeps them as they are.\<close>

lemma hm_collect:
  "distinct (map fst (m @ ps)) \<Longrightarrow> fold (\<lambda>(k, v). hm_insert k v) ps m = m @ ps"
  by (induction ps arbitrary: m) (auto simp: hm_insert_fresh)

lemma hm_retain_len [hm_simps]: "length (hm_retain P m) \<le> length m"
  by (simp add: hm_retain_def)

lemma legal_always [simp]: "legal step (\<lambda>_ _. True) ops s"
  by (induction ops arbitrary: s) simp_all

subsection \<open>The interface of a component with an invariant\<close>

locale machine =
  fixes step :: "'op \<Rightarrow> 's \<Rightarrow> 's"
    and ok :: "'op \<Rightarrow> 's \<Rightarrow> bool"
    and inv :: "'s \<Rightarrow> bool"
  assumes step_inv: "inv s \<Longrightarrow> ok op s \<Longrightarrow> inv (step op s)"
begin

lemma run_inv: "inv s \<Longrightarrow> legal step ok ops s \<Longrightarrow> inv (fold step ops s)"
  by (induction ops arbitrary: s) (auto intro: step_inv)

lemma reachable_inv: "reachable step ok s0 s \<Longrightarrow> inv s0 \<Longrightarrow> inv s"
  by (induction rule: reachable.induct) (auto intro: step_inv)

end

text \<open>A component that returns a result from each operation, simulated by a specification of it: the
  outputs of any sequence of operations are those of the specification.\<close>

locale simulation =
  fixes step :: "'op \<Rightarrow> 's \<Rightarrow> 'o \<times> 's"
    and spec :: "'op \<Rightarrow> 'a \<Rightarrow> 'o \<times> 'a"
    and abs :: "'s \<Rightarrow> 'a"
    and inv :: "'s \<Rightarrow> bool"
  assumes step_inv: "inv s \<Longrightarrow> inv (snd (step op s))"
    and step_sim: "inv s \<Longrightarrow> spec op (abs s) = (fst (step op s), abs (snd (step op s)))"
begin

lemma outputs_eq: "inv s \<Longrightarrow> outputs step ops s = outputs spec ops (abs s)"
  by (induction ops arbitrary: s) (simp_all add: step_sim step_inv split_beta)

end

end
