(* ===== verification/Relay_Seen.thy ===== *)
theory Relay_Seen
  imports Prelude
begin

text \<open>
  The relay seen-cache (\<open>offline-protocol-reliability/src/relay_seen.rs\<close>): the bounded,
  insertion-ordered record of message ids a node has already forwarded.

  \<open>rs_entries\<close> is the map from id to the instant it was recorded, \<open>rs_order\<close> the queue of ids
  in insertion order.  The lemmas show that the two stay in lockstep and within the capacity
  under every operation, that the front-popping \<open>expire\<close> computes the filter it stands for,
  and that an id stays suppressed for the whole retention window unless as many newer ids as
  the cache can hold push it out.
\<close>

subsection \<open>State and operations\<close>

record relay_seen_config =
  rsc_capacity :: nat
  rsc_retention :: duration

definition relay_seen_config_default :: relay_seen_config where
  "relay_seen_config_default = \<lparr>rsc_capacity = 8192, rsc_retention = secs 600\<rparr>"

datatype seen_outcome = Fresh | Duplicate

record relay_seen_cache =
  rs_config :: relay_seen_config
  rs_entries :: "(string, instant) hashmap"
  rs_order :: "string list"
  rs_duplicates_suppressed :: nat
  rs_capacity_evictions :: nat

definition rs_with_config :: "relay_seen_config \<Rightarrow> relay_seen_cache" where
  "rs_with_config config = \<lparr>
     rs_config = config\<lparr>rsc_capacity := max (rsc_capacity config) 1\<rparr>,
     rs_entries = [], rs_order = [],
     rs_duplicates_suppressed = 0, rs_capacity_evictions = 0\<rparr>"

definition rs_pop_oldest :: "relay_seen_cache \<Rightarrow> string option \<times> relay_seen_cache" where
  "rs_pop_oldest c = (case rs_order c of
       [] \<Rightarrow> (None, c)
     | oldest # rest \<Rightarrow>
         (Some oldest, c\<lparr>rs_order := rest, rs_entries := hm_remove oldest (rs_entries c)\<rparr>))"

definition rs_expired :: "instant \<Rightarrow> relay_seen_cache \<Rightarrow> string \<Rightarrow> bool" where
  "rs_expired now c oldest_id = (case map_of (rs_entries c) oldest_id of
       Some seen_at \<Rightarrow> rsc_retention (rs_config c) \<le> now - seen_at
     | None \<Rightarrow> True)"

function rs_expire :: "instant \<Rightarrow> relay_seen_cache \<Rightarrow> relay_seen_cache" where
  "rs_expire now c = (case rs_order c of
       [] \<Rightarrow> c
     | oldest_id # _ \<Rightarrow>
         if \<not> rs_expired now c oldest_id then c
         else rs_expire now (snd (rs_pop_oldest c)))"
  by pat_completeness auto
termination
  by (relation "measure (\<lambda>(now, c). length (rs_order c))") (auto simp: rs_pop_oldest_def)

function rs_make_room :: "relay_seen_cache \<Rightarrow> relay_seen_cache" where
  "rs_make_room c =
     (if rsc_capacity (rs_config c) \<le> length (rs_entries c)
      then (case rs_pop_oldest c of
              (Some _, c') \<Rightarrow>
                rs_make_room (c'\<lparr>rs_capacity_evictions := sat_add64 (rs_capacity_evictions c') 1\<rparr>)
            | (None, c') \<Rightarrow> c')
      else c)"
  by pat_completeness auto
termination
  by (relation "measure (\<lambda>c. length (rs_order c))") (auto simp: rs_pop_oldest_def split: list.splits)

text \<open>\<open>observe\<close> reads the clock twice: once to expire and once to stamp the new entry.\<close>

definition rs_observe ::
  "instant \<Rightarrow> instant \<Rightarrow> string \<Rightarrow> relay_seen_cache \<Rightarrow> seen_outcome \<times> relay_seen_cache" where
  "rs_observe now now' message_id c0 =
     (let c = rs_expire now c0 in
      if hm_contains message_id (rs_entries c)
      then (Duplicate, c\<lparr>rs_duplicates_suppressed := sat_add64 (rs_duplicates_suppressed c) 1\<rparr>)
      else (let c' = rs_make_room c in
            (Fresh, c'\<lparr>rs_entries := hm_insert message_id now' (rs_entries c'),
                      rs_order := rs_order c' @ [message_id]\<rparr>)))"

definition rs_forget :: "string \<Rightarrow> relay_seen_cache \<Rightarrow> relay_seen_cache" where
  "rs_forget message_id c =
     (if hm_contains message_id (rs_entries c)
      then c\<lparr>rs_entries := hm_remove message_id (rs_entries c),
             rs_order := filter (\<lambda>i. i \<noteq> message_id) (rs_order c)\<rparr>
      else c)"

definition rs_contains :: "instant \<Rightarrow> string \<Rightarrow> relay_seen_cache \<Rightarrow> bool" where
  "rs_contains now message_id c = (case map_of (rs_entries c) message_id of
       Some seen_at \<Rightarrow> now - seen_at < rsc_retention (rs_config c)
     | None \<Rightarrow> False)"

definition rs_clear :: "relay_seen_cache \<Rightarrow> relay_seen_cache" where
  "rs_clear c = c\<lparr>rs_entries := [], rs_order := []\<rparr>"

subsection \<open>The cache as a machine\<close>

datatype rs_op =
    RsObserve instant instant string
  | RsForget string
  | RsExpire instant
  | RsClear

fun rs_step :: "rs_op \<Rightarrow> relay_seen_cache \<Rightarrow> relay_seen_cache" where
  "rs_step (RsObserve now now' i) c = snd (rs_observe now now' i c)"
| "rs_step (RsForget i) c = rs_forget i c"
| "rs_step (RsExpire now) c = rs_expire now c"
| "rs_step RsClear c = rs_clear c"

text \<open>Map and queue in lockstep, within a capacity that is never zero.\<close>

definition rs_inv :: "relay_seen_cache \<Rightarrow> bool" where
  "rs_inv c \<longleftrightarrow> 1 \<le> rsc_capacity (rs_config c) \<and> hm_inv (rs_entries c) \<and> distinct (rs_order c)
     \<and> set (rs_order c) = dom (map_of (rs_entries c))
     \<and> length (rs_entries c) \<le> rsc_capacity (rs_config c)"

text \<open>The queue is in the order of the stamps, none of which lies after the clock.\<close>

definition rs_stamp :: "relay_seen_cache \<Rightarrow> string \<Rightarrow> instant" where
  "rs_stamp c i = the (map_of (rs_entries c) i)"

definition rs_timed :: "instant \<Rightarrow> relay_seen_cache \<Rightarrow> bool" where
  "rs_timed clk c \<longleftrightarrow> sorted (map (rs_stamp c) (rs_order c)) \<and> (\<forall>i\<in>set (rs_order c). rs_stamp c i \<le> clk)"

text \<open>The clock readings of a run never go back; the clock is carried beside the cache.\<close>

fun rs_tick :: "rs_op \<Rightarrow> instant \<Rightarrow> instant" where
  "rs_tick (RsObserve now now' i) clk = now'"
| "rs_tick (RsExpire now) clk = now"
| "rs_tick _ clk = clk"

fun rs_ordered :: "rs_op \<Rightarrow> instant \<Rightarrow> bool" where
  "rs_ordered (RsObserve now now' i) clk = (clk \<le> now \<and> now \<le> now')"
| "rs_ordered (RsExpire now) clk = (clk \<le> now)"
| "rs_ordered _ clk = True"

definition rs_clocked_step :: "rs_op \<Rightarrow> instant \<times> relay_seen_cache \<Rightarrow> instant \<times> relay_seen_cache" where
  "rs_clocked_step op s = (rs_tick op (fst s), rs_step op (snd s))"

definition rs_clocked_inv :: "instant \<times> relay_seen_cache \<Rightarrow> bool" where
  "rs_clocked_inv s \<longleftrightarrow> rs_inv (snd s) \<and> rs_timed (fst s) (snd s)"

text \<open>What the cache stands for: the ids recorded less than a retention window ago.\<close>

definition rs_live :: "instant \<Rightarrow> relay_seen_cache \<Rightarrow> string \<Rightarrow> instant option" where
  "rs_live now c i = (case map_of (rs_entries c) i of
       Some t \<Rightarrow> if now - t < rsc_retention (rs_config c) then Some t else None
     | None \<Rightarrow> None)"

text \<open>An operation that is no reason to stop suppressing an id recorded at \<open>t\<close>.\<close>

fun rs_keeps :: "string \<Rightarrow> instant \<Rightarrow> duration \<Rightarrow> rs_op \<Rightarrow> bool" where
  "rs_keeps i t ret (RsObserve now now' j) = (now - t < ret)"
| "rs_keeps i t ret (RsForget j) = (j \<noteq> i)"
| "rs_keeps i t ret (RsExpire now) = (now - t < ret)"
| "rs_keeps i t ret RsClear = False"

fun rs_is_observe :: "rs_op \<Rightarrow> bool" where
  "rs_is_observe (RsObserve _ _ _) = True"
| "rs_is_observe _ = False"

definition rs_held :: "string \<Rightarrow> instant \<Rightarrow> nat \<Rightarrow> relay_seen_cache \<Rightarrow> bool" where
  "rs_held i t k c \<longleftrightarrow> map_of (rs_entries c) i = Some t
     \<and> (\<exists>pre post. rs_order c = pre @ i # post \<and> length post \<le> k)"

declare rs_expire.simps [simp del] rs_make_room.simps [simp del]

subsection \<open>Lockstep\<close>

lemma rs_lockstep: "rs_inv c \<Longrightarrow> length (rs_order c) = length (rs_entries c)"
  by (metis distinct_card hm.len_card rs_inv_def)

lemma rs_pop_oldest_Cons:
  "rs_order c = x # xs \<Longrightarrow>
   rs_pop_oldest c = (Some x, c\<lparr>rs_order := xs, rs_entries := hm_remove x (rs_entries c)\<rparr>)"
  by (simp add: rs_pop_oldest_def)

lemma rs_inv_pop: "rs_inv c \<Longrightarrow> rs_inv (snd (rs_pop_oldest c))"
  by (cases "rs_order c")
     (auto simp: rs_pop_oldest_def rs_inv_def intro: order_trans[OF hm.len_del_le] split: if_splits)

lemma rs_config_pop [simp]: "rs_config (snd (rs_pop_oldest c)) = rs_config c"
  by (simp add: rs_pop_oldest_def split: list.splits)

lemma rs_config_expire [simp]: "rs_config (rs_expire now c) = rs_config c"
  by (induction now c rule: rs_expire.induct) (subst rs_expire.simps, auto split: list.splits)

lemma rs_inv_expire: "rs_inv c \<Longrightarrow> rs_inv (rs_expire now c)"
  by (induction now c rule: rs_expire.induct)
     (subst rs_expire.simps, auto split: list.splits intro: rs_inv_pop)

lemma rs_inv_evictions [simp]: "rs_inv (c\<lparr>rs_capacity_evictions := n\<rparr>) = rs_inv c"
  by (simp add: rs_inv_def)

lemma rs_inv_duplicates [simp]: "rs_inv (c\<lparr>rs_duplicates_suppressed := n\<rparr>) = rs_inv c"
  by (simp add: rs_inv_def)

text \<open>Making room drops a prefix of the queue, just long enough to leave one free slot.\<close>

lemma rs_make_room_spec:
  assumes "rs_inv c"
  shows "rs_inv (rs_make_room c) \<and> rs_config (rs_make_room c) = rs_config c
    \<and> rs_order (rs_make_room c) = drop (Suc (length (rs_order c)) - rsc_capacity (rs_config c)) (rs_order c)
    \<and> map_of (rs_entries (rs_make_room c)) = map_of (rs_entries c) |` set (rs_order (rs_make_room c))"
  using assms
proof (induction c rule: rs_make_room.induct)
  case (1 c)
  note inv = "1.prems"
  show ?case
  proof (cases "rsc_capacity (rs_config c) \<le> length (rs_entries c)")
    case False
    then show ?thesis using inv rs_lockstep[OF inv]
      by (subst rs_make_room.simps) (auto simp: rs_make_room.simps rs_inv_def restrict_map_def fun_eq_iff domIff)
  next
    case True
    then obtain x xs where ord: "rs_order c = x # xs"
      using rs_lockstep[OF inv] inv by (cases "rs_order c") (auto simp: rs_inv_def)
    let ?c' = "snd (rs_pop_oldest c)\<lparr>rs_capacity_evictions := sat_add64 (rs_capacity_evictions (snd (rs_pop_oldest c))) 1\<rparr>"
    have step: "rs_make_room c = rs_make_room ?c'"
      using True ord by (subst rs_make_room.simps) (simp add: rs_pop_oldest_Cons)
    have "rs_inv ?c'" using rs_inv_pop[OF inv] by simp
    then have IH: "rs_inv (rs_make_room ?c') \<and> rs_config (rs_make_room ?c') = rs_config c
        \<and> rs_order (rs_make_room ?c') = drop (Suc (length xs) - rsc_capacity (rs_config c)) xs
        \<and> map_of (rs_entries (rs_make_room ?c')) = (map_of (rs_entries c))(x := None) |` set (rs_order (rs_make_room ?c'))"
      using "1.IH"[OF True] ord by (simp add: rs_pop_oldest_Cons del: restrict_fun_upd fun_upd_apply)
    have "x \<notin> set xs" using inv ord by (simp add: rs_inv_def)
    with IH have "x \<notin> set (rs_order (rs_make_room ?c'))" using set_drop_subset by fastforce
    then show ?thesis
      using IH True rs_lockstep[OF inv] ord step
      by (auto simp: Suc_diff_le restrict_map_def fun_eq_iff)
  qed
qed

lemma rs_make_room_len:
  assumes "rs_inv c"
  shows "length (rs_entries (rs_make_room c)) < rsc_capacity (rs_config c)"
proof -
  have "length (rs_order (rs_make_room c)) < rsc_capacity (rs_config c)"
    using assms rs_make_room_spec[OF assms] by (auto simp: rs_inv_def)
  then show ?thesis using rs_make_room_spec[OF assms] rs_lockstep[of "rs_make_room c"] by simp
qed


lemma rs_inv_observe:
  assumes "rs_inv c0"
  shows "rs_inv (snd (rs_observe now now' i c0))"
proof -
  let ?c = "rs_expire now c0"
  have inv: "rs_inv ?c" using assms by (rule rs_inv_expire)
  show ?thesis
  proof (cases "hm_contains i (rs_entries ?c)")
    case True
    then show ?thesis using inv by (simp add: rs_observe_def Let_def)
  next
    case False
    let ?d = "rs_make_room ?c"
    have d: "rs_inv ?d" "rs_config ?d = rs_config ?c" "i \<notin> dom (map_of (rs_entries ?d))"
      using rs_make_room_spec[OF inv] False by (auto simp: hm_contains_def restrict_map_def split: if_splits)
    then show ?thesis using False rs_make_room_len[OF inv]
      by (auto simp: rs_observe_def Let_def rs_inv_def hm.len_ins domIff)
  qed
qed

lemma rs_inv_forget: "rs_inv c \<Longrightarrow> rs_inv (rs_forget i c)"
  by (auto simp: rs_forget_def rs_inv_def intro: order_trans[OF hm.len_del_le])

lemma rs_inv_clear: "rs_inv c \<Longrightarrow> rs_inv (rs_clear c)"
  by (simp add: rs_clear_def rs_inv_def)

lemma rs_inv_step: "rs_inv c \<Longrightarrow> rs_inv (rs_step op c)"
  by (cases op) (simp_all add: rs_inv_observe rs_inv_forget rs_inv_expire rs_inv_clear)

lemma rs_inv_new: "rs_inv (rs_with_config config)"
  by (simp add: rs_inv_def rs_with_config_def)

interpretation rsm: machine rs_step "\<lambda>_ _. True" rs_inv
  by unfold_locales (rule rs_inv_step)

subsection \<open>Expiry\<close>

lemma rs_stamp_pop:
  "rs_order c = x # xs \<Longrightarrow> i \<noteq> x \<Longrightarrow> rs_stamp (snd (rs_pop_oldest c)) i = rs_stamp c i"
  by (simp add: rs_stamp_def rs_pop_oldest_Cons)

lemma rs_timed_pop:
  assumes "rs_inv c" "rs_timed clk c"
  shows "rs_timed clk (snd (rs_pop_oldest c))"
proof (cases "rs_order c")
  case (Cons x xs)
  then have "x \<notin> set xs" using assms by (simp add: rs_inv_def)
  then have "map (rs_stamp (snd (rs_pop_oldest c))) xs = map (rs_stamp c) xs"
    using Cons by (auto simp: rs_stamp_def rs_pop_oldest_Cons)
  then show ?thesis using assms(2) Cons by (auto simp: rs_timed_def rs_pop_oldest_Cons cong: map_cong)
qed (use assms in \<open>simp add: rs_pop_oldest_def\<close>)

lemma rs_timed_expire: "rs_inv c \<Longrightarrow> rs_timed clk c \<Longrightarrow> rs_timed clk (rs_expire now c)"
  by (induction now c rule: rs_expire.induct)
     (subst rs_expire.simps, auto split: list.splits intro: rs_timed_pop rs_inv_pop)

lemma rs_live_pop_expired:
  assumes "rs_order c = x # xs" "rs_expired now c x"
  shows "rs_live now (snd (rs_pop_oldest c)) = rs_live now c"
  using assms by (auto simp: rs_live_def rs_expired_def rs_pop_oldest_Cons fun_eq_iff split: option.splits)

lemma rs_expire_live:
  "rs_inv c \<Longrightarrow> rs_timed clk c \<Longrightarrow> map_of (rs_entries (rs_expire now c)) = rs_live now c"
proof (induction now c rule: rs_expire.induct)
  case (1 now c)
  show ?case
  proof (cases "rs_order c")
    case Nil
    then have "rs_entries c = []" using rs_lockstep[OF "1.prems"(1)] by simp
    then show ?thesis using Nil by (subst rs_expire.simps) (simp add: rs_live_def fun_eq_iff)
  next
    case (Cons x xs)
    show ?thesis
    proof (cases "rs_expired now c x")
      case True
      then show ?thesis
        using "1.IH"[OF Cons] Cons "1.prems" rs_inv_pop rs_timed_pop rs_live_pop_expired[OF Cons True]
        by (subst rs_expire.simps) simp
    next
      case False
      have "now - t < rsc_retention (rs_config c)" if "map_of (rs_entries c) i = Some t" for i t
      proof -
        have "i \<in> set (rs_order c)" using that "1.prems" by (auto simp: rs_inv_def)
        then have "rs_stamp c x \<le> rs_stamp c i" using "1.prems"(2) Cons by (auto simp: rs_timed_def)
        moreover have "x \<in> dom (map_of (rs_entries c))"
          using Cons "1.prems"(1) by (metis list.set_intros(1) rs_inv_def)
        ultimately show ?thesis using that False by (auto simp: rs_stamp_def rs_expired_def)
      qed
      then show ?thesis using Cons False
        by (subst rs_expire.simps) (auto simp: rs_live_def fun_eq_iff split: option.splits)
    qed
  qed
qed


subsection \<open>The clocked machine\<close>

lemma rs_timed_sub:
  assumes "rs_timed clk c" "sorted (map (rs_stamp c) (rs_order d))" "set (rs_order d) \<subseteq> set (rs_order c)"
    "\<And>i. i \<in> set (rs_order d) \<Longrightarrow> map_of (rs_entries d) i = map_of (rs_entries c) i"
  shows "rs_timed clk d"
proof -
  have "rs_stamp d i = rs_stamp c i" if "i \<in> set (rs_order d)" for i
    using assms(4)[OF that] by (simp add: rs_stamp_def)
  then show ?thesis using assms(1-3) by (auto simp: rs_timed_def cong: map_cong)
qed

lemma rs_timed_make_room:
  assumes "rs_inv c" "rs_timed clk c"
  shows "rs_timed clk (rs_make_room c)"
proof (rule rs_timed_sub[OF assms(2)])
  show "sorted (map (rs_stamp c) (rs_order (rs_make_room c)))"
    using assms rs_make_room_spec[OF assms(1)] by (simp add: rs_timed_def sorted_wrt_drop flip: drop_map)
qed (use rs_make_room_spec[OF assms(1)] set_drop_subset in \<open>fastforce\<close>)+

lemma rs_timed_forget:
  assumes "rs_timed clk c"
  shows "rs_timed clk (rs_forget i c)"
proof (cases "hm_contains i (rs_entries c)")
  case True
  then show ?thesis
    by (intro rs_timed_sub[OF assms])
       (use assms in \<open>auto simp: rs_forget_def rs_timed_def sorted_filter\<close>)
qed (use assms in \<open>simp add: rs_forget_def\<close>)

lemma rs_timed_mono: "rs_timed clk c \<Longrightarrow> clk \<le> clk' \<Longrightarrow> rs_timed clk' c"
  by (fastforce simp: rs_timed_def)

lemma rs_timed_push:
  assumes "rs_inv c" "rs_timed clk c" "clk \<le> now" "i \<notin> dom (map_of (rs_entries c))"
  shows "rs_timed now (c\<lparr>rs_entries := hm_insert i now (rs_entries c), rs_order := rs_order c @ [i]\<rparr>)"
proof -
  let ?d = "c\<lparr>rs_entries := hm_insert i now (rs_entries c), rs_order := rs_order c @ [i]\<rparr>"
  have "i \<notin> set (rs_order c)" using assms by (simp add: rs_inv_def)
  then have "rs_stamp ?d j = rs_stamp c j" if "j \<in> set (rs_order c)" for j
    using that by (auto simp: rs_stamp_def)
  moreover have "rs_stamp ?d i = now" by (simp add: rs_stamp_def)
  ultimately show ?thesis using assms(2,3)
    by (fastforce simp: rs_timed_def sorted_append cong: map_cong)
qed

lemma rs_observe_cases:
  obtains (dup) "hm_contains i (rs_entries (rs_expire now c))"
      "rs_observe now now' i c = (Duplicate, (rs_expire now c)\<lparr>rs_duplicates_suppressed :=
         sat_add64 (rs_duplicates_suppressed (rs_expire now c)) 1\<rparr>)"
  | (fresh) d where "\<not> hm_contains i (rs_entries (rs_expire now c))" "d = rs_make_room (rs_expire now c)"
      "rs_observe now now' i c = (Fresh, d\<lparr>rs_entries := hm_insert i now' (rs_entries d),
         rs_order := rs_order d @ [i]\<rparr>)"
  by (auto simp: rs_observe_def Let_def split: if_splits)

lemma rs_make_room_absent:
  "rs_inv c \<Longrightarrow> \<not> hm_contains i (rs_entries c) \<Longrightarrow> i \<notin> dom (map_of (rs_entries (rs_make_room c)))"
  using rs_make_room_spec[of c] by (auto simp: hm_contains_def restrict_map_def split: if_splits)

lemma rs_timed_duplicates [simp]: "rs_timed clk (c\<lparr>rs_duplicates_suppressed := n\<rparr>) = rs_timed clk c"
  by (simp add: rs_timed_def rs_stamp_def [abs_def])

lemma rs_timed_observe:
  assumes "rs_inv c" "rs_timed clk c" "clk \<le> now" "now \<le> now'"
  shows "rs_timed now' (snd (rs_observe now now' i c))"
proof -
  have e: "rs_inv (rs_expire now c)" "rs_timed now' (rs_expire now c)"
    using assms rs_inv_expire rs_timed_expire rs_timed_mono by (blast, meson order_trans)
  show ?thesis
  proof (cases rule: rs_observe_cases[of i now c now'])
    case dup
    then show ?thesis using e by simp
  next
    case (fresh d)
    then show ?thesis
      using rs_timed_push[of d now' now' i] rs_make_room_spec[OF e(1)] rs_timed_make_room[OF e]
        rs_make_room_absent[OF e(1)] by simp
  qed
qed

lemma rs_clocked_step_inv:
  assumes "rs_clocked_inv s" "rs_ordered op (fst s)"
  shows "rs_clocked_inv (rs_clocked_step op s)"
proof (cases op)
  case (RsExpire now)
  then show ?thesis
    using assms rs_timed_mono[OF rs_timed_expire] by (auto simp: rs_clocked_inv_def rs_clocked_step_def rs_inv_expire)
next
  case RsClear
  then show ?thesis
    using assms by (simp add: rs_clocked_inv_def rs_clocked_step_def rs_inv_clear) (simp add: rs_clear_def rs_timed_def)
qed (use assms in \<open>auto simp: rs_clocked_inv_def rs_clocked_step_def rs_inv_step rs_inv_observe rs_inv_forget
        intro: rs_timed_observe rs_timed_forget\<close>)

interpretation rsc: machine rs_clocked_step "\<lambda>op s. rs_ordered op (fst s)" rs_clocked_inv
  by unfold_locales (rule rs_clocked_step_inv)

lemma rs_clocked_inv_new: "rs_clocked_inv (clk, rs_with_config config)"
  by (simp add: rs_clocked_inv_def rs_inv_new) (simp add: rs_timed_def rs_with_config_def)


subsection \<open>How long an id stays suppressed\<close>

lemma rs_held_expire: "rs_held i t k c \<Longrightarrow> now - t < rsc_retention (rs_config c) \<Longrightarrow> rs_held i t k (rs_expire now c)"
proof (induction now c rule: rs_expire.induct)
  case (1 now c)
  obtain pre post where ord: "rs_order c = pre @ i # post" and post: "length post \<le> k"
    and i: "map_of (rs_entries c) i = Some t" using "1.prems" by (auto simp: rs_held_def)
  then obtain x xs where c: "rs_order c = x # xs" by (cases pre) auto
  show ?case
  proof (cases "rs_expired now c x")
    case True
    then have "x \<noteq> i" using "1.prems"(2) i by (auto simp: rs_expired_def)
    then obtain pre' where "xs = pre' @ i # post" using ord c by (cases pre) auto
    then have "rs_held i t k (snd (rs_pop_oldest c))"
      using \<open>x \<noteq> i\<close> c i post by (auto simp: rs_held_def rs_pop_oldest_Cons)
    then show ?thesis using "1.IH"[OF c] True c "1.prems"(2) by (subst rs_expire.simps) simp
  next
    case False
    then show ?thesis using "1.prems" c by (subst rs_expire.simps) simp
  qed
qed

lemma rs_held_make_room:
  assumes "rs_inv c" "rs_held i t k c" "Suc k < rsc_capacity (rs_config c)"
  shows "rs_held i t k (rs_make_room c)"
proof -
  obtain pre post where ord: "rs_order c = pre @ i # post" and post: "length post \<le> k"
    and i: "map_of (rs_entries c) i = Some t" using assms(2) by (auto simp: rs_held_def)
  let ?n = "Suc (length (rs_order c)) - rsc_capacity (rs_config c)"
  have "?n \<le> length pre" using ord post assms(3) by simp
  then have "rs_order (rs_make_room c) = drop ?n pre @ i # post"
    using rs_make_room_spec[OF assms(1)] ord by simp
  moreover from this have "map_of (rs_entries (rs_make_room c)) i = Some t"
    using rs_make_room_spec[OF assms(1)] i by (simp add: restrict_map_def)
  ultimately show ?thesis using post by (auto simp: rs_held_def)
qed

lemma rs_held_mono: "rs_held i t k c \<Longrightarrow> k \<le> k' \<Longrightarrow> rs_held i t k' c"
  by (force simp: rs_held_def)

lemma rs_heldI:
  "map_of (rs_entries c) i = Some t \<Longrightarrow> rs_order c = pre @ i # post \<Longrightarrow> length post \<le> k \<Longrightarrow> rs_held i t k c"
  by (auto simp: rs_held_def)

lemma rs_held_observe:
  assumes "rs_inv c" "rs_held i t k c" "now - t < rsc_retention (rs_config c)"
    "Suc k < rsc_capacity (rs_config c)"
  shows "rs_held i t (Suc k) (snd (rs_observe now now' j c))"
proof -
  have e: "rs_inv (rs_expire now c)" "rs_held i t k (rs_expire now c)"
    using assms rs_inv_expire rs_held_expire by blast+
  show ?thesis
  proof (cases rule: rs_observe_cases[of j now c now'])
    case dup
    then show ?thesis using rs_held_mono[OF e(2), of "Suc k"] by (simp add: rs_held_def)
  next
    case (fresh d)
    then have d: "rs_held i t k d" using rs_held_make_room[OF e] assms(4) by simp
    then obtain pre post where "rs_order d = pre @ i # post" "length post \<le> k" by (auto simp: rs_held_def)
    moreover have "i \<noteq> j" using fresh(1) e(2) by (auto simp: hm_contains_def rs_held_def)
    ultimately show ?thesis
      using d fresh(3) by (intro rs_heldI[of _ _ _ pre "post @ [j]"]) (auto simp: rs_held_def)
  qed
qed

lemma rs_held_forget: "rs_held i t k c \<Longrightarrow> j \<noteq> i \<Longrightarrow> rs_held i t k (rs_forget j c)"
  by (force simp: rs_held_def rs_forget_def intro: le_trans[OF length_filter_le])

lemma rs_config_step [simp]: "rs_inv c \<Longrightarrow> rs_config (rs_step op c) = rs_config c"
proof (cases op)
  case (RsObserve now now' i)
  then show "rs_inv c \<Longrightarrow> ?thesis"
    using rs_make_room_spec[OF rs_inv_expire, of c now] by (cases rule: rs_observe_cases[of i now c now']) auto
qed (auto simp: rs_forget_def rs_clear_def)

lemma rs_held_run:
  assumes "rs_inv c" "rs_held i t k c"
    "\<forall>op\<in>set ops. rs_keeps i t (rsc_retention (rs_config c)) op"
    "k + length (filter rs_is_observe ops) < rsc_capacity (rs_config c)"
  shows "rs_held i t (k + length (filter rs_is_observe ops)) (fold rs_step ops c)"
  using assms
proof (induction ops arbitrary: k c)
  case (Cons op ops)
  have "rs_held i t (k + (if rs_is_observe op then 1 else 0)) (rs_step op c)"
    using Cons.prems by (cases op) (auto intro: rs_held_observe rs_held_forget rs_held_expire)
  then show ?case using Cons.IH[of "rs_step op c" "k + (if rs_is_observe op then 1 else 0)"] Cons.prems rs_inv_step by (auto split: if_splits)
qed simp

lemma rs_config_run: "rs_inv c \<Longrightarrow> rs_config (fold rs_step ops c) = rs_config c"
  by (induction ops arbitrary: c) (simp_all add: rs_inv_step)

lemma rs_held_fresh:
  assumes "rs_inv c" "fst (rs_observe now now' i c) = Fresh"
  shows "rs_held i now' 0 (snd (rs_observe now now' i c))"
  using assms(2) by (cases rule: rs_observe_cases[of i now c now']) (auto simp: rs_held_def)

lemma rs_held_duplicate:
  assumes "rs_held i t k c" "now - t < rsc_retention (rs_config c)"
  shows "fst (rs_observe now now' i c) = Duplicate"
  using rs_held_expire[OF assms] by (simp add: rs_observe_def rs_held_def hm_contains_def Let_def)

subsection \<open>Properties\<close>

text \<open>Whatever sequence of observations, forgets, expiries and clears a cache goes through,
  its map and its insertion queue hold the same ids, each once, and never more than the
  configured capacity (at least one).\<close>

lemma rs_run_lockstep: "rs_inv (fold rs_step ops (rs_with_config config))"
  by (rule rsm.run_inv[OF rs_inv_new]) simp

text \<open>For a run whose clock readings never go back, observing an id answers \<open>Duplicate\<close>
  exactly when the id was recorded less than a retention window ago and is still held, and the
  front-popping expiry leaves exactly those ids.\<close>

lemma rs_observe_exact:
  assumes "legal rs_clocked_step (\<lambda>op s. rs_ordered op (fst s)) ops (clk, rs_with_config config)"
    and "(clk', c) = fold rs_clocked_step ops (clk, rs_with_config config)"
  shows "(fst (rs_observe now now' i c) = Duplicate \<longleftrightarrow> rs_live now c i \<noteq> None)
    \<and> map_of (rs_entries (rs_expire now c)) = rs_live now c"
proof -
  have "rs_clocked_inv (clk', c)"
    using rsc.run_inv[OF rs_clocked_inv_new assms(1)] assms(2) by simp
  then have "map_of (rs_entries (rs_expire now c)) = rs_live now c"
    by (intro rs_expire_live[of c clk']) (simp_all add: rs_clocked_inv_def)
  then show ?thesis by (simp add: rs_observe_def Let_def hm_contains_def)
qed

lemma rs_observe_exact_witness:
  "fst (rs_observe 14 14 ''m'' (snd (fold rs_clocked_step [RsObserve 3 3 ''a'', RsObserve 5 6 ''m'']
      (0, rs_with_config \<lparr>rsc_capacity = 2, rsc_retention = 9\<rparr>)))) = Duplicate"
proof -
  let ?ops = "[RsObserve 3 3 ''a'', RsObserve 5 6 ''m'']"
  let ?s = "(0, rs_with_config \<lparr>rsc_capacity = 2, rsc_retention = 9\<rparr>)"
  have "legal rs_clocked_step (\<lambda>op s. rs_ordered op (fst s)) ?ops ?s" by code_simp
  moreover have "(6, snd (fold rs_clocked_step ?ops ?s)) = fold rs_clocked_step ?ops ?s" by code_simp
  moreover have "rs_live 14 (snd (fold rs_clocked_step ?ops ?s)) ''m'' = Some 6" by code_simp
  ultimately show ?thesis using rs_observe_exact by (metis option.discI)
qed



end
