(* ===== verification/Core_Types.thy ===== *)
theory Core_Types
  imports Prelude
begin

text \<open>
  The protocol's vocabulary (\<open>offline-protocol-core/src/types.rs\<close>, \<open>message.rs\<close>): identifiers
  and their validation, the hop budget, the Lamport clock, content types, priorities and the
  message itself.

  A Rust \<open>String\<close> is a \<open>string\<close>, one character per UTF-8 byte, so \<open>len()\<close> is \<open>length\<close>.
  A message id is the sixteen bytes of its UUID.  The error variants keep their structured
  payload where the code renders it to text.
\<close>

subsection \<open>Identifiers\<close>

datatype id_validation_error =
    IdEmpty string
  | IdPathTraversal string
  | IdControlChars string
  | IdInvalidChars string
  | IdTooLong string nat nat

datatype core_error =
    InvalidMessage string
  | InvalidUserId id_validation_error
  | InvalidAppId id_validation_error
  | InvalidTTL u8
  | InvalidHopCount u8
  | SerializationError string
  | DeserializationError string
  | InvalidServiceId string
  | OtherError string

abbreviation MAX_ID_LEN :: nat where
  "MAX_ID_LEN \<equiv> 256"

definition is_ascii_control :: "char \<Rightarrow> bool" where
  "is_ascii_control c = (of_char c < (32 :: nat) \<or> of_char c = (127 :: nat))"

definition validate_id_chars :: "string \<Rightarrow> string \<Rightarrow> id_validation_error + unit" where
  "validate_id_chars i type_name =
     (if i = [] then Inl (IdEmpty type_name)
      else if i = ''.'' \<or> i = ''..'' then Inl (IdPathTraversal type_name)
      else if list_ex is_ascii_control i then Inl (IdControlChars type_name)
      else if CHR ''/'' \<in> set i \<or> CHR 0x5C \<in> set i \<or> CHR '':'' \<in> set i
      then Inl (IdInvalidChars type_name)
      else Inr ())"

definition validate_id :: "string \<Rightarrow> string \<Rightarrow> id_validation_error + unit" where
  "validate_id i type_name =
     (if MAX_ID_LEN < length i then Inl (IdTooLong type_name (length i) MAX_ID_LEN)
      else validate_id_chars i type_name)"

type_synonym user_id = string
type_synonym app_id = string
type_synonym message_id = bytes

definition UserId_new :: "string \<Rightarrow> core_error + user_id" where
  "UserId_new i = (case validate_id i ''User ID'' of Inl e \<Rightarrow> Inl (InvalidUserId e) | Inr _ \<Rightarrow> Inr i)"

definition AppId_new :: "string \<Rightarrow> core_error + app_id" where
  "AppId_new i = (case validate_id i ''App ID'' of Inl e \<Rightarrow> Inl (InvalidAppId e) | Inr _ \<Rightarrow> Inr i)"

subsection \<open>The hop budget\<close>

type_synonym ttl = u8
type_synonym hop_count = u8

abbreviation TTL_DEFAULT :: ttl where
  "TTL_DEFAULT \<equiv> 8"

definition TTL_new :: "u8 \<Rightarrow> core_error + ttl" where
  "TTL_new v = (if v = 0 then Inl (InvalidTTL v) else Inr v)"

definition TTL_decrement :: "ttl \<Rightarrow> ttl option" where
  "TTL_decrement t = (if 1 < t then Some (t - 1) else None)"

definition TTL_is_exhausted :: "ttl \<Rightarrow> bool" where
  "TTL_is_exhausted t = (t \<le> 1)"

definition HopCount_increment :: "hop_count \<Rightarrow> hop_count option" where
  "HopCount_increment h = (if h = - 1 then None else Some (h + 1))"

subsection \<open>The Lamport clock\<close>

type_synonym lamport_clock = u64
type_synonym timestamp = i64

abbreviation LAMPORT_CLOCK_MAX :: u64 where
  "LAMPORT_CLOCK_MAX \<equiv> 0x7FFFFFFFFFFFFFFF"

definition sat_inc :: "u64 \<Rightarrow> u64" where
  "sat_inc c = (if c = - 1 then c else c + 1)"

definition Lamport_from_value :: "u64 \<Rightarrow> lamport_clock" where
  "Lamport_from_value v = min v LAMPORT_CLOCK_MAX"

definition Lamport_tick :: "lamport_clock \<Rightarrow> lamport_clock" where
  "Lamport_tick c = sat_inc c"

definition Lamport_merge :: "lamport_clock \<Rightarrow> lamport_clock \<Rightarrow> lamport_clock" where
  "Lamport_merge c received = sat_inc (max c (min received LAMPORT_CLOCK_MAX))"

subsection \<open>Content types and priorities\<close>

datatype content_type =
  Text | Image | Video | Audio | VoiceNote | VideoNote | File | FileChunk | Poll

definition ContentType_ALL :: "content_type list" where
  "ContentType_ALL = [Text, Image, Video, Audio, VoiceNote, VideoNote, File, FileChunk, Poll]"

fun is_media :: "content_type \<Rightarrow> bool" where
  "is_media Text = False"
| "is_media Poll = False"
| "is_media _ = True"

fun as_wire_str :: "content_type \<Rightarrow> string" where
  "as_wire_str Text = ''text''"
| "as_wire_str Image = ''image''"
| "as_wire_str Video = ''video''"
| "as_wire_str Audio = ''audio''"
| "as_wire_str VoiceNote = ''voice_note''"
| "as_wire_str VideoNote = ''video_note''"
| "as_wire_str File = ''file''"
| "as_wire_str FileChunk = ''file_chunk''"
| "as_wire_str Poll = ''poll''"

definition ContentType_parse :: "string \<Rightarrow> content_type" where
  "ContentType_parse s =
     (if s = ''text'' then Text
      else if s = ''image'' then Image
      else if s = ''video'' then Video
      else if s = ''audio'' then Audio
      else if s = ''voice_note'' then VoiceNote
      else if s = ''video_note'' then VideoNote
      else if s = ''file'' then File
      else if s = ''file_chunk'' then FileChunk
      else if s = ''poll'' then Poll
      else File)"

datatype message_priority = Low | Medium | High | Critical

fun priority_score :: "message_priority \<Rightarrow> nat" where
  "priority_score Low = 1"
| "priority_score Medium = 2"
| "priority_score High = 3"
| "priority_score Critical = 4"

text \<open>The derived \<open>Ord\<close> of \<open>MessagePriority\<close> is the declaration order.\<close>

instantiation message_priority :: linorder
begin

definition less_eq_message_priority :: "message_priority \<Rightarrow> message_priority \<Rightarrow> bool" where
  "less_eq_message_priority p q \<longleftrightarrow> priority_score p \<le> priority_score q"

definition less_message_priority :: "message_priority \<Rightarrow> message_priority \<Rightarrow> bool" where
  "less_message_priority p q \<longleftrightarrow> priority_score p < priority_score q"

instance
proof
  fix p q :: message_priority
  assume "p \<le> q" "q \<le> p"
  then show "p = q" by (cases p; cases q; simp add: less_eq_message_priority_def)
qed (auto simp: less_eq_message_priority_def less_message_priority_def)

end

subsection \<open>Messages\<close>

record media_metadata =
  mm_mime_type :: string
  mm_file_name :: string
  mm_file_size :: u64
  mm_duration_ms :: "u64 option"
  mm_width :: "u32 option"
  mm_height :: "u32 option"
  mm_thumbnail_base64 :: "string option"
  mm_media_id :: "string option"
  mm_download_url :: "string option"
  mm_thumbnail_url :: "string option"
  mm_encryption_key :: "string option"
  mm_iv :: "string option"
  mm_ciphertext_hash :: "string option"
  mm_sticker_provider :: "string option"
  mm_sticker_remote_id :: "string option"
  mm_sticker_kind :: "string option"

definition has_secrets :: "media_metadata \<Rightarrow> bool" where
  "has_secrets m = (mm_encryption_key m \<noteq> None \<or> mm_iv m \<noteq> None)"

definition without_secrets :: "media_metadata \<Rightarrow> media_metadata" where
  "without_secrets m = m\<lparr>mm_encryption_key := None, mm_iv := None\<rparr>"

record forward_info =
  fi_original_sender :: user_id
  fi_original_message_id :: message_id
  fi_original_timestamp :: timestamp
  fi_forward_count :: u32

record reply_context =
  rc_sender :: user_id
  rc_text :: string
  rc_timestamp :: "timestamp option"
  rc_reply_media_label :: "string option"
  rc_reply_content_type :: "string option"

datatype wire_codec = WcJson | WcBinaryV1

record message =
  msg_id :: message_id
  msg_sender :: user_id
  msg_recipient :: user_id
  msg_app_id :: app_id
  msg_priority :: message_priority
  msg_ttl :: ttl
  msg_hop_count :: hop_count
  msg_timestamp :: timestamp
  msg_lamport_clock :: lamport_clock
  msg_content_type :: content_type
  msg_content :: string
  msg_binary_content :: "bytes option"
  msg_media_metadata :: "media_metadata option"
  msg_metadata :: "(string, string) hashmap"
  msg_requires_ack :: bool
  msg_reply_to_msg :: "message_id option"
  msg_forwarded_from :: "forward_info option"
  msg_reply_context :: "reply_context option"
  msg_transport_peer_id :: "string option"
  msg_wire_codec :: wire_codec

definition message_from_parts ::
  "message_id \<Rightarrow> user_id \<Rightarrow> user_id \<Rightarrow> app_id \<Rightarrow> string \<Rightarrow> timestamp \<Rightarrow> message" where
  "message_from_parts i sender recipient app content ts = \<lparr>
     msg_id = i, msg_sender = sender, msg_recipient = recipient, msg_app_id = app,
     msg_priority = Medium, msg_ttl = TTL_DEFAULT, msg_hop_count = 0, msg_timestamp = ts,
     msg_lamport_clock = 0, msg_content_type = Text, msg_content = content,
     msg_binary_content = None, msg_media_metadata = None, msg_metadata = [],
     msg_requires_ack = True, msg_reply_to_msg = None, msg_forwarded_from = None,
     msg_reply_context = None, msg_transport_peer_id = None, msg_wire_codec = WcJson\<rparr>"

definition sat_inc32 :: "u32 \<Rightarrow> u32" where
  "sat_inc32 n = (if n = - 1 then n else n + 1)"

definition ForwardInfo_from_message :: "message \<Rightarrow> forward_info" where
  "ForwardInfo_from_message m = (case msg_forwarded_from m of
       Some existing \<Rightarrow> existing\<lparr>fi_forward_count := sat_inc32 (fi_forward_count existing)\<rparr>
     | None \<Rightarrow> \<lparr>fi_original_sender = msg_sender m, fi_original_message_id = msg_id m,
                fi_original_timestamp = msg_timestamp m, fi_forward_count = 1\<rparr>)"

definition increment_hop :: "message \<Rightarrow> core_error + message" where
  "increment_hop m = (case HopCount_increment (msg_hop_count m) of
       Some h \<Rightarrow> Inr (m\<lparr>msg_hop_count := h\<rparr>)
     | None \<Rightarrow> Inl (InvalidHopCount (- 1)))"

definition decrement_ttl :: "message \<Rightarrow> core_error + message" where
  "decrement_ttl m = (case TTL_decrement (msg_ttl m) of
       Some t \<Rightarrow> Inr (m\<lparr>msg_ttl := t\<rparr>)
     | None \<Rightarrow> Inl (InvalidTTL 0))"

definition is_ttl_exhausted :: "message \<Rightarrow> bool" where
  "is_ttl_exhausted m = TTL_is_exhausted (msg_ttl m)"

definition set_transport_peer_id :: "string \<Rightarrow> message \<Rightarrow> core_error + message" where
  "set_transport_peer_id peer_id m =
     (if peer_id = [] then Inl (InvalidMessage ''transport_peer_id must not be empty'')
      else Inr (m\<lparr>msg_transport_peer_id := Some peer_id\<rparr>))"

text \<open>The type invariant of \<open>Message\<close>: its identifiers went through \<open>UserId::new\<close> and
  \<open>AppId::new\<close>, its id has sixteen bytes and its metadata map no key twice.\<close>

definition valid_user_id :: "string \<Rightarrow> bool" where
  "valid_user_id i \<longleftrightarrow> UserId_new i = Inr i"

definition valid_app_id :: "string \<Rightarrow> bool" where
  "valid_app_id i \<longleftrightarrow> AppId_new i = Inr i"

definition message_ok :: "message \<Rightarrow> bool" where
  "message_ok m \<longleftrightarrow> valid_user_id (msg_sender m) \<and> valid_user_id (msg_recipient m)
     \<and> valid_app_id (msg_app_id m) \<and> length (msg_id m) = 16 \<and> hm_inv (msg_metadata m)"

subsection \<open>Two devices exchanging a message\<close>

text \<open>
  A send ticks the clock and stamps the message (\<open>send.rs\<close>); the wire clamps the stamp
  (\<open>LamportClock::from_value\<close>); a receive merges it (\<open>receive.rs\<close>).  \<open>causal_reply a b\<close> is the
  pair of stamps of a message sent by a device at clock \<open>a\<close> and of the reply of a device at
  clock \<open>b\<close>, sent right after it received the message.
\<close>

definition causal_reply :: "lamport_clock \<Rightarrow> lamport_clock \<Rightarrow> lamport_clock \<times> lamport_clock" where
  "causal_reply a b =
     (let first = Lamport_tick a;
          b' = Lamport_merge b (Lamport_from_value first)
      in (first, Lamport_tick b'))"

subsection \<open>Lemmas\<close>

lemma validate_id_chars_ok:
  "validate_id_chars i n = Inr () \<longleftrightarrow>
     i \<noteq> [] \<and> i \<noteq> ''.'' \<and> i \<noteq> ''..'' \<and> (\<forall>c\<in>set i. \<not> is_ascii_control c)
     \<and> CHR ''/'' \<notin> set i \<and> CHR 0x5C \<notin> set i \<and> CHR '':'' \<notin> set i"
  by (auto simp: validate_id_chars_def list_ex_iff)

lemma validate_id_ok:
  "validate_id i n = Inr () \<longleftrightarrow> length i \<le> MAX_ID_LEN \<and> validate_id_chars i n = Inr ()"
  by (simp add: validate_id_def not_le)

lemma UserId_new_ok: "UserId_new i = Inr j \<longleftrightarrow> j = i \<and> validate_id i ''User ID'' = Inr ()"
  by (auto simp: UserId_new_def split: sum.splits)

lemma AppId_new_ok: "AppId_new i = Inr j \<longleftrightarrow> j = i \<and> validate_id i ''App ID'' = Inr ()"
  by (auto simp: AppId_new_def split: sum.splits)

lemma ContentType_ALL_complete: "set ContentType_ALL = UNIV" "distinct ContentType_ALL"
proof -
  have "c \<in> set ContentType_ALL" for c by (cases c) (simp_all add: ContentType_ALL_def)
  then show "set ContentType_ALL = UNIV" by auto
qed (simp add: ContentType_ALL_def)

lemma ContentType_parse_wire_str: "ContentType_parse (as_wire_str c) = c"
  by (cases c) (simp_all add: ContentType_parse_def)

lemma priority_score_mono: "p \<le> q \<longleftrightarrow> priority_score p \<le> priority_score q"
  by (rule less_eq_message_priority_def)

lemma without_secrets_clean [simp]: "\<not> has_secrets (without_secrets m)"
  by (simp add: has_secrets_def without_secrets_def)

lemma unat_sat_inc: "c \<noteq> - 1 \<Longrightarrow> unat (sat_inc c) = Suc (unat c)"
  using unatSuc[of c] by (simp add: sat_inc_def add.commute add_eq_0_iff)

lemma sat_inc_gt: "c \<noteq> - 1 \<Longrightarrow> c < sat_inc c"
  by (simp add: word_less_nat_alt unat_sat_inc)

lemma sat_inc_ge: "c \<le> sat_inc c"
  using sat_inc_gt[of c] by (cases "c = - 1") (simp_all add: sat_inc_def)

lemma TTL_decrement_some: "TTL_decrement t = Some t' \<longleftrightarrow> 1 < t \<and> t' = t - 1"
  by (auto simp: TTL_decrement_def)

lemma TTL_decrement_unat: "TTL_decrement t = Some t' \<Longrightarrow> unat t = Suc (unat t') \<and> 0 < t'"
proof -
  assume "TTL_decrement t = Some t'"
  then have t: "1 < t" "t' = t - 1" by (simp_all add: TTL_decrement_some)
  moreover from t have "t \<noteq> 0" by auto
  ultimately have "unat t' = unat t - 1" "1 < unat t" by (simp_all add: unat_minus_one word_less_nat_alt)
  then show ?thesis by (simp add: word_less_nat_alt)
qed


subsection \<open>Properties\<close>

text \<open>C13. If a device answers a message it received, its answer carries a greater Lamport stamp
  than the message, whatever its own clock was, as long as the first sender's clock had not
  passed the accepted maximum.\<close>

theorem lamport_causality:
  assumes "a \<le> LAMPORT_CLOCK_MAX"
  shows "fst (causal_reply a b) < snd (causal_reply a b)"
proof -
  define c where "c = max b (min (sat_inc a) LAMPORT_CLOCK_MAX)"
  have reply: "causal_reply a b = (sat_inc a, sat_inc (sat_inc c))"
    by (simp add: causal_reply_def Let_def Lamport_tick_def Lamport_merge_def Lamport_from_value_def c_def)
  have le: "a \<le> c" using assms sat_inc_ge[of a] by (simp add: c_def le_max_iff_disj)
  have na: "a \<noteq> - 1" using assms by (auto simp: word_le_nat_alt)
  have na': "sat_inc a \<noteq> - 1"
  proof
    assume "sat_inc a = - 1"
    then have "Suc (unat a) = 18446744073709551615" using unat_sat_inc[OF na] by simp
    then show False using assms by (simp add: word_le_nat_alt)
  qed
  show ?thesis
  proof (cases "c = - 1 \<or> sat_inc c = - 1")
    case True
    then have "sat_inc (sat_inc c) = - 1" by (auto simp: sat_inc_def)
    then show ?thesis using na' by (simp add: reply word_order.not_eq_extremum)
  next
    case False
    then have "unat (sat_inc (sat_inc c)) = Suc (Suc (unat c))" by (simp add: unat_sat_inc)
    then show ?thesis using le na by (simp add: reply word_less_nat_alt word_le_nat_alt unat_sat_inc)
  qed
qed

theorem lamport_causality_witness: "fst (causal_reply 41 7) < snd (causal_reply 41 7)"
  by (rule lamport_causality) simp

text \<open>The guarantee ends at the maximum: one frame stamped with the maximum moves a fresh
  device past it, and from then on a message it sends and the answer to it carry the same
  stamp.\<close>

lemma lamport_inflation:
  "let poisoned = Lamport_merge 0 (Lamport_from_value (- 1)) in
     fst (causal_reply poisoned 0) = snd (causal_reply poisoned 0)"
  by (simp add: causal_reply_def Lamport_tick_def Lamport_merge_def Lamport_from_value_def sat_inc_def)

end
