(* ===== verification/Ack_Manager.thy ===== *)
theory Ack_Manager
  imports Core_Types
begin

text \<open>
  The table of messages waiting for an acknowledgment
  (\<open>offline-protocol-reliability/src/ack_manager.rs\<close>).

  Operations that read the clock once per entry (\<open>drain_timed_out\<close>, \<open>get_timed_out_acks\<close>) take
  a function from the entry's id to the reading made when the loop reaches it.
\<close>

subsection \<open>State and operations\<close>

datatype ack_status = AckPending | AckTimedOut

record ack_eviction_info =
  aei_message_id :: message_id
  aei_priority :: message_priority

record pending_ack =
  pa_message_id :: message_id
  pa_sent_at :: datetime
  pa_timeout_ms :: nat
  pa_status :: ack_status
  pa_retry_count :: u32
  pa_priority :: message_priority
  pa_extended_ms :: nat

definition is_timed_out :: "datetime \<Rightarrow> pending_ack \<Rightarrow> bool" where
  "is_timed_out now p =
     (if pa_status p \<noteq> AckPending then False
      else u64_as_i64 (sat_add64 (pa_timeout_ms p) (pa_extended_ms p))
             \<le> num_milliseconds (now - pa_sent_at p))"

record ack_config =
  ac_default_timeout_ms :: nat
  ac_max_pending_acks :: nat

definition ack_config_default :: ack_config where
  "ack_config_default = \<lparr>ac_default_timeout_ms = 10000, ac_max_pending_acks = 1000\<rparr>"

record ack_manager =
  am_config :: ack_config
  am_pending_acks :: "(message_id, pending_ack) hashmap"

datatype ack_error = AckCapacity nat

definition am_with_config :: "ack_config \<Rightarrow> ack_manager" where
  "am_with_config config = \<lparr>am_config = config, am_pending_acks = []\<rparr>"

fun am_priority_rank :: "message_priority \<Rightarrow> nat" where
  "am_priority_rank Low = 0"
| "am_priority_rank Medium = 1"
| "am_priority_rank High = 2"
| "am_priority_rank Critical = 3"

definition has_capacity_for :: "message_id \<Rightarrow> ack_manager \<Rightarrow> bool" where
  "has_capacity_for mid m = (hm_contains mid (am_pending_acks m)
     \<or> length (am_pending_acks m) < ac_max_pending_acks (am_config m))"

definition evict_candidate :: "ack_manager \<Rightarrow> (message_id \<times> pending_ack) option" where
  "evict_candidate m = min_on (\<lambda>(_, a). (am_priority_rank (pa_priority a), pa_sent_at a))
     (filter (\<lambda>(_, a). pa_status a = AckPending) (am_pending_acks m))"

definition evict_lowest_priority ::
  "message_priority \<Rightarrow> ack_manager \<Rightarrow> ack_eviction_info option \<times> ack_manager" where
  "evict_lowest_priority new_priority m = (case evict_candidate m of
       Some (evict_id, a) \<Rightarrow>
         if am_priority_rank (pa_priority a) < am_priority_rank new_priority
         then (Some \<lparr>aei_message_id = evict_id, aei_priority = pa_priority a\<rparr>,
               m\<lparr>am_pending_acks := hm_remove evict_id (am_pending_acks m)\<rparr>)
         else (None, m)
     | None \<Rightarrow> (None, m))"

definition am_track ::
  "datetime \<Rightarrow> message_id \<Rightarrow> nat option \<Rightarrow> message_priority \<Rightarrow> ack_manager \<Rightarrow> ack_manager" where
  "am_track now mid timeout_ms priority m = m\<lparr>am_pending_acks := hm_insert mid
     \<lparr>pa_message_id = mid, pa_sent_at = now,
      pa_timeout_ms = (case timeout_ms of None \<Rightarrow> ac_default_timeout_ms (am_config m) | Some t \<Rightarrow> t),
      pa_status = AckPending, pa_retry_count = 0, pa_priority = priority, pa_extended_ms = 0\<rparr>
     (am_pending_acks m)\<rparr>"

definition register_pending_ack_with_priority ::
  "datetime \<Rightarrow> message_id \<Rightarrow> nat option \<Rightarrow> message_priority \<Rightarrow> ack_manager
   \<Rightarrow> (ack_error + ack_eviction_info option) \<times> ack_manager" where
  "register_pending_ack_with_priority now mid timeout_ms priority m =
     (if \<not> has_capacity_for mid m
      then (case evict_lowest_priority priority m of
              (Some info, m') \<Rightarrow> (Inr (Some info), am_track now mid timeout_ms priority m')
            | (None, m') \<Rightarrow> (Inl (AckCapacity (ac_max_pending_acks (am_config m'))), m'))
      else (Inr None, am_track now mid timeout_ms priority m))"

definition register_pending_ack ::
  "datetime \<Rightarrow> message_id \<Rightarrow> nat option \<Rightarrow> ack_manager
   \<Rightarrow> (ack_error + ack_eviction_info option) \<times> ack_manager" where
  "register_pending_ack now mid timeout_ms m =
     register_pending_ack_with_priority now mid timeout_ms Medium m"

definition am_mark :: "(message_id \<Rightarrow> datetime) \<Rightarrow> message_id \<times> pending_ack \<Rightarrow> message_id \<times> pending_ack" where
  "am_mark now e = (if is_timed_out (now (fst e)) (snd e)
     then (fst e, (snd e)\<lparr>pa_status := AckTimedOut\<rparr>) else e)"

definition am_drain_timed_out :: "(message_id \<Rightarrow> datetime) \<Rightarrow> ack_manager \<Rightarrow> pending_ack list \<times> ack_manager" where
  "am_drain_timed_out now m =
     (map (\<lambda>e. snd (am_mark now e)) (filter (\<lambda>e. is_timed_out (now (fst e)) (snd e)) (am_pending_acks m)),
      m\<lparr>am_pending_acks := map (am_mark now) (am_pending_acks m)\<rparr>)"

definition remove_ack :: "message_id \<Rightarrow> ack_manager \<Rightarrow> pending_ack option \<times> ack_manager" where
  "remove_ack mid m = (map_of (am_pending_acks m) mid,
     m\<lparr>am_pending_acks := hm_remove mid (am_pending_acks m)\<rparr>)"

definition get_timed_out_acks :: "(message_id \<Rightarrow> datetime) \<Rightarrow> ack_manager \<Rightarrow> message_id list" where
  "get_timed_out_acks now m =
     map (pa_message_id \<circ> snd) (filter (\<lambda>e. is_timed_out (now (fst e)) (snd e)) (am_pending_acks m))"

definition am_update :: "message_id \<Rightarrow> (pending_ack \<Rightarrow> pending_ack) \<Rightarrow> ack_manager \<Rightarrow> ack_manager" where
  "am_update mid f m = (case map_of (am_pending_acks m) mid of
       Some p \<Rightarrow> m\<lparr>am_pending_acks := hm_insert mid (f p) (am_pending_acks m)\<rparr>
     | None \<Rightarrow> m)"

definition increment_retry_count :: "datetime \<Rightarrow> message_id \<Rightarrow> ack_manager \<Rightarrow> ack_manager" where
  "increment_retry_count now mid m = am_update mid
     (\<lambda>p. p\<lparr>pa_retry_count := pa_retry_count p + 1, pa_sent_at := now,
            pa_extended_ms := 0, pa_status := AckPending\<rparr>) m"

definition extend_while_queued ::
  "datetime \<Rightarrow> message_id \<Rightarrow> duration \<Rightarrow> ack_manager \<Rightarrow> bool \<times> ack_manager" where
  "extend_while_queued now mid max_wait m = (case map_of (am_pending_acks m) mid of
       None \<Rightarrow> (False, m)
     | Some p \<Rightarrow>
         let elapsed_ms = nat (max (num_milliseconds (now - pa_sent_at p)) 0) in
         if min (max_wait div 1000000) u64_max \<le> elapsed_ms then (False, m)
         else (True, am_update mid (\<lambda>p. p\<lparr>pa_extended_ms := elapsed_ms, pa_status := AckPending\<rparr>) m))"

definition set_retry_count :: "message_id \<Rightarrow> u32 \<Rightarrow> ack_manager \<Rightarrow> ack_manager" where
  "set_retry_count mid n m = am_update mid (\<lambda>p. p\<lparr>pa_retry_count := n\<rparr>) m"

definition duration_from_std :: "duration \<Rightarrow> int option" where
  "duration_from_std d = (if d \<le> (2 ^ 63 - 1) * 1000000 then Some (int d) else None)"

definition prune_old_timeouts :: "datetime \<Rightarrow> duration \<Rightarrow> ack_manager \<Rightarrow> ack_manager" where
  "prune_old_timeouts now older_than m =
     (let cutoff = now - (case duration_from_std older_than of Some d \<Rightarrow> d | None \<Rightarrow> 0)
      in m\<lparr>am_pending_acks := hm_retain
           (\<lambda>_ a. pa_status a \<noteq> AckTimedOut \<or> cutoff < pa_sent_at a) (am_pending_acks m)\<rparr>)"

subsection \<open>The table as a machine\<close>

datatype am_op =
    AmRegister datetime message_id "nat option" message_priority
  | AmDrain "message_id \<Rightarrow> datetime"
  | AmRemove message_id
  | AmRetry datetime message_id
  | AmExtend datetime message_id duration
  | AmSetRetry message_id u32
  | AmPrune datetime duration

fun am_step :: "am_op \<Rightarrow> ack_manager \<Rightarrow> ack_manager" where
  "am_step (AmRegister now mid t p) m = snd (register_pending_ack_with_priority now mid t p m)"
| "am_step (AmDrain now) m = snd (am_drain_timed_out now m)"
| "am_step (AmRemove mid) m = snd (remove_ack mid m)"
| "am_step (AmRetry now mid) m = increment_retry_count now mid m"
| "am_step (AmExtend now mid w) m = snd (extend_while_queued now mid w m)"
| "am_step (AmSetRetry mid n) m = set_retry_count mid n m"
| "am_step (AmPrune now d) m = prune_old_timeouts now d m"

definition am_inv :: "ack_manager \<Rightarrow> bool" where
  "am_inv m \<longleftrightarrow> hm_inv (am_pending_acks m)
     \<and> (\<forall>(mid, p)\<in>set (am_pending_acks m). pa_message_id p = mid)
     \<and> length (am_pending_acks m) \<le> ac_max_pending_acks (am_config m)"


text \<open>The entry a registration leaves behind.\<close>

definition am_fresh_ack ::
  "datetime \<Rightarrow> message_id \<Rightarrow> nat option \<Rightarrow> message_priority \<Rightarrow> ack_manager \<Rightarrow> pending_ack" where
  "am_fresh_ack now mid timeout_ms priority m =
     \<lparr>pa_message_id = mid, pa_sent_at = now,
      pa_timeout_ms = (case timeout_ms of None \<Rightarrow> ac_default_timeout_ms (am_config m) | Some t \<Rightarrow> t),
      pa_status = AckPending, pa_retry_count = 0, pa_priority = priority, pa_extended_ms = 0\<rparr>"

subsection \<open>Lemmas\<close>

lemma am_priority_rank_mono: "am_priority_rank p < am_priority_rank q \<longleftrightarrow> p < q"
  by (cases p; cases q) (simp_all add: less_message_priority_def)

lemma am_priority_rank_le: "am_priority_rank p \<le> am_priority_rank q \<longleftrightarrow> p \<le> q"
  by (cases p; cases q) (simp_all add: less_eq_message_priority_def)

lemma evict_candidate_Some:
  assumes "evict_candidate m = Some (i, a)"
  shows "(i, a) \<in> set (am_pending_acks m)" "pa_status a = AckPending"
    "(j, b) \<in> set (am_pending_acks m) \<Longrightarrow> pa_status b = AckPending \<Longrightarrow>
       pa_priority a < pa_priority b \<or> pa_priority a = pa_priority b \<and> pa_sent_at a \<le> pa_sent_at b"
proof -
  note min = min_on_Some[OF assms[unfolded evict_candidate_def]]
  show "(i, a) \<in> set (am_pending_acks m)" "pa_status a = AckPending" using min by auto
  assume "(j, b) \<in> set (am_pending_acks m)" "pa_status b = AckPending"
  with min have "(am_priority_rank (pa_priority a), pa_sent_at a) \<le> (am_priority_rank (pa_priority b), pa_sent_at b)"
    by fastforce
  then show "pa_priority a < pa_priority b \<or> pa_priority a = pa_priority b \<and> pa_sent_at a \<le> pa_sent_at b"
    by (auto simp: less_eq_prod_def am_priority_rank_mono am_priority_rank_le)
qed

lemma evict_candidate_None:
  "evict_candidate m = None \<longleftrightarrow> (\<forall>(i, a)\<in>set (am_pending_acks m). pa_status a \<noteq> AckPending)"
  by (auto simp: evict_candidate_def filter_empty_conv)

lemma evict_lowest_priority_None:
  "fst (evict_lowest_priority p m) = None \<longleftrightarrow>
     (\<forall>(i, a)\<in>set (am_pending_acks m). pa_status a = AckPending \<longrightarrow> p \<le> pa_priority a)"
proof (cases "evict_candidate m")
  case None
  then have "fst (evict_lowest_priority p m) = None" by (simp add: evict_lowest_priority_def)
  then show ?thesis using None by (auto simp: evict_candidate_None)
next
  case (Some e)
  then show ?thesis
    using evict_candidate_Some[of m "fst e" "snd e"]
    by (force simp: evict_lowest_priority_def am_priority_rank_mono not_less split: prod.splits)
qed

lemma am_update_config [simp]: "am_config (am_update mid f m) = am_config m"
  by (simp add: am_update_def split: option.splits)

lemma hm_insert_pairs:
  "hm_inv m \<Longrightarrow> set (hm_insert k v m) = insert (k, v) {e \<in> set m. fst e \<noteq> k}"
  by (induction m) (auto simp: hm_inv_def rev_image_eqI)

lemma am_inv_update:
  assumes "am_inv m" "\<And>p. pa_message_id (f p) = pa_message_id p"
  shows "am_inv (am_update mid f m)"
proof (cases "map_of (am_pending_acks m) mid")
  case (Some p)
  then have "pa_message_id p = mid" using assms(1) by (auto simp: am_inv_def dest: map_of_SomeD)
  then show ?thesis
    using assms Some by (auto simp: am_update_def am_inv_def hm_insert_pairs hm.len_ins)
qed (use assms in \<open>simp add: am_update_def\<close>)

lemma am_inv_track:
  assumes "am_inv m" "has_capacity_for mid m"
  shows "am_inv (am_track now mid t p m)"
  using assms by (auto simp: am_track_def am_inv_def has_capacity_for_def hm_contains_def hm_insert_pairs hm.len_ins)

lemma am_inv_evict:
  assumes "am_inv m" "evict_lowest_priority p m = (Some info, m')"
  shows "am_inv m' \<and> am_config m' = am_config m
    \<and> length (am_pending_acks m') < ac_max_pending_acks (am_config m)"
proof -
  obtain i a where ia: "evict_candidate m = Some (i, a)" "m' = m\<lparr>am_pending_acks := hm_remove i (am_pending_acks m)\<rparr>"
    using assms(2) by (auto simp: evict_lowest_priority_def split: option.splits if_splits)
  then have "map_of (am_pending_acks m) i = Some a"
    using evict_candidate_Some(1)[OF ia(1)] assms(1) by (simp add: am_inv_def hm_get_eq)
  then show ?thesis
    using assms(1) ia(2) hm.len_pos[of "am_pending_acks m" i a]
    by (auto simp: am_inv_def hm.len_del Suc_le_eq[symmetric] le_diff_conv) (auto simp: hm_remove_def)
qed

lemma am_inv_register:
  assumes "am_inv m"
  shows "am_inv (snd (register_pending_ack_with_priority now mid t p m))"
proof (cases "has_capacity_for mid m")
  case True
  then show ?thesis using assms by (simp add: register_pending_ack_with_priority_def am_inv_track)
next
  case False
  obtain r m' where e: "evict_lowest_priority p m = (r, m')" by fastforce
  show ?thesis
  proof (cases r)
    case None
    then have "m' = m" using e by (auto simp: evict_lowest_priority_def split: option.splits if_splits)
    then show ?thesis using None e False assms by (simp add: register_pending_ack_with_priority_def)
  next
    case (Some info)
    then show ?thesis using am_inv_evict[OF assms, of p info m'] e False
      by (simp add: register_pending_ack_with_priority_def am_inv_track has_capacity_for_def)
  qed
qed

lemma am_mark_fst [simp]: "fst (am_mark now e) = fst e"
  by (simp add: am_mark_def)

lemma am_inv_drain: "am_inv m \<Longrightarrow> am_inv (snd (am_drain_timed_out now m))"
  by (auto simp: am_inv_def am_drain_timed_out_def hm_inv_def comp_def) (auto simp: am_mark_def split: if_splits)

lemma am_inv_step: "am_inv m \<Longrightarrow> am_inv (am_step op m)"
proof (cases op)
  case (AmExtend now mid w)
  then show "am_inv m \<Longrightarrow> ?thesis"
    by (auto simp: extend_while_queued_def Let_def am_inv_update split: option.splits)
next
  case (AmRemove mid)
  then show "am_inv m \<Longrightarrow> ?thesis"
    by (auto simp: remove_ack_def am_inv_def intro: order_trans[OF hm.len_del_le]) (auto simp: hm_remove_def)
next
  case (AmPrune now d)
  then show "am_inv m \<Longrightarrow> ?thesis"
    by (auto simp: prune_old_timeouts_def Let_def am_inv_def intro: order_trans[OF hm_retain_len]) (auto simp: hm_retain_def)
qed (simp_all add: am_inv_register am_inv_drain increment_retry_count_def set_retry_count_def am_inv_update)

lemma am_inv_new: "am_inv (am_with_config config)"
  by (simp add: am_inv_def am_with_config_def)

interpretation amm: machine am_step "\<lambda>_ _. True" am_inv
  by unfold_locales (rule am_inv_step)


lemma am_track_get:
  "map_of (am_pending_acks (am_track now mid t p m)) = (map_of (am_pending_acks m))(mid \<mapsto> am_fresh_ack now mid t p m)"
  by (simp add: am_track_def am_fresh_ack_def)

lemma am_fresh_ack_config: "am_config m' = am_config m \<Longrightarrow> am_fresh_ack now mid t p m' = am_fresh_ack now mid t p m"
  by (cases t) (simp_all add: am_fresh_ack_def)

lemma evict_lowest_priority_Some:
  assumes "hm_inv (am_pending_acks m)" "evict_lowest_priority p m = (Some info, m')"
  obtains a where "map_of (am_pending_acks m) (aei_message_id info) = Some a" "pa_status a = AckPending"
    "pa_priority a = aei_priority info" "aei_priority info < p"
    "\<And>j b. map_of (am_pending_acks m) j = Some b \<Longrightarrow> pa_status b = AckPending \<Longrightarrow>
       pa_priority a < pa_priority b \<or> pa_priority a = pa_priority b \<and> pa_sent_at a \<le> pa_sent_at b"
    "m' = m\<lparr>am_pending_acks := hm_remove (aei_message_id info) (am_pending_acks m)\<rparr>"
proof -
  obtain i a where ia: "evict_candidate m = Some (i, a)" "info = \<lparr>aei_message_id = i, aei_priority = pa_priority a\<rparr>"
    "am_priority_rank (pa_priority a) < am_priority_rank p"
    "m' = m\<lparr>am_pending_acks := hm_remove i (am_pending_acks m)\<rparr>"
    using assms(2) by (auto simp: evict_lowest_priority_def split: option.splits if_splits)
  show thesis
    by (rule that[of a])
       (use ia evict_candidate_Some[OF ia(1)] assms(1) in \<open>auto simp: hm_get_eq am_priority_rank_mono\<close>)
qed

lemma am_mark_get:
  "map_of (map (am_mark now) es) i = map_option (\<lambda>p. snd (am_mark now (i, p))) (map_of es i)"
  by (induction es) (auto simp: am_mark_def)

subsection \<open>Properties\<close>

text \<open>C11. Registering a message that needs an acknowledgment answers on every branch what the
  caller is told: with a free slot (or the id already tracked) the entry is set and nothing
  else changes; at the ceiling exactly one entry gives way, a pending one of strictly lower
  priority than the newcomer, and among the pending ones the least important and then the
  oldest; when there is none, the call is refused and the table is untouched.\<close>

theorem register_outcome:
  fixes ops config
  defines "m \<equiv> fold am_step ops (am_with_config config)"
  shows "case register_pending_ack_with_priority now mid t p m of
      (Inr None, m') \<Rightarrow> has_capacity_for mid m
        \<and> map_of (am_pending_acks m') = (map_of (am_pending_acks m))(mid \<mapsto> am_fresh_ack now mid t p m)
    | (Inr (Some info), m') \<Rightarrow> \<not> has_capacity_for mid m
        \<and> (\<exists>a. map_of (am_pending_acks m) (aei_message_id info) = Some a \<and> pa_status a = AckPending
             \<and> pa_priority a = aei_priority info \<and> aei_priority info < p
             \<and> (\<forall>j b. map_of (am_pending_acks m) j = Some b \<longrightarrow> pa_status b = AckPending \<longrightarrow>
                   pa_priority a < pa_priority b \<or> pa_priority a = pa_priority b \<and> pa_sent_at a \<le> pa_sent_at b))
        \<and> map_of (am_pending_acks m') =
            (map_of (am_pending_acks m))(aei_message_id info := None, mid \<mapsto> am_fresh_ack now mid t p m)
    | (Inl e, m') \<Rightarrow> \<not> has_capacity_for mid m \<and> m' = m \<and> e = AckCapacity (ac_max_pending_acks (am_config m))
        \<and> (\<forall>j b. map_of (am_pending_acks m) j = Some b \<longrightarrow> pa_status b = AckPending \<longrightarrow> p \<le> pa_priority b)"
proof -
  have inv: "hm_inv (am_pending_acks m)"
    using amm.run_inv[OF am_inv_new] unfolding m_def by (simp add: am_inv_def)
  obtain r m' where e: "evict_lowest_priority p m = (r, m')" by fastforce
  show ?thesis
  proof (cases "has_capacity_for mid m")
    case True
    then show ?thesis by (simp add: register_pending_ack_with_priority_def am_track_get)
  next
    case False
    show ?thesis
    proof (cases r)
      case None
      then have "m' = m" using e by (auto simp: evict_lowest_priority_def split: option.splits if_splits)
      then show ?thesis
        using None e False evict_lowest_priority_None[of p m] inv
        by (auto simp: register_pending_ack_with_priority_def hm_get_eq)
    next
      case (Some info)
      obtain a where a: "map_of (am_pending_acks m) (aei_message_id info) = Some a" "pa_status a = AckPending"
        "pa_priority a = aei_priority info" "aei_priority info < p"
        "\<And>j b. map_of (am_pending_acks m) j = Some b \<Longrightarrow> pa_status b = AckPending \<Longrightarrow>
          pa_priority a < pa_priority b \<or> pa_priority a = pa_priority b \<and> pa_sent_at a \<le> pa_sent_at b"
        "m' = m\<lparr>am_pending_acks := hm_remove (aei_message_id info) (am_pending_acks m)\<rparr>"
        using evict_lowest_priority_Some[OF inv] e Some by blast
      have "map_of (am_pending_acks (am_track now mid t p m')) =
          (map_of (am_pending_acks m))(aei_message_id info := None, mid \<mapsto> am_fresh_ack now mid t p m)"
        using a(6) am_fresh_ack_config[of m' m] by (simp add: am_track_get)
      then show ?thesis using e Some False a(1-5)
        by (simp add: register_pending_ack_with_priority_def)
    qed
  qed
qed

theorem register_outcome_witness:
  "let m = fold am_step [AmRegister 1 [1] None Low, AmRegister 2 [2] None Medium]
             (am_with_config \<lparr>ac_default_timeout_ms = 10000, ac_max_pending_acks = 2\<rparr>)
   in fst (register_pending_ack_with_priority 3 [3] None High m)
        = Inr (Some \<lparr>aei_message_id = [1], aei_priority = Low\<rparr>) \<and> \<not> has_capacity_for [3] m"
proof -
  let ?m = "fold am_step [AmRegister 1 [1] None Low, AmRegister 2 [2] None Medium]
             (am_with_config \<lparr>ac_default_timeout_ms = 10000, ac_max_pending_acks = 2\<rparr>)"
  have "fst (register_pending_ack_with_priority 3 [3] None High ?m)
      = Inr (Some \<lparr>aei_message_id = [1], aei_priority = Low\<rparr>)"
    by code_simp
  with register_outcome[where now = 3 and mid = "[3]" and t = None and p = High
      and ops = "[AmRegister 1 [1] None Low, AmRegister 2 [2] None Medium]"
      and config = "\<lparr>ac_default_timeout_ms = 10000, ac_max_pending_acks = 2\<rparr>"]
  show ?thesis by (cases "register_pending_ack_with_priority 3 [3] None High ?m") (simp only: Let_def fst_conv sum.case option.case prod.case, blast)
qed


text \<open>The engine's timeout sweep hands over every entry whose deadline has passed, marks
  exactly those, drops none, and never hands the same attempt over twice: an entry it
  returned is not returned by a second sweep, however late that one runs.\<close>

lemma drain_exactly_once:
  fixes ops config
  defines "m \<equiv> fold am_step ops (am_with_config config)"
  shows "set (fst (am_drain_timed_out now m)) =
      {p\<lparr>pa_status := AckTimedOut\<rparr> | i p. map_of (am_pending_acks m) i = Some p \<and> is_timed_out (now i) p}
    \<and> dom (map_of (am_pending_acks (snd (am_drain_timed_out now m)))) = dom (map_of (am_pending_acks m))
    \<and> pa_message_id ` set (fst (am_drain_timed_out now m))
        \<inter> pa_message_id ` set (fst (am_drain_timed_out now' (snd (am_drain_timed_out now m)))) = {}"
proof -
  have inv: "am_inv m" using amm.run_inv[OF am_inv_new] unfolding m_def by simp
  then have hm: "hm_inv (am_pending_acks m)" by (simp add: am_inv_def)
  have keyed: "pa_message_id p = i" if "(i, p) \<in> set (am_pending_acks m)" for i p
    using inv that by (auto simp: am_inv_def)
  have *: "q = p" if "(i, p) \<in> set (am_pending_acks m)" "(i, q) \<in> set (am_pending_acks m)" for i p q
    using hm that by (metis hm_in_set_get option.inject)
  have "set (fst (am_drain_timed_out now m)) =
      {p\<lparr>pa_status := AckTimedOut\<rparr> | i p. map_of (am_pending_acks m) i = Some p \<and> is_timed_out (now i) p}"
    using hm by (force simp: am_drain_timed_out_def am_mark_def hm_get_eq)
  moreover have "dom (map_of (map (am_mark now) (am_pending_acks m))) = dom (map_of (am_pending_acks m))"
    by (auto simp: am_mark_get)
  moreover have "x \<notin> pa_message_id ` set (fst (am_drain_timed_out now' (snd (am_drain_timed_out now m))))"
    if x: "x \<in> pa_message_id ` set (fst (am_drain_timed_out now m))" for x
  proof
    obtain p where p: "(x, p) \<in> set (am_pending_acks m)" "is_timed_out (now x) p"
      using x keyed by (auto simp: am_drain_timed_out_def am_mark_def)
    assume "x \<in> pa_message_id ` set (fst (am_drain_timed_out now' (snd (am_drain_timed_out now m))))"
    then obtain q where "(x, q) \<in> set (am_pending_acks m)" "is_timed_out (now' x) (snd (am_mark now (x, q)))"
      using keyed by (auto simp: am_drain_timed_out_def am_mark_def split: if_splits)
    then show False using p * by (auto simp: am_mark_def is_timed_out_def split: if_splits)
  qed
  ultimately show ?thesis by (simp add: am_drain_timed_out_def disjoint_iff)
qed

text \<open>Granting a queued frame more time pushes its deadline to one full timeout from now,
  leaves \<open>sent_at\<close> alone, and is bounded: the deadline of one attempt never moves beyond the
  permitted wait plus one timeout.\<close>

lemma extension_bound:
  assumes "extend_while_queued now mid max_wait m = (True, m')"
    and "map_of (am_pending_acks m) mid = Some p"
    and "pa_timeout_ms p + max_wait div 1000000 < 2 ^ 63"
  shows "\<exists>p'. map_of (am_pending_acks m') mid = Some p' \<and> pa_sent_at p' = pa_sent_at p
    \<and> (\<forall>t. is_timed_out t p' \<longleftrightarrow>
          int (pa_timeout_ms p) + max (num_milliseconds (now - pa_sent_at p)) 0 \<le> num_milliseconds (t - pa_sent_at p))
    \<and> pa_timeout_ms p' + pa_extended_ms p' < pa_timeout_ms p + max_wait div 1000000"
proof -
  let ?el = "nat (max (num_milliseconds (now - pa_sent_at p)) 0)"
  let ?p' = "p\<lparr>pa_extended_ms := ?el, pa_status := AckPending\<rparr>"
  have el: "?el < max_wait div 1000000" and m': "map_of (am_pending_acks m') mid = Some ?p'"
    using assms(1,2) by (auto simp: extend_while_queued_def Let_def am_update_def split: if_splits)
  then have "sat_add64 (pa_timeout_ms p) ?el = pa_timeout_ms p + ?el" "pa_timeout_ms p + ?el < 2 ^ 63"
    using assms(3) by (simp_all add: sat_add64_def)
  then have "u64_as_i64 (sat_add64 (pa_timeout_ms p) ?el) = int (pa_timeout_ms p) + int ?el"
    by (simp only: u64_as_i64_small of_nat_add)
  then have "is_timed_out t ?p' \<longleftrightarrow>
      int (pa_timeout_ms p) + max (num_milliseconds (now - pa_sent_at p)) 0 \<le> num_milliseconds (t - pa_sent_at p)" for t
    by (simp add: is_timed_out_def)
  then show ?thesis using m' el by (intro exI[of _ ?p']) simp
qed

lemma extension_bound_witness:
  "let m = snd (register_pending_ack 0 [1] (Some 2) (am_with_config ack_config_default));
       p = am_fresh_ack 0 [1] (Some 2) Medium (am_with_config ack_config_default);
       m' = snd (extend_while_queued 3000000 [1] 9000000 m)
   in \<exists>p'. map_of (am_pending_acks m') [1] = Some p' \<and> pa_sent_at p' = pa_sent_at p
    \<and> pa_timeout_ms p' + pa_extended_ms p' < pa_timeout_ms p + 9000000 div 1000000"
proof -
  let ?m = "snd (register_pending_ack 0 [1] (Some 2) (am_with_config ack_config_default))"
  let ?p = "am_fresh_ack 0 [1] (Some 2) Medium (am_with_config ack_config_default)"
  have e: "extend_while_queued 3000000 [1] 9000000 ?m = (True, snd (extend_while_queued 3000000 [1] 9000000 ?m))"
    "map_of (am_pending_acks ?m) [1] = Some ?p" "pa_timeout_ms ?p + 9000000 div 1000000 < 2 ^ 63"
    by code_simp+
  show ?thesis unfolding Let_def using extension_bound[OF e] by blast
qed

text \<open>The deadline of a pending entry is the millisecond the timeout and its extension add up
  to, as long as the sum stays below \<open>2^63\<close>; from \<open>2^63\<close> on the cast to \<open>i64\<close> makes it negative
  and the entry has timed out at the instant it is sent, so \<open>u64::MAX\<close> does not mean never.\<close>

lemma deadline_semantics:
  assumes "pa_status p = AckPending" "pa_timeout_ms p \<le> u64_max" "pa_extended_ms p \<le> u64_max"
  shows "(if sat_add64 (pa_timeout_ms p) (pa_extended_ms p) < 2 ^ 63
      then is_timed_out now p \<longleftrightarrow>
             int (pa_timeout_ms p + pa_extended_ms p) \<le> num_milliseconds (now - pa_sent_at p)
      else is_timed_out (pa_sent_at p) p)"
proof (cases "sat_add64 (pa_timeout_ms p) (pa_extended_ms p) < 2 ^ 63")
  case True
  then have "sat_add64 (pa_timeout_ms p) (pa_extended_ms p) = pa_timeout_ms p + pa_extended_ms p"
    by (simp add: sat_add64_def min_def split: if_splits)
  then show ?thesis using True assms(1) u64_as_i64_small[OF True] by (simp add: is_timed_out_def)
next
  case False
  then have "u64_as_i64 (sat_add64 (pa_timeout_ms p) (pa_extended_ms p)) < 0"
    by (intro u64_as_i64_big sat_add64_bound) simp
  then show ?thesis using False assms(1) by (simp add: is_timed_out_def)
qed

lemma deadline_semantics_witness:
  "let p = am_fresh_ack 7 [1] (Some u64_max) Medium (am_with_config ack_config_default)
   in is_timed_out (pa_sent_at p) p"
proof -
  let ?p = "am_fresh_ack 7 [1] (Some u64_max) Medium (am_with_config ack_config_default)"
  have "pa_status ?p = AckPending" "pa_timeout_ms ?p \<le> u64_max" "pa_extended_ms ?p \<le> u64_max"
    "\<not> sat_add64 (pa_timeout_ms ?p) (pa_extended_ms ?p) < 2 ^ 63"
    by (simp_all add: am_fresh_ack_def sat_add64_def)
  then show ?thesis using deadline_semantics[of ?p] by (simp add: Let_def)
qed

end
