(* ===== verification/Std_Heap.thy ===== *)
theory Std_Heap
  imports Prelude
begin

text \<open>
  \<open>std::collections::BinaryHeap\<close> as the retry queue uses it: a bag whose \<open>pop\<close> takes a greatest
  element of the elements' own \<open>Ord\<close>.  The bag is a list whose order stands for the layout of
  the heap's array, which decides which of several equal elements leaves first and which the
  standard library leaves open.  The interface \<open>ord_cmp\<close> is the contract of \<open>Ord::cmp\<close>.
\<close>

datatype ordering = OLess | OEqual | OGreater

definition cmp_lin :: "'a::linorder \<Rightarrow> 'a \<Rightarrow> ordering" where
  "cmp_lin a b = (if a < b then OLess else if b < a then OGreater else OEqual)"

fun ord_then :: "ordering \<Rightarrow> ordering \<Rightarrow> ordering" where
  "ord_then OEqual r = r"
| "ord_then OLess r = OLess"
| "ord_then OGreater r = OGreater"

fun heap_peek :: "('a \<Rightarrow> 'a \<Rightarrow> ordering) \<Rightarrow> 'a list \<Rightarrow> 'a option" where
  "heap_peek cmp [] = None"
| "heap_peek cmp (x # xs) = (case heap_peek cmp xs of
       None \<Rightarrow> Some x
     | Some y \<Rightarrow> if cmp x y = OLess then Some y else Some x)"

definition heap_pop :: "('a \<Rightarrow> 'a \<Rightarrow> ordering) \<Rightarrow> 'a list \<Rightarrow> ('a \<times> 'a list) option" where
  "heap_pop cmp xs = map_option (\<lambda>y. (y, remove1 y xs)) (heap_peek cmp xs)"

lemma heap_peek_in: "heap_peek cmp xs = Some y \<Longrightarrow> y \<in> set xs"
  by (induction xs arbitrary: y) (auto split: option.splits if_splits)

lemma heap_peek_None [simp]: "heap_peek cmp xs = None \<longleftrightarrow> xs = []"
  by (cases xs) (auto split: option.splits)

lemma heap_pop_length: "heap_pop cmp xs = Some (y, ys) \<Longrightarrow> length ys < length xs"
  by (auto simp: heap_pop_def length_remove1 dest!: heap_peek_in) (use length_pos_if_in_set in fastforce)

function heap_drain :: "('a \<Rightarrow> 'a \<Rightarrow> ordering) \<Rightarrow> 'a list \<Rightarrow> 'a list" where
  "heap_drain cmp xs = (case heap_pop cmp xs of
       None \<Rightarrow> []
     | Some (y, ys) \<Rightarrow> y # heap_drain cmp ys)"
  by pat_completeness auto
termination
  by (relation "measure (\<lambda>(cmp, xs). length xs)") (auto dest: heap_pop_length)

declare heap_drain.simps [simp del]

lemma heap_pop_mset: "heap_pop cmp xs = Some (y, ys) \<Longrightarrow> mset xs = add_mset y (mset ys)"
  by (auto simp: heap_pop_def dest: heap_peek_in)

lemma heap_drain_mset: "mset (heap_drain cmp xs) = mset xs"
proof (induction cmp xs rule: heap_drain.induct)
  case (1 cmp xs)
  then show ?case
    by (subst heap_drain.simps) (auto split: option.splits simp: heap_pop_mset, simp add: heap_pop_def)
qed

locale ord_cmp =
  fixes cmp :: "'a \<Rightarrow> 'a \<Rightarrow> ordering"
  assumes cmp_swap: "cmp x y = OGreater \<longleftrightarrow> cmp y x = OLess"
    and cmp_trans: "cmp x y \<noteq> OGreater \<Longrightarrow> cmp y z \<noteq> OGreater \<Longrightarrow> cmp x z \<noteq> OGreater"
begin

lemma cmp_self: "cmp x x \<noteq> OGreater"
  using cmp_swap[of x x] by (cases "cmp x x") auto

lemma peek_greatest: "heap_peek cmp xs = Some y \<Longrightarrow> x \<in> set xs \<Longrightarrow> cmp x y \<noteq> OGreater"
proof (induction xs arbitrary: y)
  case (Cons z zs)
  show ?case
  proof (cases "heap_peek cmp zs")
    case None
    then show ?thesis using Cons.prems by (auto simp: cmp_self)
  next
    case (Some w)
    note IH = Cons.IH[OF Some]
    show ?thesis
    proof (cases "cmp z w = OLess")
      case True
      then show ?thesis using Cons.prems Some IH by auto
    next
      case False
      then have "cmp w z \<noteq> OGreater" using cmp_swap by blast
      then show ?thesis using False Cons.prems Some IH cmp_trans cmp_self by auto
    qed
  qed
qed simp

lemma pop_greatest: "heap_pop cmp xs = Some (y, ys) \<Longrightarrow> x \<in> set xs \<Longrightarrow> cmp x y \<noteq> OGreater"
  by (auto simp: heap_pop_def dest: peek_greatest)

lemma drain_sorted: "sorted_wrt (\<lambda>a b. cmp b a \<noteq> OGreater) (heap_drain cmp xs)"
proof (induction "length xs" arbitrary: xs rule: less_induct)
  case less
  show ?case
  proof (cases "heap_pop cmp xs")
    case None
    then show ?thesis by (subst heap_drain.simps) simp
  next
    case (Some r)
    then obtain y ys where r: "heap_pop cmp xs = Some (y, ys)" by (cases r) auto
    have "set (heap_drain cmp ys) \<subseteq> set xs"
      using heap_drain_mset[of cmp ys] heap_pop_mset[OF r] by (metis mset_eq_setD set_mset_mset subset_insertI set_mset_add_mset_insert)
    then have "\<forall>x\<in>set (heap_drain cmp ys). cmp x y \<noteq> OGreater" using pop_greatest[OF r] by blast
    then show ?thesis using less[OF heap_pop_length[OF r]] r by (subst heap_drain.simps) simp
  qed
qed

end

end
