(* ===== verification/Retry_Queue.thy ===== *)
theory Retry_Queue
  imports Core_Types Std_Heap
begin

text \<open>
  The retry queue (\<open>offline-protocol-reliability/src/retry_queue.rs\<close>): messages waiting for
  their next attempt, in a heap ordered by time and priority, with an index of their ids.

  Two things are parameters: \<open>idstr\<close>, the text of a message id (\<open>Uuid::to_string\<close>), and the
  floating-point operations of \<open>delay_for_retry\<close>.
\<close>

subsection \<open>State and operations\<close>

record 'f32 retry_config =
  rc_max_retries :: u32
  rc_initial_delay_ms :: nat
  rc_max_delay_ms :: nat
  rc_backoff_multiplier :: 'f32
  rc_outbox_max_lifetime_ms :: nat
  rc_pending_message_max_lifetime_ms :: nat
  rc_edge_driven_unreachable_dm :: bool

record ('f32, 'f64) float_ops =
  fl_from_f32 :: "'f32 \<Rightarrow> 'f64"
  fl_powi :: "'f64 \<Rightarrow> nat \<Rightarrow> 'f64"
  fl_of_u64 :: "nat \<Rightarrow> 'f64"
  fl_mul :: "'f64 \<Rightarrow> 'f64 \<Rightarrow> 'f64"
  fl_min :: "'f64 \<Rightarrow> 'f64 \<Rightarrow> 'f64"
  fl_to_u64 :: "'f64 \<Rightarrow> nat"

definition delay_for_retry :: "('f32, 'f64) float_ops \<Rightarrow> 'f32 retry_config \<Rightarrow> nat \<Rightarrow> nat" where
  "delay_for_retry F c retry_count =
     (let exponent = min retry_count (2 ^ 31 - 1);
          factor = fl_powi F (fl_from_f32 F (rc_backoff_multiplier c)) exponent;
          delay_ms = fl_mul F (fl_of_u64 F (rc_initial_delay_ms c)) factor
      in fl_to_u64 F (fl_min F delay_ms (fl_of_u64 F (rc_max_delay_ms c))))"

record retry_entry =
  re_message :: message
  re_retry_count :: nat
  re_added_at :: datetime
  re_retry_at :: datetime

definition re_is_ready :: "datetime \<Rightarrow> retry_entry \<Rightarrow> bool" where
  "re_is_ready now e = (re_retry_at e \<le> now)"

definition re_is_expired :: "datetime \<Rightarrow> nat \<Rightarrow> retry_entry \<Rightarrow> bool" where
  "re_is_expired now max_lifetime_ms e =
     (u64_as_i64 max_lifetime_ms \<le> num_milliseconds (now - re_added_at e))"

definition retry_cmp :: "retry_entry \<Rightarrow> retry_entry \<Rightarrow> ordering" where
  "retry_cmp a b = ord_then (cmp_lin (re_retry_at b) (re_retry_at a))
     (cmp_lin (msg_priority (re_message a)) (msg_priority (re_message b)))"

record 'f32 retry_queue =
  rq_config :: "'f32 retry_config"
  rq_queue :: "retry_entry list"
  rq_index :: "(string, unit) hashmap"

definition rq_with_config :: "'f32 retry_config \<Rightarrow> 'f32 retry_queue" where
  "rq_with_config config = \<lparr>rq_config = config, rq_queue = [], rq_index = []\<rparr>"

definition re_id :: "(message_id \<Rightarrow> string) \<Rightarrow> retry_entry \<Rightarrow> string" where
  "re_id idstr e = idstr (msg_id (re_message e))"

text \<open>The clock is read for \<open>retry_at\<close> and again for \<open>added_at\<close>.\<close>

definition rq_enqueue_with_delay ::
  "(message_id \<Rightarrow> string) \<Rightarrow> datetime \<Rightarrow> datetime \<Rightarrow> message \<Rightarrow> nat \<Rightarrow> nat \<Rightarrow> 'f32 retry_queue
   \<Rightarrow> datetime option \<times> 'f32 retry_queue" where
  "rq_enqueue_with_delay idstr now now' message retry_count delay_ms q =
     (if hm_contains (idstr (msg_id message)) (rq_index q) then (None, q)
      else let retry_at = now + int (min delay_ms (2 ^ 63 - 1)) * 1000000;
               entry = \<lparr>re_message = message, re_retry_count = retry_count,
                        re_added_at = now', re_retry_at = retry_at\<rparr>
           in (Some retry_at,
               q\<lparr>rq_index := hm_insert (idstr (msg_id message)) () (rq_index q),
                 rq_queue := rq_queue q @ [entry]\<rparr>))"

definition rq_enqueue ::
  "('f32, 'f64) float_ops \<Rightarrow> (message_id \<Rightarrow> string) \<Rightarrow> datetime \<Rightarrow> datetime \<Rightarrow> message \<Rightarrow> nat
   \<Rightarrow> 'f32 retry_queue \<Rightarrow> datetime option \<times> 'f32 retry_queue" where
  "rq_enqueue F idstr now now' message retry_count q =
     rq_enqueue_with_delay idstr now now' message retry_count (delay_for_retry F (rq_config q) retry_count) q"

definition rq_dequeue_ready ::
  "(message_id \<Rightarrow> string) \<Rightarrow> datetime \<Rightarrow> 'f32 retry_queue \<Rightarrow> retry_entry option \<times> 'f32 retry_queue" where
  "rq_dequeue_ready idstr now q =
     (if (case heap_peek retry_cmp (rq_queue q) of Some e \<Rightarrow> re_is_ready now e | None \<Rightarrow> False)
      then (case heap_pop retry_cmp (rq_queue q) of
              Some (entry, rest) \<Rightarrow>
                (Some entry, q\<lparr>rq_queue := rest, rq_index := hm_remove (re_id idstr entry) (rq_index q)\<rparr>)
            | None \<Rightarrow> (None, q))
      else (None, q))"

definition rq_peek_ready :: "(message_id \<Rightarrow> datetime) \<Rightarrow> 'f32 retry_queue \<Rightarrow> retry_entry list" where
  "rq_peek_ready now q = filter (\<lambda>e. re_is_ready (now (msg_id (re_message e))) e) (rq_queue q)"

definition rq_remove :: "(message_id \<Rightarrow> string) \<Rightarrow> string \<Rightarrow> 'f32 retry_queue \<Rightarrow> bool \<times> 'f32 retry_queue" where
  "rq_remove idstr mid q =
     (if hm_contains mid (rq_index q)
      then (True, q\<lparr>rq_index := hm_remove mid (rq_index q),
                    rq_queue := filter (\<lambda>e. re_id idstr e \<noteq> mid) (rq_queue q)\<rparr>)
      else (False, q))"

definition rq_cleanup_expired ::
  "(message_id \<Rightarrow> string) \<Rightarrow> (message_id \<Rightarrow> datetime) \<Rightarrow> 'f32 retry_queue \<Rightarrow> nat \<times> 'f32 retry_queue" where
  "rq_cleanup_expired idstr now q =
     (let max_lifetime = rc_outbox_max_lifetime_ms (rq_config q);
          before_count = length (rq_queue q);
          new_queue = filter (\<lambda>e. \<not> re_is_expired (now (msg_id (re_message e))) max_lifetime e) (rq_queue q);
          index = fold (\<lambda>e ix. hm_insert (re_id idstr e) () ix) new_queue []
      in (before_count - length new_queue, q\<lparr>rq_queue := new_queue, rq_index := index\<rparr>))"

definition rq_contains :: "string \<Rightarrow> 'f32 retry_queue \<Rightarrow> bool" where
  "rq_contains mid q = hm_contains mid (rq_index q)"

definition rq_drain_all :: "'f32 retry_queue \<Rightarrow> retry_entry list \<times> 'f32 retry_queue" where
  "rq_drain_all q = (heap_drain retry_cmp (rq_queue q), q\<lparr>rq_index := [], rq_queue := []\<rparr>)"

definition rq_time_until_next_retry :: "datetime \<Rightarrow> 'f32 retry_queue \<Rightarrow> int option" where
  "rq_time_until_next_retry now q =
     map_option (\<lambda>e. if now < re_retry_at e then re_retry_at e - now else 0)
       (heap_peek retry_cmp (rq_queue q))"

record retry_queue_stats =
  rqs_total_count :: nat
  rqs_ready_count :: nat
  rqs_critical_priority_count :: nat
  rqs_high_priority_count :: nat
  rqs_medium_priority_count :: nat
  rqs_low_priority_count :: nat

definition rq_count_by_priority :: "'f32 retry_queue \<Rightarrow> message_priority \<Rightarrow> nat" where
  "rq_count_by_priority q = fold (\<lambda>e counts. counts(msg_priority (re_message e) :=
       counts (msg_priority (re_message e)) + 1)) (rq_queue q) (\<lambda>_. 0)"

definition rq_stats :: "(message_id \<Rightarrow> datetime) \<Rightarrow> 'f32 retry_queue \<Rightarrow> retry_queue_stats" where
  "rq_stats now q = (let counts = rq_count_by_priority q in
     \<lparr>rqs_total_count = length (rq_queue q),
      rqs_ready_count = length (rq_peek_ready now q),
      rqs_critical_priority_count = counts Critical,
      rqs_high_priority_count = counts High,
      rqs_medium_priority_count = counts Medium,
      rqs_low_priority_count = counts Low\<rparr>)"

subsection \<open>The queue as a machine\<close>

datatype rq_op =
    RqEnqueue datetime datetime message nat nat
  | RqDequeue datetime
  | RqRemove string
  | RqCleanup "message_id \<Rightarrow> datetime"
  | RqDrain

fun rq_step :: "(message_id \<Rightarrow> string) \<Rightarrow> rq_op \<Rightarrow> 'f32 retry_queue \<Rightarrow> 'f32 retry_queue" where
  "rq_step idstr (RqEnqueue now now' m n d) q = snd (rq_enqueue_with_delay idstr now now' m n d q)"
| "rq_step idstr (RqDequeue now) q = snd (rq_dequeue_ready idstr now q)"
| "rq_step idstr (RqRemove i) q = snd (rq_remove idstr i q)"
| "rq_step idstr (RqCleanup now) q = snd (rq_cleanup_expired idstr now q)"
| "rq_step idstr RqDrain q = snd (rq_drain_all q)"

text \<open>The index holds exactly the ids in the heap, and the heap each id once.\<close>

definition rq_inv :: "(message_id \<Rightarrow> string) \<Rightarrow> 'f32 retry_queue \<Rightarrow> bool" where
  "rq_inv idstr q \<longleftrightarrow> hm_inv (rq_index q) \<and> distinct (map (re_id idstr) (rq_queue q))
     \<and> dom (map_of (rq_index q)) = re_id idstr ` set (rq_queue q)"


text \<open>A queue of three messages, for the concrete instances below.\<close>

definition rq_example :: "unit retry_queue" where
  "rq_example = (let m = message_from_parts [1] ''a'' ''b'' ''app'' ''hi'' 0 in
     fold (rq_step (map (char_of \<circ> unat)))
       [RqEnqueue 0 0 m 1 5, RqEnqueue 0 0 (m\<lparr>msg_id := [2], msg_priority := High\<rparr>) 1 5,
        RqEnqueue 0 0 (m\<lparr>msg_id := [3]\<rparr>) 1 2]
       (rq_with_config \<lparr>rc_max_retries = 3, rc_initial_delay_ms = 1, rc_max_delay_ms = 9,
          rc_backoff_multiplier = (), rc_outbox_max_lifetime_ms = 100,
          rc_pending_message_max_lifetime_ms = 100, rc_edge_driven_unreachable_dm = False\<rparr>))"

subsection \<open>Lemmas\<close>

lemma ord_then_greater: "ord_then r s = OGreater \<longleftrightarrow> r = OGreater \<or> r = OEqual \<and> s = OGreater"
  by (cases r) auto

lemma ord_then_less: "ord_then r s = OLess \<longleftrightarrow> r = OLess \<or> r = OEqual \<and> s = OLess"
  by (cases r) auto

lemma cmp_lin_simps [simp]:
  "cmp_lin a b = OLess \<longleftrightarrow> a < b" "cmp_lin a b = OGreater \<longleftrightarrow> b < a" "cmp_lin a b = OEqual \<longleftrightarrow> a = b"
  by (auto simp: cmp_lin_def)

lemma retry_cmp_not_greater:
  "retry_cmp a b \<noteq> OGreater \<longleftrightarrow> re_retry_at b < re_retry_at a
     \<or> re_retry_at b = re_retry_at a \<and> msg_priority (re_message a) \<le> msg_priority (re_message b)"
  by (auto simp: retry_cmp_def ord_then_greater)

interpretation rc: ord_cmp retry_cmp
proof unfold_locales
  fix x y :: retry_entry
  show "retry_cmp x y = OGreater \<longleftrightarrow> retry_cmp y x = OLess"
    by (auto simp: retry_cmp_def ord_then_greater ord_then_less)
next
  fix x y z :: retry_entry
  assume "retry_cmp x y \<noteq> OGreater" "retry_cmp y z \<noteq> OGreater"
  then show "retry_cmp x z \<noteq> OGreater" unfolding retry_cmp_not_greater by auto
qed

lemma rq_inv_enqueue: "rq_inv idstr q \<Longrightarrow> rq_inv idstr (snd (rq_enqueue_with_delay idstr now now' m n d q))"
  by (auto simp: rq_inv_def rq_enqueue_with_delay_def Let_def hm_contains_def re_id_def[abs_def] domIff)

lemma rq_dequeue_ready_cases:
  obtains (none) "rq_dequeue_ready idstr now q = (None, q)"
      "\<And>e. heap_peek retry_cmp (rq_queue q) = Some e \<Longrightarrow> \<not> re_is_ready now e"
  | (some) e rest where "heap_peek retry_cmp (rq_queue q) = Some e" "re_is_ready now e"
      "heap_pop retry_cmp (rq_queue q) = Some (e, rest)" "rest = remove1 e (rq_queue q)"
      "rq_dequeue_ready idstr now q =
         (Some e, q\<lparr>rq_queue := rest, rq_index := hm_remove (re_id idstr e) (rq_index q)\<rparr>)"
  by (cases "heap_peek retry_cmp (rq_queue q)") (auto simp: rq_dequeue_ready_def heap_pop_def split: if_splits)

lemma rq_inv_dequeue: "rq_inv idstr q \<Longrightarrow> rq_inv idstr (snd (rq_dequeue_ready idstr now q))"
proof (cases rule: rq_dequeue_ready_cases[of idstr now q])
  case (some e rest)
  assume inv: "rq_inv idstr q"
  obtain xs ys where split: "rq_queue q = xs @ e # ys" "e \<notin> set xs"
    using split_list_first[OF heap_peek_in[OF some(1)]] by blast
  then have "rest = xs @ ys" using some(4) by (simp add: remove1_append)
  then show ?thesis using inv split some(5) by (auto simp: rq_inv_def) (metis image_eqI)+
qed simp

lemma rq_inv_remove: "rq_inv idstr q \<Longrightarrow> rq_inv idstr (snd (rq_remove idstr i q))"
  by (auto simp: rq_inv_def rq_remove_def distinct_map_filter)

lemma index_of_queue:
  "hm_inv ix \<Longrightarrow> hm_inv (fold (\<lambda>e ix. hm_insert (re_id idstr e) () ix) es ix)
     \<and> dom (map_of (fold (\<lambda>e ix. hm_insert (re_id idstr e) () ix) es ix)) = dom (map_of ix) \<union> re_id idstr ` set es"
  by (induction es arbitrary: ix) auto

lemma rq_inv_cleanup: "rq_inv idstr q \<Longrightarrow> rq_inv idstr (snd (rq_cleanup_expired idstr now q))"
  using index_of_queue[of "[]"] by (simp add: rq_inv_def rq_cleanup_expired_def Let_def distinct_map_filter)

lemma rq_inv_step: "rq_inv idstr q \<Longrightarrow> rq_inv idstr (rq_step idstr op q)"
  by (cases op) (simp_all add: rq_inv_enqueue rq_inv_dequeue rq_inv_remove rq_inv_cleanup,
                 simp add: rq_drain_all_def rq_inv_def)

lemma rq_inv_new: "rq_inv idstr (rq_with_config config)"
  by (simp add: rq_inv_def rq_with_config_def)

interpretation rqm: machine "rq_step idstr" "\<lambda>_ _. True" "rq_inv idstr" for idstr
  by unfold_locales (rule rq_inv_step)

subsection \<open>Properties\<close>

text \<open>Through any sequence of operations the retry queue schedules a message at most once:
  its heap holds each message id once and its index exactly the ids of the heap.\<close>

lemma rq_run_lockstep: "rq_inv idstr (fold (rq_step idstr) ops (rq_with_config config))"
  by (rule rqm.run_inv[OF rq_inv_new]) simp

text \<open>C8. A message is taken from the queue exactly when some message is due; the one taken is due,
  has waited longest past its time, is the most important among those due at the same time, and
  is the only one to leave.\<close>

theorem rq_dequeue_earliest:
  "case rq_dequeue_ready idstr now q of
     (None, q') \<Rightarrow> q' = q \<and> (\<forall>e\<in>set (rq_queue q). \<not> re_is_ready now e)
   | (Some e, q') \<Rightarrow> re_is_ready now e \<and> mset (rq_queue q) = add_mset e (mset (rq_queue q'))
       \<and> (\<forall>x\<in>set (rq_queue q). re_retry_at e < re_retry_at x
            \<or> re_retry_at e = re_retry_at x \<and> msg_priority (re_message x) \<le> msg_priority (re_message e))"
proof (cases rule: rq_dequeue_ready_cases[of idstr now q])
  case none
  have "\<not> re_is_ready now x" if x: "x \<in> set (rq_queue q)" for x
  proof -
    obtain e where e: "heap_peek retry_cmp (rq_queue q) = Some e"
      using x by (cases "heap_peek retry_cmp (rq_queue q)") auto
    then show ?thesis
      using none(2)[OF e] rc.peek_greatest[OF e x] unfolding retry_cmp_not_greater by (auto simp: re_is_ready_def)
  qed
  then show ?thesis using none(1) by simp
next
  case (some e rest)
  then show ?thesis
    using rc.peek_greatest[OF some(1)] heap_pop_mset[OF some(3)] by (simp add: retry_cmp_not_greater)
qed

theorem rq_dequeue_earliest_witness:
  "length (rq_queue rq_example) = 3 \<and> list_ex (re_is_ready 1000000) (rq_queue rq_example) = False"
proof -
  have "rq_dequeue_ready (map (char_of \<circ> unat)) 1000000 rq_example = (None, rq_example)" by code_simp
  then have "\<forall>e\<in>set (rq_queue rq_example). \<not> re_is_ready 1000000 e"
    using rq_dequeue_earliest[where idstr = "map (char_of \<circ> unat)" and now = 1000000 and q = rq_example] by simp
  moreover have "length (rq_queue rq_example) = 3" by code_simp
  ultimately show ?thesis by (simp add: list_ex_iff)
qed

text \<open>A flush of the queue returns every scheduled message once, earliest first and the most
  important first among those scheduled for the same time, and leaves the queue empty.\<close>

lemma rq_drain_all_ordered:
  "mset (fst (rq_drain_all q)) = mset (rq_queue q)
   \<and> sorted_wrt (\<lambda>a b. re_retry_at a < re_retry_at b
        \<or> re_retry_at a = re_retry_at b \<and> msg_priority (re_message b) \<le> msg_priority (re_message a))
       (fst (rq_drain_all q))
   \<and> rq_queue (snd (rq_drain_all q)) = [] \<and> rq_index (snd (rq_drain_all q)) = []"
  using rc.drain_sorted[of "rq_queue q"]
  by (simp add: rq_drain_all_def heap_drain_mset retry_cmp_not_greater)

end
