(* ===== verification/Wire.thy ===== *)
theory Wire
  imports Core_Types "HOL-Library.Char_ord" "HOL-Library.List_Lexorder"
begin

text \<open>
  The wire encodings of a message: the binary codec (\<open>offline-protocol-core/src/wire.rs\<close> and
  \<open>Message::to_wire_v1_bytes\<close>, \<open>from_wire_v1_bytes\<close>) and the entry points the transports share
  (\<open>offline-protocol-transport/src/common.rs\<close>).

  The encodings of third parties are parameters, gathered in \<open>wire_deps\<close>: base64, postcard for
  the fixed-layout record, and serde's JSON for the message and its optional parts.  What the
  code relies on of them is \<open>wire_laws\<close>: a decoder inverts its encoder, and a JSON document
  does not start with the magic byte.
\<close>

subsection \<open>The fixed-layout record\<close>

abbreviation WIRE_V1_MAGIC :: u8 where
  "WIRE_V1_MAGIC \<equiv> 0xF5"

abbreviation EXT_TAG_B64_TAIL :: u16 where
  "EXT_TAG_B64_TAIL \<equiv> 1"

abbreviation EXT_TAG_REPLY_CONTEXT :: u16 where
  "EXT_TAG_REPLY_CONTEXT \<equiv> 2"

abbreviation B64_TAIL_MIN_LEN :: nat where
  "B64_TAIL_MIN_LEN \<equiv> 64"

record wire_message_v1 =
  wm_id :: bytes
  wm_sender :: string
  wm_recipient :: string
  wm_app_id :: string
  wm_priority :: u8
  wm_ttl :: u8
  wm_hop_count :: u8
  wm_timestamp :: i64
  wm_lamport_clock :: u64
  wm_content_type :: u8
  wm_content :: string
  wm_binary_content :: "bytes option"
  wm_media_metadata_json :: "bytes option"
  wm_metadata :: "(string \<times> string) list"
  wm_requires_ack :: bool
  wm_reply_to_msg :: "bytes option"
  wm_forwarded_from_json :: "bytes option"
  wm_ext :: "(u16 \<times> bytes) list"

record wire_deps =
  b64_encode :: "bytes \<Rightarrow> string"
  b64_decode :: "string \<Rightarrow> bytes option"
  postcard_enc :: "wire_message_v1 \<Rightarrow> bytes option"
  postcard_dec :: "bytes \<Rightarrow> wire_message_v1 option"
  json_media_enc :: "media_metadata \<Rightarrow> bytes option"
  json_media_dec :: "bytes \<Rightarrow> media_metadata option"
  json_forward_enc :: "forward_info \<Rightarrow> bytes option"
  json_forward_dec :: "bytes \<Rightarrow> forward_info option"
  json_reply_enc :: "reply_context \<Rightarrow> bytes option"
  json_reply_dec :: "bytes \<Rightarrow> reply_context option"
  json_message_enc :: "message \<Rightarrow> bytes option"
  json_message_dec :: "bytes \<Rightarrow> message option"

fun priority_to_u8 :: "message_priority \<Rightarrow> u8" where
  "priority_to_u8 Low = 0"
| "priority_to_u8 Medium = 1"
| "priority_to_u8 High = 2"
| "priority_to_u8 Critical = 3"

definition priority_from_u8 :: "u8 \<Rightarrow> message_priority" where
  "priority_from_u8 v =
     (if v = 0 then Low else if v = 1 then Medium else if v = 2 then High
      else if v = 3 then Critical else Medium)"

fun content_type_to_u8 :: "content_type \<Rightarrow> u8" where
  "content_type_to_u8 Text = 0"
| "content_type_to_u8 Image = 1"
| "content_type_to_u8 Video = 2"
| "content_type_to_u8 Audio = 3"
| "content_type_to_u8 VoiceNote = 4"
| "content_type_to_u8 VideoNote = 5"
| "content_type_to_u8 File = 6"
| "content_type_to_u8 FileChunk = 7"
| "content_type_to_u8 Poll = 8"

definition content_type_from_u8 :: "u8 \<Rightarrow> content_type" where
  "content_type_from_u8 v =
     (if v = 0 then Text else if v = 1 then Image else if v = 2 then Video
      else if v = 3 then Audio else if v = 4 then VoiceNote else if v = 5 then VideoNote
      else if v = 6 then File else if v = 7 then FileChunk else if v = 8 then Poll else File)"

subsection \<open>Splitting off a base64 tail\<close>

definition is_b64 :: "char \<Rightarrow> bool" where
  "is_b64 c = (let n = of_char c :: nat in
     (48 \<le> n \<and> n \<le> 57) \<or> (65 \<le> n \<and> n \<le> 90) \<or> (97 \<le> n \<and> n \<le> 122)
     \<or> c = CHR ''+'' \<or> c = CHR ''/'')"

text \<open>The index where the aligned tail starts: at most two signs of padding are skipped from the
  end, then the run of base64 characters, then the remainder modulo four is given back.\<close>

definition b64_tail_start :: "string \<Rightarrow> nat" where
  "b64_tail_start content =
     (let pad = length (takeWhile (\<lambda>c. c = CHR ''='') (take 2 (rev content)));
          run_end = length content - pad;
          start = run_end - length (takeWhile is_b64 (rev (take run_end content)))
      in start + (length content - start) mod 4)"

definition split_b64_tail :: "wire_deps \<Rightarrow> string \<Rightarrow> (string \<times> bytes) option" where
  "split_b64_tail W content =
     (if length content < B64_TAIL_MIN_LEN then None
      else let start = b64_tail_start content; tail = drop start content in
        if length tail < B64_TAIL_MIN_LEN then None
        else (case b64_decode W tail of
                None \<Rightarrow> None
              | Some raw \<Rightarrow> if b64_encode W raw \<noteq> tail then None else Some (take start content, raw)))"

subsection \<open>Encoding and decoding\<close>

definition wire_encode :: "wire_deps \<Rightarrow> wire_message_v1 \<Rightarrow> core_error + bytes" where
  "wire_encode W w = res_bind (ok_or (SerializationError ''wire v1 encode'') (postcard_enc W w))
     (\<lambda>body. Inr (WIRE_V1_MAGIC # body))"

fun wire_decode :: "wire_deps \<Rightarrow> bytes \<Rightarrow> core_error + wire_message_v1" where
  "wire_decode W (b # body) =
     (if b = WIRE_V1_MAGIC then ok_or (DeserializationError ''wire v1 decode'') (postcard_dec W body)
      else Inl (DeserializationError ''not a wire v1 frame: unexpected leading byte''))"
| "wire_decode W [] = Inl (DeserializationError ''not a wire v1 frame: empty input'')"

fun json_opt :: "core_error \<Rightarrow> ('a \<Rightarrow> 'b option) \<Rightarrow> 'a option \<Rightarrow> core_error + 'b option" where
  "json_opt e f None = Inr None"
| "json_opt e f (Some a) = res_bind (ok_or e (f a)) (\<lambda>b. Inr (Some b))"

definition content_and_ext :: "wire_deps \<Rightarrow> string \<Rightarrow> string \<times> (u16 \<times> bytes) list" where
  "content_and_ext W content = (case split_b64_tail W content of
       Some (head, raw) \<Rightarrow> (head, [(EXT_TAG_B64_TAIL, raw)])
     | None \<Rightarrow> (content, []))"

definition to_wire_dto :: "wire_deps \<Rightarrow> message \<Rightarrow> core_error + wire_message_v1" where
  "to_wire_dto W m =
     res_bind (json_opt (SerializationError ''media_metadata'') (json_media_enc W) (msg_media_metadata m))
       (\<lambda>media. res_bind (json_opt (SerializationError ''forwarded_from'') (json_forward_enc W) (msg_forwarded_from m))
       (\<lambda>forwarded.
         let metadata = sort_key fst (msg_metadata m);
             content = fst (content_and_ext W (msg_content m));
             ext = snd (content_and_ext W (msg_content m))
         in res_bind (json_opt (SerializationError ''reply_context'') (json_reply_enc W) (msg_reply_context m))
            (\<lambda>reply. Inr \<lparr>
              wm_id = msg_id m, wm_sender = msg_sender m, wm_recipient = msg_recipient m,
              wm_app_id = msg_app_id m, wm_priority = priority_to_u8 (msg_priority m),
              wm_ttl = msg_ttl m, wm_hop_count = msg_hop_count m, wm_timestamp = msg_timestamp m,
              wm_lamport_clock = msg_lamport_clock m,
              wm_content_type = content_type_to_u8 (msg_content_type m), wm_content = content,
              wm_binary_content = msg_binary_content m, wm_media_metadata_json = media,
              wm_metadata = metadata, wm_requires_ack = msg_requires_ack m,
              wm_reply_to_msg = msg_reply_to_msg m, wm_forwarded_from_json = forwarded,
              wm_ext = ext @ (case reply of None \<Rightarrow> [] | Some rc \<Rightarrow> [(EXT_TAG_REPLY_CONTEXT, rc)])\<rparr>)))"

definition to_wire_v1_bytes :: "wire_deps \<Rightarrow> message \<Rightarrow> core_error + bytes" where
  "to_wire_v1_bytes W m = res_bind (to_wire_dto W m) (wire_encode W)"

definition ext_find :: "u16 \<Rightarrow> (u16 \<times> bytes) list \<Rightarrow> bytes option" where
  "ext_find tag ext = map_option snd (find (\<lambda>e. fst e = tag) ext)"

definition from_wire_dto :: "wire_deps \<Rightarrow> wire_message_v1 \<Rightarrow> core_error + message" where
  "from_wire_dto W w =
     (let content = wm_content w @ (case ext_find EXT_TAG_B64_TAIL (wm_ext w) of
            Some raw \<Rightarrow> b64_encode W raw | None \<Rightarrow> []) in
      res_bind (json_opt (DeserializationError ''media_metadata'') (json_media_dec W) (wm_media_metadata_json w))
       (\<lambda>media. res_bind (json_opt (DeserializationError ''forwarded_from'') (json_forward_dec W) (wm_forwarded_from_json w))
       (\<lambda>forwarded. res_bind (json_opt (DeserializationError ''reply_context'') (json_reply_dec W)
            (ext_find EXT_TAG_REPLY_CONTEXT (wm_ext w)))
       (\<lambda>reply. res_bind (UserId_new (wm_sender w))
       (\<lambda>sender. res_bind (UserId_new (wm_recipient w))
       (\<lambda>recipient. res_bind (AppId_new (wm_app_id w))
       (\<lambda>app_id. Inr \<lparr>
          msg_id = wm_id w, msg_sender = sender, msg_recipient = recipient, msg_app_id = app_id,
          msg_priority = priority_from_u8 (wm_priority w), msg_ttl = wm_ttl w,
          msg_hop_count = wm_hop_count w, msg_timestamp = wm_timestamp w,
          msg_lamport_clock = Lamport_from_value (wm_lamport_clock w),
          msg_content_type = content_type_from_u8 (wm_content_type w), msg_content = content,
          msg_binary_content = wm_binary_content w, msg_media_metadata = media,
          msg_metadata = fold (\<lambda>(k, v). hm_insert k v) (wm_metadata w) [],
          msg_requires_ack = wm_requires_ack w, msg_reply_to_msg = wm_reply_to_msg w,
          msg_forwarded_from = forwarded, msg_reply_context = reply,
          msg_transport_peer_id = None, msg_wire_codec = WcJson\<rparr>)))))))"

definition from_wire_v1_bytes :: "wire_deps \<Rightarrow> bytes \<Rightarrow> core_error + message" where
  "from_wire_v1_bytes W data = res_bind (wire_decode W data) (from_wire_dto W)"

subsection \<open>The entry points of the transports\<close>

datatype transport_error =
    TeMessageTooLarge nat nat
  | TeSerialization string
  | TeCore core_error

abbreviation DEFAULT_MAX_MESSAGE_SIZE :: nat where
  "DEFAULT_MAX_MESSAGE_SIZE \<equiv> 1048576"

definition sanitize_for_wire :: "message \<Rightarrow> message" where
  "sanitize_for_wire m = (case msg_media_metadata m of
       Some meta \<Rightarrow> if has_secrets meta then m\<lparr>msg_media_metadata := Some (without_secrets meta)\<rparr> else m
     | None \<Rightarrow> m)"

definition serialize_message :: "wire_deps \<Rightarrow> message \<Rightarrow> transport_error + bytes" where
  "serialize_message W m =
     ok_or (TeSerialization ''Failed to serialize message'') (json_message_enc W (sanitize_for_wire m))"

fun core_to_transport :: "core_error + 'a \<Rightarrow> transport_error + 'a" where
  "core_to_transport (Inl e) = Inl (TeCore e)"
| "core_to_transport (Inr a) = Inr a"

definition serialize_message_with :: "wire_deps \<Rightarrow> message \<Rightarrow> transport_error + bytes" where
  "serialize_message_with W m = (case msg_wire_codec m of
       WcBinaryV1 \<Rightarrow> core_to_transport (to_wire_v1_bytes W (sanitize_for_wire m))
     | WcJson \<Rightarrow> serialize_message W m)"

definition deserialize_message :: "wire_deps \<Rightarrow> bytes \<Rightarrow> transport_error + message" where
  "deserialize_message W data =
     (if data \<noteq> [] \<and> hd data = WIRE_V1_MAGIC then core_to_transport (from_wire_v1_bytes W data)
      else ok_or (TeSerialization ''Failed to deserialize message'') (json_message_dec W data))"

definition on_message_received_from :: "message \<Rightarrow> string \<Rightarrow> message list \<Rightarrow> message list" where
  "on_message_received_from m peer_id queue = (case set_transport_peer_id peer_id m of
       Inl _ \<Rightarrow> queue
     | Inr m' \<Rightarrow> queue @ [m'])"

definition on_data_received :: "wire_deps \<Rightarrow> bytes \<Rightarrow> message list \<Rightarrow> (transport_error + unit) \<times> message list" where
  "on_data_received W data queue =
     (if DEFAULT_MAX_MESSAGE_SIZE < length data
      then (Inl (TeMessageTooLarge (length data) DEFAULT_MAX_MESSAGE_SIZE), queue)
      else (case deserialize_message W data of
              Inr m \<Rightarrow> (Inr (), queue @ [m])
            | Inl _ \<Rightarrow> (Inr (), queue)))"

definition on_data_received_from ::
  "wire_deps \<Rightarrow> bytes \<Rightarrow> string \<Rightarrow> message list \<Rightarrow> (transport_error + unit) \<times> message list" where
  "on_data_received_from W data peer_id queue =
     (if DEFAULT_MAX_MESSAGE_SIZE < length data
      then (Inl (TeMessageTooLarge (length data) DEFAULT_MAX_MESSAGE_SIZE), queue)
      else (case deserialize_message W data of
              Inr m \<Rightarrow> (case set_transport_peer_id peer_id m of
                  Inr m' \<Rightarrow> (Inr (), queue @ [m'])
                | Inl e \<Rightarrow> (Inl (TeCore e), queue))
            | Inl _ \<Rightarrow> (Inr (), queue)))"


subsection \<open>What is relied on of the third-party encodings\<close>

definition wire_laws :: "wire_deps \<Rightarrow> bool" where
  "wire_laws W \<longleftrightarrow>
     (\<forall>w bs. postcard_enc W w = Some bs \<longrightarrow> postcard_dec W bs = Some w)
   \<and> (\<forall>x bs. json_media_enc W x = Some bs \<longrightarrow> json_media_dec W bs = Some x)
   \<and> (\<forall>x bs. json_forward_enc W x = Some bs \<longrightarrow> json_forward_dec W bs = Some x)
   \<and> (\<forall>x bs. json_reply_enc W x = Some bs \<longrightarrow> json_reply_dec W bs = Some x)
   \<and> (\<forall>m bs. json_message_enc W m = Some bs \<longrightarrow> bs \<noteq> [] \<and> hd bs = 0x7B
        \<and> json_message_dec W bs = Some (m\<lparr>msg_lamport_clock := Lamport_from_value (msg_lamport_clock m),
              msg_transport_peer_id := None, msg_wire_codec := WcJson\<rparr>))"

text \<open>What a message looks like after a trip over the wire: the in-process fields are gone, the
  clock is clamped, and the metadata map is read back in the order of its keys.\<close>

definition wire_image :: "message \<Rightarrow> message" where
  "wire_image m = m\<lparr>msg_lamport_clock := Lamport_from_value (msg_lamport_clock m),
     msg_metadata := sort_key fst (msg_metadata m),
     msg_transport_peer_id := None, msg_wire_codec := WcJson\<rparr>"

text \<open>What the receiver decodes from what \<open>serialize_message_with\<close> wrote.\<close>

definition received_form :: "message \<Rightarrow> message" where
  "received_form m = (case msg_wire_codec m of
       WcBinaryV1 \<Rightarrow> wire_image (sanitize_for_wire m)
     | WcJson \<Rightarrow> (sanitize_for_wire m)\<lparr>msg_lamport_clock := Lamport_from_value (msg_lamport_clock m),
         msg_transport_peer_id := None, msg_wire_codec := WcJson\<rparr>)"

text \<open>A message and an instance of the third-party encodings that carries it.\<close>

definition example_message :: message where
  "example_message = (message_from_parts (replicate 16 7) ''alice'' ''bob'' ''chat'' ''hi'' 5)
     \<lparr>msg_metadata := [(''z'', ''1''), (''a'', ''2'')], msg_wire_codec := WcBinaryV1\<rparr>"

definition no_deps :: wire_deps where
  "no_deps = \<lparr>b64_encode = (\<lambda>_. []), b64_decode = (\<lambda>_. None), postcard_enc = (\<lambda>_. None),
     postcard_dec = (\<lambda>_. None), json_media_enc = (\<lambda>_. None), json_media_dec = (\<lambda>_. None),
     json_forward_enc = (\<lambda>_. None), json_forward_dec = (\<lambda>_. None), json_reply_enc = (\<lambda>_. None),
     json_reply_dec = (\<lambda>_. None), json_message_enc = (\<lambda>_. None), json_message_dec = (\<lambda>_. None)\<rparr>"

definition example_dto :: wire_message_v1 where
  "example_dto = (case to_wire_dto no_deps example_message of Inr w \<Rightarrow> w)"

definition example_deps :: wire_deps where
  "example_deps = no_deps\<lparr>postcard_enc := (\<lambda>w. if w = example_dto then Some [1, 2] else None),
     postcard_dec := (\<lambda>bs. if bs = [1, 2] then Some example_dto else None)\<rparr>"

subsection \<open>Lemmas\<close>

lemma priority_u8_roundtrip [simp]: "priority_from_u8 (priority_to_u8 p) = p"
  by (cases p) (simp_all add: priority_from_u8_def)

lemma content_type_u8_roundtrip [simp]: "content_type_from_u8 (content_type_to_u8 c) = c"
  by (cases c) (simp_all add: content_type_from_u8_def)

lemma split_b64_tail_content:
  "split_b64_tail W content = Some (head, raw) \<Longrightarrow> head @ b64_encode W raw = content"
  by (auto simp: split_b64_tail_def Let_def split: if_splits option.splits)

lemma json_opt_roundtrip:
  "json_opt e enc x = Inr y \<Longrightarrow> (\<And>a b. enc a = Some b \<Longrightarrow> dec b = Some a) \<Longrightarrow> json_opt e' dec y = Inr x"
  by (cases x) auto

lemma wire_codec_roundtrip:
  "wire_laws W \<Longrightarrow> wire_encode W w = Inr bs \<Longrightarrow> wire_decode W bs = Inr w \<and> hd bs = WIRE_V1_MAGIC \<and> bs \<noteq> []"
  by (auto simp: wire_encode_def wire_laws_def)

lemma hm_collect_sorted:
  assumes "hm_inv m"
  shows "fold (\<lambda>(k, v). hm_insert k v) (sort_key fst m) [] = sort_key fst m"
proof -
  have "distinct (map fst (sort_key fst m))"
    using assms by (simp add: hm_inv_def distinct_map)
  then show ?thesis using hm_collect[of "[]" "sort_key fst m"] by simp
qed

lemma valid_ids [simp]:
  "valid_user_id i \<Longrightarrow> UserId_new i = Inr i" "valid_app_id i \<Longrightarrow> AppId_new i = Inr i"
  by (simp_all add: valid_user_id_def valid_app_id_def)

lemma ext_find_simps [simp]:
  "ext_find t [] = None" "ext_find t ((t', b) # ext) = (if t' = t then Some b else ext_find t ext)"
  by (simp_all add: ext_find_def)

lemma dto_roundtrip:
  assumes laws: "wire_laws W" and ok: "message_ok m" and enc: "to_wire_dto W m = Inr w"
  shows "from_wire_dto W w = Inr (wire_image m)"
proof -
  obtain media forwarded reply where
    j: "json_opt (SerializationError ''media_metadata'') (json_media_enc W) (msg_media_metadata m) = Inr media"
      "json_opt (SerializationError ''forwarded_from'') (json_forward_enc W) (msg_forwarded_from m) = Inr forwarded"
      "json_opt (SerializationError ''reply_context'') (json_reply_enc W) (msg_reply_context m) = Inr reply"
    using enc by (auto simp: to_wire_dto_def Let_def)
  have d: "json_opt (DeserializationError ''media_metadata'') (json_media_dec W) media = Inr (msg_media_metadata m)"
      "json_opt (DeserializationError ''forwarded_from'') (json_forward_dec W) forwarded = Inr (msg_forwarded_from m)"
      "json_opt (DeserializationError ''reply_context'') (json_reply_dec W) reply = Inr (msg_reply_context m)"
    using json_opt_roundtrip[OF j(1), of "json_media_dec W"] json_opt_roundtrip[OF j(2), of "json_forward_dec W"]
      json_opt_roundtrip[OF j(3), of "json_reply_dec W"] laws by (simp_all add: wire_laws_def)
  let ?ext = "snd (content_and_ext W (msg_content m)) @ (case reply of None \<Rightarrow> [] | Some rc \<Rightarrow> [(EXT_TAG_REPLY_CONTEXT, rc)])"
  have ext: "ext_find EXT_TAG_REPLY_CONTEXT ?ext = reply"
    by (cases "split_b64_tail W (msg_content m)"; cases reply) (auto simp: content_and_ext_def)
  have content: "fst (content_and_ext W (msg_content m)) @ (case ext_find EXT_TAG_B64_TAIL ?ext of
      Some raw \<Rightarrow> b64_encode W raw | None \<Rightarrow> []) = msg_content m"
    using split_b64_tail_content[of W "msg_content m"]
    by (cases "split_b64_tail W (msg_content m)"; cases reply) (auto simp: content_and_ext_def)
  show ?thesis
    using enc j d ok ext content hm_collect_sorted[of "msg_metadata m"]
    by (auto simp: to_wire_dto_def from_wire_dto_def message_ok_def wire_image_def Let_def simp del: res_bind_Inr)
qed

lemma wire_roundtrip_lemma:
  assumes "wire_laws W" "message_ok m" "to_wire_v1_bytes W m = Inr bs"
  shows "from_wire_v1_bytes W bs = Inr (wire_image m) \<and> bs \<noteq> [] \<and> hd bs = WIRE_V1_MAGIC"
  using assms dto_roundtrip[OF assms(1,2)] wire_codec_roundtrip[OF assms(1)]
  by (fastforce simp: to_wire_v1_bytes_def from_wire_v1_bytes_def)

lemma sanitize_media:
  "msg_media_metadata (sanitize_for_wire m) = map_option without_secrets (msg_media_metadata m)"
  by (cases "msg_media_metadata m")
     (auto simp: sanitize_for_wire_def has_secrets_def without_secrets_def)

lemma sanitize_other [simp]:
  "message_ok (sanitize_for_wire m) = message_ok m" "msg_id (sanitize_for_wire m) = msg_id m"
  "msg_sender (sanitize_for_wire m) = msg_sender m" "msg_recipient (sanitize_for_wire m) = msg_recipient m"
  "msg_content (sanitize_for_wire m) = msg_content m" "msg_metadata (sanitize_for_wire m) = msg_metadata m"
  by (auto simp: sanitize_for_wire_def message_ok_def split: option.splits)


lemma sanitize_clock [simp]: "msg_lamport_clock (sanitize_for_wire m) = msg_lamport_clock m"
  by (auto simp: sanitize_for_wire_def split: option.splits)

lemma wire_received:
  assumes laws: "wire_laws W" and ok: "message_ok m" and enc: "serialize_message_with W m = Inr bs"
  shows "deserialize_message W bs = Inr (received_form m)" "bs \<noteq> []"
proof -
  have "deserialize_message W bs = Inr (received_form m) \<and> bs \<noteq> []"
  proof (cases "msg_wire_codec m")
    case WcBinaryV1
    then have "to_wire_v1_bytes W (sanitize_for_wire m) = Inr bs"
      using enc by (cases "to_wire_v1_bytes W (sanitize_for_wire m)") (simp_all add: serialize_message_with_def)
    from wire_roundtrip_lemma[OF laws _ this] show ?thesis
      using ok WcBinaryV1 by (simp add: deserialize_message_def received_form_def)
  next
    case WcJson
    then have "json_message_enc W (sanitize_for_wire m) = Some bs"
      using enc by (cases "json_message_enc W (sanitize_for_wire m)") (simp_all add: serialize_message_with_def serialize_message_def)
    then have "bs \<noteq> [] \<and> hd bs = 0x7B \<and> json_message_dec W bs = Some ((sanitize_for_wire m)\<lparr>msg_lamport_clock :=
        Lamport_from_value (msg_lamport_clock m), msg_transport_peer_id := None, msg_wire_codec := WcJson\<rparr>)"
      using laws by (simp add: wire_laws_def)
    then show ?thesis using WcJson by (simp add: deserialize_message_def received_form_def)
  qed
  then show "deserialize_message W bs = Inr (received_form m)" "bs \<noteq> []" by simp_all
qed

lemma example_deps_laws: "wire_laws example_deps"
  by (simp add: wire_laws_def example_deps_def no_deps_def)

lemma example_encodes:
  "message_ok example_message" "to_wire_v1_bytes example_deps example_message = Inr [WIRE_V1_MAGIC, 1, 2]"
  "serialize_message_with example_deps example_message = Inr [WIRE_V1_MAGIC, 1, 2]"
  by code_simp+

lemma hm_collect_inv: "hm_inv m \<Longrightarrow> hm_inv (fold (\<lambda>(k, v). hm_insert k v) ps m)"
  by (induction ps arbitrary: m) (auto split: prod.splits)

subsection \<open>Properties\<close>

text \<open>C10. Whatever message is encoded with the binary codec, decoding the frame gives it back: every
  field is the same, base64 tails moved out of the content and metadata included, except for the
  Lamport clock, which is clamped, and the in-process fields, which are not carried.\<close>

theorem wire_v1_roundtrip:
  assumes "wire_laws W" "message_ok m" "to_wire_v1_bytes W m = Inr bs"
  shows "from_wire_v1_bytes W bs = Inr (wire_image m)"
  using wire_roundtrip_lemma[OF assms] by simp

theorem wire_v1_roundtrip_witness:
  "from_wire_v1_bytes example_deps [WIRE_V1_MAGIC, 1, 2] = Inr (wire_image example_message)"
  by (rule wire_v1_roundtrip[OF example_deps_laws example_encodes(1,2)])



text \<open>Whatever bytes arrive, a frame the binary decoder accepts yields a message whose
  identifiers passed validation, whose Lamport clock is at most the accepted maximum, whose
  metadata has no key twice, and which claims no transport identity.\<close>

lemma wire_v1_accepts_only_valid:
  assumes "from_wire_v1_bytes W data = Inr m"
  shows "valid_user_id (msg_sender m) \<and> valid_user_id (msg_recipient m) \<and> valid_app_id (msg_app_id m)
    \<and> msg_lamport_clock m \<le> LAMPORT_CLOCK_MAX \<and> hm_inv (msg_metadata m) \<and> msg_transport_peer_id m = None"
proof -
  obtain w where "from_wire_dto W w = Inr m" using assms by (auto simp: from_wire_v1_bytes_def)
  then show ?thesis
    by (auto simp: from_wire_dto_def Let_def UserId_new_ok AppId_new_ok valid_user_id_def valid_app_id_def
        Lamport_from_value_def hm_collect_inv)
qed

lemma wire_v1_accepts_only_valid_witness:
  "from_wire_v1_bytes example_deps [WIRE_V1_MAGIC, 1, 2] = Inr (wire_image example_message)
   \<and> valid_user_id (msg_sender (wire_image example_message))"
proof -
  have "from_wire_v1_bytes example_deps [WIRE_V1_MAGIC, 1, 2] = Inr (wire_image example_message)" by code_simp
  then show ?thesis using wire_v1_accepts_only_valid by blast
qed

end
