(* ===== verification/Bytes.thy ===== *)
theory Bytes
  imports Prelude
begin

text \<open>
  Fixed-width integers, strings and fields as bytes, and the interfaces of a byte codec.

  \<^item> \<open>nat_le\<close>/\<open>le_nat\<close> and \<open>nat_be\<close>/\<open>be_nat\<close> are \<open>to_le_bytes\<close>/\<open>from_le_bytes\<close> and their big-endian
    counterparts, for any width; \<open>as u32\<close> before \<open>to_le_bytes\<close> is the reduction they do.
  \<^item> \<open>str_bytes\<close>/\<open>bytes_str\<close> move between a string and its bytes; \<open>utf8_valid\<close> is the check of
    \<open>String::from_utf8\<close>.
  \<^item> \<open>codec\<close> is the contract of an encoder and its decoder, \<open>prefix_codec\<close> of a pair whose
    encodings can be followed by more bytes; both give injectivity.
\<close>

subsection \<open>Integers\<close>

fun nat_le :: "nat \<Rightarrow> nat \<Rightarrow> bytes" where
  "nat_le 0 n = []"
| "nat_le (Suc k) n = of_nat (n mod 256) # nat_le k (n div 256)"

fun le_nat :: "bytes \<Rightarrow> nat" where
  "le_nat [] = 0"
| "le_nat (b # bs) = unat b + 256 * le_nat bs"

definition nat_be :: "nat \<Rightarrow> nat \<Rightarrow> bytes" where
  "nat_be k n = rev (nat_le k n)"

definition be_nat :: "bytes \<Rightarrow> nat" where
  "be_nat bs = le_nat (rev bs)"

subsection \<open>Strings\<close>

definition str_bytes :: "string \<Rightarrow> bytes" where
  "str_bytes s = map of_char s"

definition bytes_str :: "bytes \<Rightarrow> string" where
  "bytes_str bs = map (\<lambda>b. char_of (unat b)) bs"

text \<open>The byte ranges that may follow a leading byte, one per continuation byte.\<close>

definition utf8_lead :: "u8 \<Rightarrow> (u8 \<times> u8) list option" where
  "utf8_lead b =
     (if b \<le> 0x7F then Some []
      else if 0xC2 \<le> b \<and> b \<le> 0xDF then Some [(0x80, 0xBF)]
      else if b = 0xE0 then Some [(0xA0, 0xBF), (0x80, 0xBF)]
      else if b = 0xED then Some [(0x80, 0x9F), (0x80, 0xBF)]
      else if 0xE1 \<le> b \<and> b \<le> 0xEF then Some [(0x80, 0xBF), (0x80, 0xBF)]
      else if b = 0xF0 then Some [(0x90, 0xBF), (0x80, 0xBF), (0x80, 0xBF)]
      else if 0xF1 \<le> b \<and> b \<le> 0xF3 then Some [(0x80, 0xBF), (0x80, 0xBF), (0x80, 0xBF)]
      else if b = 0xF4 then Some [(0x80, 0x8F), (0x80, 0xBF), (0x80, 0xBF)]
      else None)"

fun utf8_run :: "(u8 \<times> u8) list \<Rightarrow> bytes \<Rightarrow> bool" where
  "utf8_run [] [] = True"
| "utf8_run (_ # _) [] = False"
| "utf8_run ((lo, hi) # pending) (b # bs) = (lo \<le> b \<and> b \<le> hi \<and> utf8_run pending bs)"
| "utf8_run [] (b # bs) = (case utf8_lead b of None \<Rightarrow> False | Some pending \<Rightarrow> utf8_run pending bs)"

definition utf8_valid :: "bytes \<Rightarrow> bool" where
  "utf8_valid bs = utf8_run [] bs"

definition from_utf8 :: "bytes \<Rightarrow> string option" where
  "from_utf8 bs = (if utf8_valid bs then Some (bytes_str bs) else None)"

definition rust_str :: "string \<Rightarrow> bool" where
  "rust_str s = utf8_valid (str_bytes s)"

subsection \<open>Fields\<close>

text \<open>A field behind its big-endian \<open>u32\<close> length, and the reader of one.\<close>

definition be_field :: "bytes \<Rightarrow> bytes" where
  "be_field f = nat_be 4 (length f) @ f"

definition split_at :: "nat \<Rightarrow> bytes \<Rightarrow> (bytes \<times> bytes) option" where
  "split_at n bs = (if n \<le> length bs then Some (take n bs, drop n bs) else None)"

definition take_be_field :: "bytes \<Rightarrow> (bytes \<times> bytes) option" where
  "take_be_field bs = Option.bind (split_at 4 bs) (\<lambda>(l, r). split_at (be_nat l) r)"

subsection \<open>Lemmas on integers\<close>

lemma nat_le_length [simp, codec_simps]: "length (nat_le k n) = k"
  by (induction k arbitrary: n) auto

lemma nat_be_length [simp, codec_simps]: "length (nat_be k n) = k"
  by (simp add: nat_be_def)

lemma unat_byte: "unat (b :: u8) < 256"
  using unsigned_less[of b, where 'a = nat] by simp

lemma le_nat_nat_le [codec_simps]: "le_nat (nat_le k n) = n mod 256 ^ k"
proof (induction k arbitrary: n)
  case (Suc k)
  have "unat (of_nat (n mod 256) :: u8) = n mod 256"
    by (simp add: unsigned_of_nat take_bit_nat_eq_self)
  then have "le_nat (nat_le (Suc k) n) = n mod 256 + 256 * (n div 256 mod 256 ^ k)"
    using Suc[of "n div 256"] by simp
  also have "\<dots> = n mod 256 ^ Suc k" by (simp only: power_Suc mod_mult2_eq add.commute)
  finally show ?case .
qed simp

lemma be_nat_nat_be [codec_simps]: "be_nat (nat_be k n) = n mod 256 ^ k"
  by (simp add: be_nat_def nat_be_def le_nat_nat_le)

lemma le_nat_bound: "le_nat bs < 256 ^ length bs"
proof (induction bs)
  case (Cons b bs)
  show ?case using Cons unat_byte[of b] by simp
qed simp

lemma nat_le_le_nat [codec_simps]: "nat_le (length bs) (le_nat bs) = bs"
proof (induction bs)
  case (Cons b bs)
  have "(unat b + 256 * le_nat bs) div 256 = le_nat bs" "(unat b + 256 * le_nat bs) mod 256 = unat b"
    using unat_byte[of b] by simp_all
  then show ?case using Cons by simp
qed simp

lemma nat_be_be_nat [codec_simps]: "nat_be (length bs) (be_nat bs) = bs"
  using nat_le_le_nat[of "rev bs"] by (simp add: nat_be_def be_nat_def)

lemma be_nat_inj: "length a = length b \<Longrightarrow> be_nat a = be_nat b \<Longrightarrow> a = b"
  by (metis nat_be_be_nat)

lemma le_nat_inj: "length a = length b \<Longrightarrow> le_nat a = le_nat b \<Longrightarrow> a = b"
  by (metis nat_le_le_nat)

lemma nat_be_inj: "nat_be k m = nat_be k n \<Longrightarrow> m < 256 ^ k \<Longrightarrow> n < 256 ^ k \<Longrightarrow> m = n"
  by (metis be_nat_nat_be mod_less)

subsection \<open>Lemmas on strings\<close>

lemma unat_of_char [simp]: "unat (of_char c :: u8) = of_char c"
proof -
  have "unat (of_nat (of_char c) :: u8) = of_char c"
    by (simp only: unsigned_of_nat) (simp add: take_bit_nat_eq_self)
  then show ?thesis by (simp only: of_nat_of_char)
qed

lemma bytes_str_str_bytes [simp]: "bytes_str (str_bytes s) = s"
  by (induction s) (simp_all add: bytes_str_def str_bytes_def)

lemma str_bytes_bytes_str [simp]: "str_bytes (bytes_str bs) = bs"
proof (induction bs)
  case (Cons b bs)
  have "(of_char (char_of (unat b)) :: u8) = of_nat (of_char (char_of (unat b)))" by (simp only: of_nat_of_char)
  also have "\<dots> = b" using unat_byte[of b] by simp
  finally show ?case using Cons by (simp add: str_bytes_def bytes_str_def)
qed (simp add: str_bytes_def bytes_str_def)

lemma bytes_str_inj: "bytes_str a = bytes_str b \<Longrightarrow> a = b"
  by (metis str_bytes_bytes_str)

lemma str_bytes_length [simp, codec_simps]: "length (str_bytes s) = length s"
  by (simp add: str_bytes_def)

lemma str_bytes_inj [simp]: "str_bytes s = str_bytes t \<longleftrightarrow> s = t"
  by (metis bytes_str_str_bytes)

lemma from_utf8_str_bytes: "rust_str s \<Longrightarrow> from_utf8 (str_bytes s) = Some s"
  by (simp add: from_utf8_def rust_str_def)

lemma ascii_rust_str: "\<forall>c\<in>set s. of_char c < (128 :: nat) \<Longrightarrow> rust_str s"
proof (induction s)
  case (Cons c s)
  then have "(of_char c :: u8) \<le> 0x7F" by (simp add: word_le_nat_alt)
  then show ?case using Cons by (simp add: rust_str_def utf8_valid_def str_bytes_def utf8_lead_def)
qed (simp add: rust_str_def utf8_valid_def str_bytes_def)

subsection \<open>The interface of a codec\<close>

locale codec =
  fixes enc :: "'a \<Rightarrow> 'b"
    and dec :: "'b \<Rightarrow> 'a option"
    and ok :: "'a \<Rightarrow> bool"
  assumes dec_enc: "ok a \<Longrightarrow> dec (enc a) = Some a"
begin

lemma enc_inj:
  assumes "ok a" "ok b" "enc a = enc b"
  shows "a = b"
proof -
  have "dec (enc a) = Some b" unfolding assms(3) by (rule dec_enc[OF assms(2)])
  from trans[OF dec_enc[OF assms(1), symmetric] this] show ?thesis by (rule option.inject[THEN iffD1])
qed

lemma enc_inj_on: "inj_on enc {a. ok a}"
  by (rule inj_onI, rule enc_inj) simp_all

end

locale prefix_codec =
  fixes enc :: "'a \<Rightarrow> bytes"
    and next_one :: "bytes \<Rightarrow> ('a \<times> bytes) option"
    and ok :: "'a \<Rightarrow> bool"
  assumes next_enc: "ok a \<Longrightarrow> next_one (enc a @ rest) = Some (a, rest)"
    and enc_nonempty: "enc a \<noteq> []"
begin

lemma append_inj:
  assumes "ok a" "ok b" "enc a @ r = enc b @ s"
  shows "a = b \<and> r = s"
proof -
  have "next_one (enc a @ r) = Some (b, s)" unfolding assms(3) by (rule next_enc[OF assms(2)])
  from trans[OF next_enc[OF assms(1), symmetric] this] show ?thesis by simp
qed

lemma concat_inj:
  "\<forall>a\<in>set as. ok a \<Longrightarrow> \<forall>b\<in>set bs. ok b \<Longrightarrow> concat (map enc as) = concat (map enc bs) \<Longrightarrow> as = bs"
proof (induction as arbitrary: bs)
  case Nil
  then show ?case by (cases bs) (simp_all add: enc_nonempty)
next
  case (Cons a as)
  obtain b bs' where b: "bs = b # bs'" using Cons.prems(3) by (cases bs) (simp_all add: enc_nonempty)
  have "ok a" "ok b" "enc a @ concat (map enc as) = enc b @ concat (map enc bs')"
    using Cons.prems b by simp_all
  from append_inj[OF this] have ab: "a = b" "concat (map enc as) = concat (map enc bs')" by blast+
  have "as = bs'" by (rule Cons.IH[OF _ _ ab(2)]) (use Cons.prems b in simp_all)
  then show ?case using ab(1) b by simp
qed

end

sublocale prefix_codec \<subseteq> whole: codec enc
    "\<lambda>bs. case next_one bs of Some (a, []) \<Rightarrow> Some a | _ \<Rightarrow> None" ok
proof unfold_locales
  fix a assume "ok a"
  then show "(case next_one (enc a) of Some (a, []) \<Rightarrow> Some a | _ \<Rightarrow> None) = Some a"
    using next_enc[of a "[]"] by simp
qed

subsection \<open>Length-prefixed fields\<close>

lemma take_drop_three [codec_simps]: "n = a + b \<Longrightarrow> take a bs @ take b (drop a bs) @ drop n bs = bs"
  by (metis append_take_drop_id drop_drop add.commute)

lemma split_at_append [simp, codec_simps]: "length a = n \<Longrightarrow> split_at n (a @ b) = Some (a, b)"
  by (simp add: split_at_def)

lemma split_at_Some [codec_simps]: "split_at n bs = Some (a, b) \<longleftrightarrow> bs = a @ b \<and> length a = n"
  by (auto simp: split_at_def)

interpretation fld: prefix_codec be_field take_be_field "\<lambda>f. length f < 2 ^ 32"
proof unfold_locales
  fix a rest :: bytes
  assume "length a < 2 ^ 32"
  then show "take_be_field (be_field a @ rest) = Some (a, rest)"
    by (simp add: take_be_field_def be_field_def be_nat_nat_be)
next
  fix a :: bytes
  have "length (be_field a) \<noteq> 0" by (simp add: be_field_def)
  then show "be_field a \<noteq> []" by auto
qed

end
