(* ===== verification/Address.thy ===== *)
theory Address
  imports Core_Types Bytes "HOL-Library.Char_ord" "HOL-Library.List_Lexorder"
begin

text \<open>
  Self-certifying addresses (\<open>offline-protocol-core/src/address.rs\<close>,
  \<open>offline-protocol-sealed/src/derive.rs\<close>) and the group id of a two-party session
  (\<open>offline-protocol-sealed/src/envelope.rs\<close>, \<open>GroupId\<close>).

  An address is its twenty hash bytes; the derived \<open>Ord\<close> is their lexicographic order.  The
  bech32m code and SHA-256 are parameters: \<open>b32_decode\<close> is \<open>CheckedHrpstring\<close> (the
  human-readable part and the payload of a string with a valid checksum), \<open>b32_encode\<close> the
  rendering of a payload under the part \<open>off\<close>.
\<close>

subsection \<open>Addresses\<close>

type_synonym address = bytes

abbreviation ADDRESS_VERSION :: u8 where
  "ADDRESS_VERSION \<equiv> 1"

abbreviation ADDRESS_HASH_LEN :: nat where
  "ADDRESS_HASH_LEN \<equiv> 20"

abbreviation ADDRESS_PAYLOAD_LEN :: nat where
  "ADDRESS_PAYLOAD_LEN \<equiv> 21"

datatype address_error =
    NotLowercase
  | InvalidBech32m
  | HrpMismatch string
  | PayloadLength nat nat
  | VersionMismatch u8 u8
  | NonCanonical

definition address_ok :: "address \<Rightarrow> bool" where
  "address_ok a \<longleftrightarrow> length a = ADDRESS_HASH_LEN"

definition address_from_payload :: "bytes \<Rightarrow> address_error + address" where
  "address_from_payload payload =
     (if length payload \<noteq> ADDRESS_PAYLOAD_LEN then Inl (PayloadLength (length payload) ADDRESS_PAYLOAD_LEN)
      else if payload ! 0 \<noteq> ADDRESS_VERSION then Inl (VersionMismatch (payload ! 0) ADDRESS_VERSION)
      else Inr (drop 1 payload))"

definition address_payload :: "address \<Rightarrow> bytes" where
  "address_payload a = ADDRESS_VERSION # a"

record bech32 =
  b32_encode :: "bytes \<Rightarrow> string"
  b32_decode :: "string \<Rightarrow> (string \<times> bytes) option"

definition is_ascii_uppercase :: "char \<Rightarrow> bool" where
  "is_ascii_uppercase c = (let n = of_char c :: nat in 65 \<le> n \<and> n \<le> 90)"

definition address_to_string :: "bech32 \<Rightarrow> address \<Rightarrow> string" where
  "address_to_string B a = b32_encode B (address_payload a)"

definition address_from_str :: "bech32 \<Rightarrow> string \<Rightarrow> address_error + address" where
  "address_from_str B s =
     (if list_ex is_ascii_uppercase s then Inl NotLowercase
      else case b32_decode B s of
          None \<Rightarrow> Inl InvalidBech32m
        | Some (hrp, payload) \<Rightarrow>
            if hrp \<noteq> ''off'' then Inl (HrpMismatch hrp)
            else res_bind (address_from_payload payload)
              (\<lambda>a. if address_to_string B a \<noteq> s then Inl NonCanonical else Inr a))"

subsection \<open>Errors of the sealed layer and address derivation\<close>

datatype sealed_error =
    SeSerialization string
  | SeDeserialization string
  | SeInvalidGroupId string
  | SeInvalidPublicKey nat
  | SeFieldTooLarge nat

definition derive_address :: "(bytes \<Rightarrow> bytes) \<Rightarrow> bytes \<Rightarrow> sealed_error + address" where
  "derive_address sha256 public_key =
     (if length public_key \<noteq> 32 then Inl (SeInvalidPublicKey (length public_key))
      else Inr (take ADDRESS_HASH_LEN (sha256 public_key)))"

subsection \<open>Group ids\<close>

type_synonym group_id = string

abbreviation MAX_STRING_FIELD_LEN :: nat where
  "MAX_STRING_FIELD_LEN \<equiv> 4096"

text \<open>\<open>str::split(':')\<close>: the segments between the colons, one for the empty string.\<close>

fun split_colon :: "string \<Rightarrow> string list" where
  "split_colon [] = [[]]"
| "split_colon (c # cs) =
     (if c = CHR '':'' then [] # split_colon cs
      else case split_colon cs of seg # segs \<Rightarrow> (c # seg) # segs | [] \<Rightarrow> [[c]])"

definition GroupId_new :: "string \<Rightarrow> sealed_error + group_id" where
  "GroupId_new i =
     (if i = [] then Inl (SeInvalidGroupId ''Group ID cannot be empty'')
      else if MAX_STRING_FIELD_LEN < length i then Inl (SeInvalidGroupId ''Group ID length exceeds maximum'')
      else if list_all (\<lambda>seg. validate_id_chars seg ''Group ID segment'' = Inr ()) (split_colon i) then Inr i
      else Inl (SeInvalidGroupId ''Group ID segment''))"

definition session_order :: "bech32 \<Rightarrow> string \<Rightarrow> string \<Rightarrow> string \<times> string" where
  "session_order B user_a user_b = (case (address_from_str B user_a, address_from_str B user_b) of
       (Inr addr_a, Inr addr_b) \<Rightarrow> if addr_b < addr_a then (user_b, user_a) else (user_a, user_b)
     | _ \<Rightarrow> if user_b < user_a then (user_b, user_a) else (user_a, user_b))"

definition GroupId_for_session :: "bech32 \<Rightarrow> string \<Rightarrow> string \<Rightarrow> sealed_error + group_id" where
  "GroupId_for_session B user_a user_b =
     (let (x, y) = session_order B user_a user_b in GroupId_new (''session:'' @ x @ '':'' @ y))"

text \<open>What is relied on of the bech32m code: the rendering of an address decodes to its payload,
  and is lowercase.\<close>

definition bech32_laws :: "bech32 \<Rightarrow> bool" where
  "bech32_laws B \<longleftrightarrow> (\<forall>a. address_ok a \<longrightarrow> b32_decode B (b32_encode B (address_payload a)) = Some (''off'', address_payload a)
     \<and> \<not> list_ex is_ascii_uppercase (b32_encode B (address_payload a)))"

text \<open>An instance of the code: each byte as a pair of lowercase letters.\<close>

fun letters_encode :: "bytes \<Rightarrow> string" where
  "letters_encode [] = []"
| "letters_encode (b # bs) = char_of (97 + unat b div 16) # char_of (97 + unat b mod 16) # letters_encode bs"

fun letters_decode :: "string \<Rightarrow> bytes" where
  "letters_decode (c # d # cs) = of_nat ((of_char c - 97) * 16 + (of_char d - 97)) # letters_decode cs"
| "letters_decode _ = []"

definition letters_bech32 :: bech32 where
  "letters_bech32 = \<lparr>b32_encode = letters_encode, b32_decode = (\<lambda>s. Some (''off'', letters_decode s))\<rparr>"

subsection \<open>Lemmas\<close>

lemma address_payload_roundtrip: "address_ok a \<Longrightarrow> address_from_payload (address_payload a) = Inr a"
  by (simp add: address_from_payload_def address_payload_def address_ok_def)

lemma address_from_payload_ok:
  "address_from_payload p = Inr a \<longleftrightarrow> p = address_payload a \<and> address_ok a"
  by (cases p) (auto simp: address_from_payload_def address_payload_def address_ok_def split: if_splits)

lemma address_from_str_canonical: "address_from_str B s = Inr a \<Longrightarrow> address_to_string B a = s"
  by (auto simp: address_from_str_def split: if_splits option.splits)

lemma split_colon_nonempty [simp]: "split_colon s \<noteq> []"
  by (induction s) (auto split: list.splits)

lemma split_colon_segment: "CHR '':'' \<notin> set s \<Longrightarrow> split_colon s = [s]"
  by (induction s) auto

lemma split_colon_append:
  "CHR '':'' \<notin> set s \<Longrightarrow> split_colon (s @ CHR '':'' # t) = s # split_colon t"
  by (induction s) auto

lemma GroupId_new_ok:
  "GroupId_new i = Inr g \<longleftrightarrow> g = i \<and> i \<noteq> [] \<and> length i \<le> MAX_STRING_FIELD_LEN
     \<and> (\<forall>seg\<in>set (split_colon i). validate_id_chars seg ''Group ID segment'' = Inr ())"
  by (auto simp: GroupId_new_def list_all_iff)

lemma for_session_order:
  "GroupId_for_session B a b = GroupId_new (''session:'' @ fst (session_order B a b) @ '':'' @ snd (session_order B a b))"
  by (simp add: GroupId_for_session_def split: prod.splits)

lemma session_order_sym: "session_order B a b = session_order B b a"
proof (cases "\<exists>x y. address_from_str B a = Inr x \<and> address_from_str B b = Inr y")
  case True
  then obtain x y where xy: "address_from_str B a = Inr x" "address_from_str B b = Inr y" by blast
  then have "x = y \<Longrightarrow> a = b" using address_from_str_canonical by metis
  then show ?thesis using xy by (cases x y rule: linorder_cases) (auto simp: session_order_def)
next
  case False
  then show ?thesis
    by (cases a b rule: linorder_cases) (auto simp: session_order_def split: sum.splits)
qed

lemma session_order_set: "{fst (session_order B a b), snd (session_order B a b)} = {a, b}"
  by (auto simp: session_order_def split: sum.splits)

lemma no_colon: "valid_user_id i \<Longrightarrow> CHR '':'' \<notin> set i"
  by (simp add: valid_user_id_def UserId_new_ok validate_id_ok validate_id_chars_ok)

lemma session_id_inj:
  assumes "''session:'' @ x @ '':'' @ y = ''session:'' @ x' @ '':'' @ y'"
    and "CHR '':'' \<notin> set x" "CHR '':'' \<notin> set x'"
  shows "x = x' \<and> y = y'"
proof -
  have "split_colon (x @ CHR '':'' # y) = split_colon (x' @ CHR '':'' # y')" using assms(1) by simp
  then have "x = x'" using assms(2,3) by (simp add: split_colon_append)
  then show ?thesis using assms(1) by simp
qed

lemma letters_roundtrip: "letters_decode (letters_encode bs) = bs"
proof (induction bs)
  case (Cons b bs)
  have "unat b div 16 < 16" using unat_byte[of b] by (simp add: less_mult_imp_div_less)
  then show ?case using Cons by simp
qed simp

lemma letters_lowercase: "\<not> list_ex is_ascii_uppercase (letters_encode bs)"
proof (induction bs)
  case (Cons b bs)
  have "unat b div 16 < 16" using unat_byte[of b] by (simp add: less_mult_imp_div_less)
  moreover have "unat b mod 16 < 16" by simp
  ultimately show ?case using Cons by (simp add: is_ascii_uppercase_def)
qed simp

lemma letters_laws: "bech32_laws letters_bech32"
  using letters_lowercase by (simp add: bech32_laws_def letters_bech32_def letters_roundtrip del: letters_encode.simps)

subsection \<open>Properties\<close>

text \<open>C16. An address has one spelling: a parsed string is the rendering of the address it parses to,
  so no two strings parse to the same address, and every address parses back from its
  rendering.\<close>

theorem address_one_spelling:
  assumes "bech32_laws B"
  shows "(\<forall>s t a. address_from_str B s = Inr a \<longrightarrow> address_from_str B t = Inr a \<longrightarrow> s = t)
    \<and> (\<forall>a. address_ok a \<longrightarrow> address_from_str B (address_to_string B a) = Inr a)"
proof (intro conjI allI impI)
  fix s t a
  assume "address_from_str B s = Inr a" "address_from_str B t = Inr a"
  then show "s = t" using address_from_str_canonical by metis
next
  fix a
  assume "address_ok a"
  then show "address_from_str B (address_to_string B a) = Inr a"
    using assms by (simp add: address_from_str_def address_to_string_def bech32_laws_def address_payload_roundtrip)
qed

theorem address_one_spelling_witness:
  "address_from_str letters_bech32 (address_to_string letters_bech32 (replicate 20 7)) = Inr (replicate 20 7)"
  using address_one_spelling[OF letters_laws] by (simp add: address_ok_def)

text \<open>The two ends of a session compute the same group id whichever names itself first, and
  different pairs of user ids get different group ids.\<close>

lemma session_group_id:
  "GroupId_for_session B a b = GroupId_for_session B b a
   \<and> (valid_user_id a \<longrightarrow> valid_user_id b \<longrightarrow> valid_user_id c \<longrightarrow> valid_user_id d \<longrightarrow>
      GroupId_for_session B a b = Inr g \<longrightarrow> GroupId_for_session B c d = Inr g \<longrightarrow> {a, b} = {c, d})"
proof (intro conjI impI)
  show "GroupId_for_session B a b = GroupId_for_session B b a"
    by (simp add: for_session_order session_order_sym[of B a b])
next
  assume v: "valid_user_id a" "valid_user_id b" "valid_user_id c" "valid_user_id d"
    and g: "GroupId_for_session B a b = Inr g" "GroupId_for_session B c d = Inr g"
  let ?p = "session_order B a b" and ?q = "session_order B c d"
  have "fst ?p \<in> {a, b}" "fst ?q \<in> {c, d}" using session_order_set by blast+
  then have "CHR '':'' \<notin> set (fst ?p)" "CHR '':'' \<notin> set (fst ?q)" using v no_colon by auto
  then have "fst ?p = fst ?q \<and> snd ?p = snd ?q"
    using g by (intro session_id_inj) (simp_all add: for_session_order GroupId_new_ok)
  then show "{a, b} = {c, d}" using session_order_set[of B a b] session_order_set[of B c d] by simp
qed


lemma session_group_id_witness:
  "GroupId_for_session letters_bech32 ''alice'' ''bob'' = GroupId_for_session letters_bech32 ''bob'' ''alice''
   \<and> GroupId_for_session letters_bech32 ''alice'' ''bob'' = Inr ''session:alice:bob''
   \<and> GroupId_for_session letters_bech32 ''alice'' ''carol'' \<noteq> Inr ''session:alice:bob''"
proof -
  have "valid_user_id ''alice''" "valid_user_id ''bob''" "valid_user_id ''carol''" by code_simp+
  moreover have "GroupId_for_session letters_bech32 ''alice'' ''bob'' = Inr ''session:alice:bob''" by code_simp
  moreover have "{''alice'', ''bob''} \<noteq> {''alice'', ''carol''}" by (simp add: doubleton_eq_iff)
  ultimately show ?thesis
    using session_group_id[of letters_bech32 "''alice''" "''bob''" "''alice''" "''carol''" "''session:alice:bob''"]
    by (simp only: simp_thms)
qed

end
