(* ===== verification/Canonical.thy ===== *)
theory Canonical
  imports Address
begin

text \<open>
  Domain-separated signing payloads (\<open>offline-protocol-sealed/src/canonical.rs\<close>).

  A payload is a domain followed by length-prefixed fields.  The lemmas show that it determines
  its domain and its fields: the domains of the protocol are mutually non-prefixing and the
  length-prefixed fields have one parse (the interpretation \<open>fld\<close> of \<open>prefix_codec\<close>).
  \<open>idstr\<close> is the text of a message id (\<open>Uuid::to_string\<close>), a parameter.
\<close>

subsection \<open>Payloads\<close>

definition CTRL_SIGN_DOMAIN :: bytes where
  "CTRL_SIGN_DOMAIN = str_bytes ''offline-ctrl-v1''"

definition CTRL_SIGN_DOMAIN_V2 :: bytes where
  "CTRL_SIGN_DOMAIN_V2 = str_bytes ''offline-ctrl-v2''"

definition GATEWAY_ADDR_SIGN_DOMAIN :: bytes where
  "GATEWAY_ADDR_SIGN_DOMAIN = str_bytes ''offline-gateway-addr-v1''"

fun canonical_fields :: "bytes list \<Rightarrow> sealed_error + bytes" where
  "canonical_fields [] = Inr []"
| "canonical_fields (field # flds) =
     (if 2 ^ 32 \<le> length field then Inl (SeFieldTooLarge (length field))
      else res_bind (canonical_fields flds) (\<lambda>rest. Inr (nat_be 4 (length field) @ field @ rest)))"

definition canonical_payload :: "bytes \<Rightarrow> bytes list \<Rightarrow> sealed_error + bytes" where
  "canonical_payload d flds = res_bind (canonical_fields flds) (\<lambda>rest. Inr (d @ rest))"

definition i64_be :: "i64 \<Rightarrow> bytes" where
  "i64_be v = nat_be 8 (unat v)"

definition control_signing_payload :: "(message_id \<Rightarrow> string) \<Rightarrow> message \<Rightarrow> sealed_error + bytes" where
  "control_signing_payload idstr m = canonical_payload CTRL_SIGN_DOMAIN
     [str_bytes (msg_sender m), str_bytes (idstr (msg_id m)), str_bytes (msg_recipient m),
      str_bytes (msg_content m)]"

definition control_signing_payload_v2 :: "(message_id \<Rightarrow> string) \<Rightarrow> message \<Rightarrow> sealed_error + bytes" where
  "control_signing_payload_v2 idstr m = canonical_payload CTRL_SIGN_DOMAIN_V2
     [str_bytes (msg_sender m), str_bytes (idstr (msg_id m)), str_bytes (msg_recipient m),
      str_bytes (msg_content m), i64_be (msg_timestamp m)]"

definition gateway_address_proof_payload :: "string \<Rightarrow> bytes \<Rightarrow> sealed_error + bytes" where
  "gateway_address_proof_payload addr challenge =
     res_bind (canonical_payload GATEWAY_ADDR_SIGN_DOMAIN [str_bytes addr]) (\<lambda>p. Inr (p @ challenge))"

text \<open>The other domains signatures are made under, here and in the MLS crate, and the relay's.\<close>

definition DISCOVERY_SIGN_DOMAIN :: bytes where
  "DISCOVERY_SIGN_DOMAIN = str_bytes ''offline-disc-v1''"

definition INVITE_SIGN_DOMAIN :: bytes where
  "INVITE_SIGN_DOMAIN = str_bytes ''offline-invite-v1''"

definition RELAY_ADDR_SIGN_DOMAIN :: bytes where
  "RELAY_ADDR_SIGN_DOMAIN = str_bytes ''offline-relay-addr-v1''"

definition MEMBER_CERT_DOMAIN :: bytes where
  "MEMBER_CERT_DOMAIN = str_bytes ''offline-app-member-v1''"

definition MEMBER_TRANSCRIPT_DOMAIN :: bytes where
  "MEMBER_TRANSCRIPT_DOMAIN = str_bytes ''offline-app-member-transcript-v1''"

definition MEMBER_E2E_DOMAIN :: bytes where
  "MEMBER_E2E_DOMAIN = str_bytes ''offline-app-member-e2e-v1''"

definition signing_domains :: "bytes list" where
  "signing_domains = [CTRL_SIGN_DOMAIN, CTRL_SIGN_DOMAIN_V2, DISCOVERY_SIGN_DOMAIN, INVITE_SIGN_DOMAIN,
     RELAY_ADDR_SIGN_DOMAIN, GATEWAY_ADDR_SIGN_DOMAIN, MEMBER_CERT_DOMAIN, MEMBER_TRANSCRIPT_DOMAIN,
     MEMBER_E2E_DOMAIN]"

fun starts_with :: "bytes \<Rightarrow> bytes \<Rightarrow> bool" where
  "starts_with bs [] = True"
| "starts_with [] (p # ps) = False"
| "starts_with (b # bs) (p # ps) = (b = p \<and> starts_with bs ps)"

subsection \<open>Lemmas\<close>

lemma canonical_fields_Inr:
  "canonical_fields fs = Inr p \<longleftrightarrow> (\<forall>f\<in>set fs. length f < 2 ^ 32) \<and> p = concat (map be_field fs)"
  by (induction fs arbitrary: p) (auto simp: be_field_def)

lemma canonical_payload_Inr:
  "canonical_payload d fs = Inr p \<longleftrightarrow> (\<forall>f\<in>set fs. length f < 2 ^ 32) \<and> p = d @ concat (map be_field fs)"
  by (auto simp: canonical_payload_def canonical_fields_Inr)

lemma starts_with_append: "starts_with bs p \<longleftrightarrow> (\<exists>r. bs = p @ r)"
  by (induction bs p rule: starts_with.induct) auto

lemma starts_with_str: "starts_with (str_bytes s) (str_bytes t) \<longleftrightarrow> take (length t) s = t"
proof -
  have "starts_with (str_bytes s) (str_bytes t) \<longleftrightarrow> take (length t) (str_bytes s) = str_bytes t"
    unfolding starts_with_append by (metis append_take_drop_id append_eq_conv_conj str_bytes_length)
  also have "take (length t) (str_bytes s) = str_bytes (take (length t) s)" by (simp add: str_bytes_def take_map)
  finally show ?thesis by simp
qed

lemma common_prefix: "d @ x = e @ y \<Longrightarrow> starts_with d e \<or> starts_with e d"
  by (metis append_eq_append_conv2 starts_with_append)

lemma signing_domains_non_prefixing:
  "d \<in> set signing_domains \<Longrightarrow> e \<in> set signing_domains \<Longrightarrow> starts_with d e \<Longrightarrow> d = e"
proof -
  let ?names = "[''offline-ctrl-v1'', ''offline-ctrl-v2'', ''offline-disc-v1'', ''offline-invite-v1'',
    ''offline-relay-addr-v1'', ''offline-gateway-addr-v1'', ''offline-app-member-v1'',
    ''offline-app-member-transcript-v1'', ''offline-app-member-e2e-v1'']"
  have names: "signing_domains = map str_bytes ?names"
    by (simp add: signing_domains_def CTRL_SIGN_DOMAIN_def CTRL_SIGN_DOMAIN_V2_def DISCOVERY_SIGN_DOMAIN_def
        INVITE_SIGN_DOMAIN_def RELAY_ADDR_SIGN_DOMAIN_def GATEWAY_ADDR_SIGN_DOMAIN_def MEMBER_CERT_DOMAIN_def
        MEMBER_TRANSCRIPT_DOMAIN_def MEMBER_E2E_DOMAIN_def)
  have "\<forall>s\<in>set ?names. \<forall>t\<in>set ?names. take (length t) s = t \<longrightarrow> s = t" by code_simp
  then have "\<forall>s\<in>set ?names. \<forall>t\<in>set ?names. starts_with (str_bytes s) (str_bytes t) \<longrightarrow> str_bytes s = str_bytes t"
    by (simp only: starts_with_str str_bytes_inj)
  then show "d \<in> set signing_domains \<Longrightarrow> e \<in> set signing_domains \<Longrightarrow> starts_with d e \<Longrightarrow> d = e"
    unfolding names set_map by blast
qed

lemma domain_unique:
  "d \<in> set signing_domains \<Longrightarrow> e \<in> set signing_domains \<Longrightarrow> d @ x = e @ y \<Longrightarrow> d = e \<and> x = y"
  using signing_domains_non_prefixing common_prefix by (metis append_same_eq same_append_eq)

lemma canonical_payload_inj:
  assumes "d \<in> set signing_domains" "e \<in> set signing_domains"
    and "canonical_payload d fs = Inr p" "canonical_payload e gs = Inr p"
  shows "d = e \<and> fs = gs"
proof -
  have eq: "d @ concat (map be_field fs) = e @ concat (map be_field gs)"
    using assms(3,4) by (simp add: canonical_payload_Inr)
  have "concat (map be_field fs) = concat (map be_field gs)" using domain_unique[OF assms(1,2) eq] by blast
  then have "fs = gs" by (rule fld.concat_inj[rotated 2]) (use assms(3,4) in \<open>simp_all add: canonical_payload_Inr\<close>)
  then show ?thesis using domain_unique[OF assms(1,2) eq] by blast
qed

lemma i64_be_inj: "i64_be v = i64_be w \<Longrightarrow> v = w"
proof -
  assume "i64_be v = i64_be w"
  then have "unat v = unat w" unfolding i64_be_def
    by (rule nat_be_inj) (use unsigned_less[of v, where 'a = nat] unsigned_less[of w, where 'a = nat] in simp_all)
  then show ?thesis by (rule unsigned_word_eqI)
qed

lemma ctrl_domains [simp]:
  "CTRL_SIGN_DOMAIN \<in> set signing_domains" "CTRL_SIGN_DOMAIN_V2 \<in> set signing_domains"
  "CTRL_SIGN_DOMAIN \<noteq> CTRL_SIGN_DOMAIN_V2" "GATEWAY_ADDR_SIGN_DOMAIN \<in> set signing_domains"
  by (simp_all add: signing_domains_def) code_simp

subsection \<open>Properties\<close>

text \<open>C14. A payload determines what was signed: two payloads built by the canonical construction under
  any of the protocol's signing domains are equal only if the domain and every field are, so a
  signature made in one context verifies in no other and no bytes move between fields.\<close>

theorem canonical_payload_unambiguous:
  assumes "d \<in> set signing_domains" "e \<in> set signing_domains"
    and "canonical_payload d fs = Inr p" "canonical_payload e gs = Inr p"
  shows "d = e \<and> fs = gs"
  by (rule canonical_payload_inj[OF assms])

theorem canonical_payload_unambiguous_witness:
  "canonical_payload CTRL_SIGN_DOMAIN [[1, 2], [3]] \<noteq> canonical_payload CTRL_SIGN_DOMAIN [[1], [2, 3]]"
proof
  assume "canonical_payload CTRL_SIGN_DOMAIN [[1, 2], [3]] = canonical_payload CTRL_SIGN_DOMAIN [[1], [2, 3]]"
  moreover obtain p where p: "canonical_payload CTRL_SIGN_DOMAIN [[1, 2], [3]] = Inr p"
    by (simp add: canonical_payload_Inr)
  ultimately have "canonical_payload CTRL_SIGN_DOMAIN [[1], [2, 3]] = Inr p" by (rule trans[OF sym])
  from canonical_payload_unambiguous[OF ctrl_domains(1) ctrl_domains(1) p this] show False by simp
qed

text \<open>C15. A signature over a control frame in its second form binds sender, message id, recipient,
  content and timestamp, and is never a signature over a frame in the first form.\<close>

theorem control_payload_binds:
  assumes "inj idstr" and "control_signing_payload_v2 idstr m = Inr p"
  shows "(control_signing_payload_v2 idstr n = Inr p \<longrightarrow>
      msg_sender n = msg_sender m \<and> msg_id n = msg_id m \<and> msg_recipient n = msg_recipient m
      \<and> msg_content n = msg_content m \<and> msg_timestamp n = msg_timestamp m)
    \<and> control_signing_payload idstr n \<noteq> Inr p"
proof (intro conjI impI)
  assume n: "control_signing_payload_v2 idstr n = Inr p"
  note fs = canonical_payload_inj[OF ctrl_domains(2) ctrl_domains(2)
      n[unfolded control_signing_payload_v2_def] assms(2)[unfolded control_signing_payload_v2_def], THEN conjunct2]
  then show "msg_sender n = msg_sender m" "msg_recipient n = msg_recipient m" "msg_content n = msg_content m"
    by simp_all
  show "msg_id n = msg_id m" using fs by (intro injD[OF assms(1)]) simp
  show "msg_timestamp n = msg_timestamp m" using fs by (intro i64_be_inj) simp
next
  show "control_signing_payload idstr n \<noteq> Inr p"
  proof
    assume "control_signing_payload idstr n = Inr p"
    from canonical_payload_inj[OF ctrl_domains(1) ctrl_domains(2) this[unfolded control_signing_payload_def]
        assms(2)[unfolded control_signing_payload_v2_def]]
    show False by simp
  qed
qed

theorem control_payload_binds_witness:
  "control_signing_payload_v2 bytes_str (message_from_parts [1] ''a'' ''b'' ''app'' ''hi'' 5)
     \<noteq> control_signing_payload_v2 bytes_str (message_from_parts [1] ''a'' ''b'' ''app'' ''hi'' 6)"
proof
  let ?m = "message_from_parts [1] ''a'' ''b'' ''app'' ''hi'' 5" and ?n = "message_from_parts [1] ''a'' ''b'' ''app'' ''hi'' 6"
  assume eq: "control_signing_payload_v2 bytes_str ?m = control_signing_payload_v2 bytes_str ?n"
  have "inj bytes_str" by (rule injI) (metis bytes_str_inj)
  moreover obtain p where p: "control_signing_payload_v2 bytes_str ?m = Inr p"
    by (simp add: control_signing_payload_v2_def canonical_payload_Inr message_from_parts_def i64_be_def)
  moreover have "control_signing_payload_v2 bytes_str ?n = Inr p" using eq p by (rule trans[OF sym])
  ultimately have "msg_timestamp ?n = msg_timestamp ?m" using control_payload_binds by blast
  then show False by (simp add: message_from_parts_def)
qed

end
