(* ===== verification/Control_Frames.thy ===== *)
theory Control_Frames
  imports Address
begin

text \<open>
  How old a signed control frame may be (\<open>offline-protocol-sealed/src/freshness.rs\<close>), the identity
  assertion a link starts with (\<open>identity_assertion.rs\<close>) and the body of a session confirmation
  (\<open>corroboration.rs\<close>).  serde's JSON is a parameter of the latter.
\<close>

subsection \<open>Freshness\<close>

datatype freshness = FreshFrame | StaleFrame nat | FromTheFuture nat

abbreviation CTRL_FRESHNESS_PAST_MS :: nat where
  "CTRL_FRESHNESS_PAST_MS \<equiv> 30 * 24 * 3600 * 1000"

abbreviation CTRL_FRESHNESS_FUTURE_MS :: nat where
  "CTRL_FRESHNESS_FUTURE_MS \<equiv> 2 * 24 * 3600 * 1000"

abbreviation LEAF_CTRL_FRESHNESS_PAST_MS :: nat where
  "LEAF_CTRL_FRESHNESS_PAST_MS \<equiv> 2 * 24 * 3600 * 1000"

definition saturating_sub_i64 :: "i64 \<Rightarrow> i64 \<Rightarrow> int" where
  "saturating_sub_i64 a b = max (- (2 ^ 63)) (min (2 ^ 63 - 1) (sint a - sint b))"

definition control_frame_freshness :: "i64 \<Rightarrow> i64 \<Rightarrow> nat \<Rightarrow> nat \<Rightarrow> freshness" where
  "control_frame_freshness signed_ms now_ms past_window_ms future_window_ms =
     (let delta = saturating_sub_i64 now_ms signed_ms in
      if 0 \<le> delta
      then (let age_ms = nat \<bar>delta\<bar> in
            if past_window_ms < age_ms then StaleFrame age_ms else FreshFrame)
      else (let skew_ms = nat \<bar>delta\<bar> in
            if future_window_ms < skew_ms then FromTheFuture skew_ms else FreshFrame))"

subsection \<open>Identity assertions\<close>

abbreviation ED25519_PUBLIC_KEY_LEN :: nat where
  "ED25519_PUBLIC_KEY_LEN \<equiv> 32"

abbreviation ED25519_SIGNATURE_LEN :: nat where
  "ED25519_SIGNATURE_LEN \<equiv> 64"

abbreviation IDENTITY_ASSERTION_MIN_LEN :: nat where
  "IDENTITY_ASSERTION_MIN_LEN \<equiv> 96"

record identity_assertion =
  ia_public_key :: bytes
  ia_signature :: bytes
  ia_signed_data :: bytes

definition encode_identity_assertion :: "bytes \<Rightarrow> bytes \<Rightarrow> bytes \<Rightarrow> sealed_error + bytes" where
  "encode_identity_assertion public_key signature signed_data =
     (if length public_key \<noteq> ED25519_PUBLIC_KEY_LEN then Inl (SeInvalidPublicKey (length public_key))
      else if length signature \<noteq> ED25519_SIGNATURE_LEN then Inl (SeSerialization ''Identity assertion signature'')
      else Inr (public_key @ signature @ signed_data))"

definition parse_identity_assertion :: "bytes \<Rightarrow> sealed_error + identity_assertion" where
  "parse_identity_assertion bs =
     (if length bs < IDENTITY_ASSERTION_MIN_LEN then Inl (SeDeserialization ''Identity assertion'')
      else (let public_key = take ED25519_PUBLIC_KEY_LEN bs;
                rest = drop ED25519_PUBLIC_KEY_LEN bs
            in Inr \<lparr>ia_public_key = public_key, ia_signature = take ED25519_SIGNATURE_LEN rest,
                    ia_signed_data = drop ED25519_SIGNATURE_LEN rest\<rparr>))"

subsection \<open>Session corroboration\<close>

record session_corroboration =
  sc_epoch :: u64
  sc_nonce :: bytes
  sc_tag :: bytes

definition corroboration_parse ::
  "(string \<Rightarrow> session_corroboration option) \<Rightarrow> string \<Rightarrow> session_corroboration option" where
  "corroboration_parse json_dec body = Option.bind (json_dec body)
     (\<lambda>parsed. if length (sc_nonce parsed) = 16 \<and> length (sc_tag parsed) = 16 then Some parsed else None)"

definition corroboration_to_body ::
  "(session_corroboration \<Rightarrow> string option) \<Rightarrow> session_corroboration \<Rightarrow> string option" where
  "corroboration_to_body json_enc v = json_enc v"

subsection \<open>Lemmas\<close>

lemma parse_identity_assertion_Inr:
  "parse_identity_assertion bs = Inr a \<longleftrightarrow>
     encode_identity_assertion (ia_public_key a) (ia_signature a) (ia_signed_data a) = Inr bs"
proof
  assume "parse_identity_assertion bs = Inr a"
  then show "encode_identity_assertion (ia_public_key a) (ia_signature a) (ia_signed_data a) = Inr bs"
    by (auto simp: parse_identity_assertion_def encode_identity_assertion_def Let_def take_drop_three split: if_splits)
next
  assume "encode_identity_assertion (ia_public_key a) (ia_signature a) (ia_signed_data a) = Inr bs"
  then show "parse_identity_assertion bs = Inr a"
    by (auto simp: parse_identity_assertion_def encode_identity_assertion_def split: if_splits)
qed

lemma sint_range: "- (2 ^ 63) \<le> sint (w :: i64)" "sint (w :: i64) < 2 ^ 63"
  using sint_greater_eq[of w] sint_less[of w] by simp_all

subsection \<open>Properties\<close>

text \<open>C17. The verdict on a frame's age is the one the true difference of the two clocks gives, for any
  stamp whatever, the extremes of \<open>i64\<close> included: fresh exactly when the stamp lies in the
  window around the verifier's clock, stale when it lies before it, from the future when after.\<close>

theorem freshness_exact:
  assumes "past < 2 ^ 63 - 1" "future < 2 ^ 63"
  shows "case control_frame_freshness stamp now past future of
      FreshFrame \<Rightarrow> - int future \<le> sint now - sint stamp \<and> sint now - sint stamp \<le> int past
    | StaleFrame age \<Rightarrow> int past < sint now - sint stamp \<and> int age = min (2 ^ 63 - 1) (sint now - sint stamp)
    | FromTheFuture skew \<Rightarrow> int future < sint stamp - sint now \<and> int skew = min (2 ^ 63) (sint stamp - sint now)"
proof -
  have "int past < 2 ^ 63 - 1" "int future < 2 ^ 63" using assms by simp_all
  then show ?thesis
    by (simp add: control_frame_freshness_def saturating_sub_i64_def Let_def split: if_splits) linarith+
qed

theorem freshness_exact_witness:
  "control_frame_freshness (- 1) 0x7FFFFFFFFFFFFFFF CTRL_FRESHNESS_PAST_MS CTRL_FRESHNESS_FUTURE_MS
     = StaleFrame 9223372036854775807
   \<and> int CTRL_FRESHNESS_PAST_MS < sint (0x7FFFFFFFFFFFFFFF :: i64) - sint (- 1 :: i64)"
proof -
  have v: "control_frame_freshness (- 1) 0x7FFFFFFFFFFFFFFF CTRL_FRESHNESS_PAST_MS CTRL_FRESHNESS_FUTURE_MS
     = StaleFrame 9223372036854775807" by code_simp
  have "CTRL_FRESHNESS_PAST_MS < 2 ^ 63 - 1" "CTRL_FRESHNESS_FUTURE_MS < 2 ^ 63" by simp_all
  from freshness_exact[OF this, where stamp = "- 1" and now = "0x7FFFFFFFFFFFFFFF", unfolded v freshness.case] v
  show ?thesis by blast
qed

text \<open>Parsing and encoding an identity assertion are inverse to each other: every assertion that
  parses is the encoding of its three fields, and every encoding parses to them, so an
  assertion has one reading.\<close>

lemma identity_assertion_roundtrip:
  "parse_identity_assertion bs = Inr a \<longleftrightarrow>
     encode_identity_assertion (ia_public_key a) (ia_signature a) (ia_signed_data a) = Inr bs"
  by (rule parse_identity_assertion_Inr)

end
