(* ===== verification/Envelope.thy ===== *)
theory Envelope
  imports Address
begin

text \<open>
  The compact binary form of an encrypted message
  (\<open>offline-protocol-sealed/src/envelope.rs\<close>, \<open>EncryptedMessage::to_bytes\<close>, \<open>from_bytes\<close>).

  The reader closures \<open>read_u32\<close>, \<open>read_u64\<close> and \<open>read_bytes\<close>, which move a position through the
  data, are functions from the bytes not yet read to what they read and the bytes after it.
\<close>

subsection \<open>Data\<close>

datatype mls_message_type = Application | Welcome | Commit | Proposal

fun mls_as_str :: "mls_message_type \<Rightarrow> string" where
  "mls_as_str Application = ''Application''"
| "mls_as_str Welcome = ''Welcome''"
| "mls_as_str Commit = ''Commit''"
| "mls_as_str Proposal = ''Proposal''"

definition mls_from_str_opt :: "string \<Rightarrow> mls_message_type option" where
  "mls_from_str_opt s =
     (if s = ''Application'' then Some Application else if s = ''Welcome'' then Some Welcome
      else if s = ''Commit'' then Some Commit else if s = ''Proposal'' then Some Proposal else None)"

fun mls_as_u8 :: "mls_message_type \<Rightarrow> u8" where
  "mls_as_u8 Application = 0"
| "mls_as_u8 Welcome = 1"
| "mls_as_u8 Commit = 2"
| "mls_as_u8 Proposal = 3"

definition mls_from_u8 :: "u8 \<Rightarrow> mls_message_type option" where
  "mls_from_u8 tag =
     (if tag = 0 then Some Application else if tag = 1 then Some Welcome
      else if tag = 2 then Some Commit else if tag = 3 then Some Proposal else None)"

record encrypted_message =
  em_group_id :: group_id
  em_message_type :: mls_message_type
  em_epoch :: u64
  em_ciphertext :: bytes
  em_sender_id :: string
  em_timestamp_ms :: u64

abbreviation MAX_CIPHERTEXT_LEN :: nat where
  "MAX_CIPHERTEXT_LEN \<equiv> 134217728"

subsection \<open>Codec\<close>

definition u32_le :: "nat \<Rightarrow> bytes" where
  "u32_le n = nat_le 4 n"

definition u64_le :: "u64 \<Rightarrow> bytes" where
  "u64_le v = nat_le 8 (unat v)"

definition em_to_bytes :: "encrypted_message \<Rightarrow> bytes" where
  "em_to_bytes e =
     u32_le (length (str_bytes (em_group_id e))) @ str_bytes (em_group_id e)
   @ u32_le (length (str_bytes (em_sender_id e))) @ str_bytes (em_sender_id e)
   @ [mls_as_u8 (em_message_type e)]
   @ u64_le (em_epoch e)
   @ u64_le (em_timestamp_ms e)
   @ u32_le (length (em_ciphertext e)) @ em_ciphertext e"

definition read_bytes :: "nat \<Rightarrow> bytes \<Rightarrow> sealed_error + (bytes \<times> bytes)" where
  "read_bytes n data = ok_or (SeDeserialization ''unexpected end of data reading bytes'') (split_at n data)"

definition read_u32 :: "bytes \<Rightarrow> sealed_error + (nat \<times> bytes)" where
  "read_u32 data = res_bind (ok_or (SeDeserialization ''unexpected end of data reading u32'') (split_at 4 data))
     (\<lambda>(b, rest). Inr (le_nat b, rest))"

definition read_u64 :: "bytes \<Rightarrow> sealed_error + (u64 \<times> bytes)" where
  "read_u64 data = res_bind (ok_or (SeDeserialization ''unexpected end of data reading u64'') (split_at 8 data))
     (\<lambda>(b, rest). Inr (of_nat (le_nat b), rest))"

definition read_string :: "bytes \<Rightarrow> sealed_error + (string \<times> bytes)" where
  "read_string data = res_bind (read_u32 data) (\<lambda>(n, data).
     if MAX_STRING_FIELD_LEN < n then Inl (SeDeserialization ''length exceeds maximum'')
     else res_bind (read_bytes n data) (\<lambda>(b, data).
       res_bind (ok_or (SeDeserialization ''invalid UTF-8'') (from_utf8 b)) (\<lambda>s. Inr (s, data))))"

definition read_message_type :: "bytes \<Rightarrow> sealed_error + (mls_message_type \<times> bytes)" where
  "read_message_type data = (case data of
       [] \<Rightarrow> Inl (SeDeserialization ''unexpected end of data reading message_type'')
     | tag # data \<Rightarrow> res_bind (ok_or (SeDeserialization ''unknown message_type tag'') (mls_from_u8 tag))
         (\<lambda>t. Inr (t, data)))"

definition em_from_bytes :: "bytes \<Rightarrow> sealed_error + encrypted_message" where
  "em_from_bytes data =
     res_bind (read_string data) (\<lambda>(group_id, data).
     res_bind (read_string data) (\<lambda>(sender_id, data).
     res_bind (read_message_type data) (\<lambda>(message_type, data).
     res_bind (read_u64 data) (\<lambda>(epoch, data).
     res_bind (read_u64 data) (\<lambda>(timestamp_ms, data).
     res_bind (read_u32 data) (\<lambda>(ciphertext_len, data).
     if MAX_CIPHERTEXT_LEN < ciphertext_len then Inl (SeDeserialization ''ciphertext_len exceeds maximum'')
     else res_bind (read_bytes ciphertext_len data) (\<lambda>(ciphertext, _).
     res_bind (GroupId_new group_id) (\<lambda>group_id.
     Inr \<lparr>em_group_id = group_id, em_message_type = message_type, em_epoch = epoch,
          em_ciphertext = ciphertext, em_sender_id = sender_id, em_timestamp_ms = timestamp_ms\<rparr>))))))))"

text \<open>The messages the format can carry.\<close>

definition em_ok :: "encrypted_message \<Rightarrow> bool" where
  "em_ok e \<longleftrightarrow> GroupId_new (em_group_id e) = Inr (em_group_id e) \<and> rust_str (em_group_id e)
     \<and> rust_str (em_sender_id e) \<and> length (em_sender_id e) \<le> MAX_STRING_FIELD_LEN
     \<and> length (em_ciphertext e) \<le> MAX_CIPHERTEXT_LEN"

definition em_example :: encrypted_message where
  "em_example = \<lparr>em_group_id = ''session:alice:bob'', em_message_type = Commit, em_epoch = 7,
     em_ciphertext = [1, 2, 3], em_sender_id = ''alice'', em_timestamp_ms = 9\<rparr>"

subsection \<open>Lemmas\<close>

lemma mls_u8_roundtrip [simp]: "mls_from_u8 (mls_as_u8 t) = Some t"
  by (cases t) (simp_all add: mls_from_u8_def)

lemma mls_str_roundtrip: "mls_from_str_opt (mls_as_str t) = Some t"
  by (cases t) (simp_all add: mls_from_str_opt_def)

lemma read_bytes_append: "length a = n \<Longrightarrow> read_bytes n (a @ r) = Inr (a, r)"
  by (simp add: read_bytes_def)

lemma read_u32_append: "n < 2 ^ 32 \<Longrightarrow> read_u32 (u32_le n @ r) = Inr (n, r)"
  by (simp add: read_u32_def u32_le_def le_nat_nat_le)

lemma read_u64_append: "read_u64 (u64_le v @ r) = Inr (v, r)"
proof -
  have "unat v < 256 ^ 8" using unsigned_less[of v, where 'a = nat] by simp
  then show ?thesis by (simp add: read_u64_def u64_le_def le_nat_nat_le)
qed

lemma read_string_append:
  "rust_str s \<Longrightarrow> length s \<le> MAX_STRING_FIELD_LEN \<Longrightarrow>
   read_string (u32_le (length s) @ str_bytes s @ r) = Inr (s, r)"
  by (simp add: read_string_def read_u32_append read_bytes_append from_utf8_str_bytes)

lemma read_message_type_append: "read_message_type ([mls_as_u8 t] @ r) = Inr (t, r)"
  by (simp add: read_message_type_def)

lemmas read_append = read_string_append read_message_type_append read_u64_append read_u32_append read_bytes_append

lemma em_roundtrip_trailing:
  assumes "em_ok e"
  shows "em_from_bytes (em_to_bytes e @ trailing) = Inr e"
proof -
  have "length (em_group_id e) \<le> MAX_STRING_FIELD_LEN" using assms by (simp add: em_ok_def GroupId_new_ok)
  then show ?thesis using assms unfolding em_ok_def em_from_bytes_def em_to_bytes_def append_assoc
    by (simp add: read_append del: append_Cons res_bind_Inr)
qed

interpretation emc: codec em_to_bytes "\<lambda>bs. case em_from_bytes bs of Inr e \<Rightarrow> Some e | Inl _ \<Rightarrow> None" em_ok
proof unfold_locales
  fix e
  assume "em_ok e"
  then show "(case em_from_bytes (em_to_bytes e) of Inr e \<Rightarrow> Some e | Inl _ \<Rightarrow> None) = Some e"
    using em_roundtrip_trailing[of e "[]"] by simp
qed

subsection \<open>Properties\<close>

text \<open>C18. Decoding the compact form of an encrypted message gives the message back, whatever bytes
  follow it, and different messages have different encodings.\<close>

theorem envelope_roundtrip:
  assumes "em_ok e"
  shows "em_from_bytes (em_to_bytes e @ trailing) = Inr e \<and> (em_ok e' \<longrightarrow> em_to_bytes e = em_to_bytes e' \<longrightarrow> e = e')"
  using em_roundtrip_trailing[OF assms] emc.enc_inj[OF assms] by blast

theorem envelope_roundtrip_witness: "em_from_bytes (em_to_bytes em_example @ [0]) = Inr em_example"
proof -
  have "em_ok em_example" by code_simp
  then show ?thesis using envelope_roundtrip by blast
qed

text \<open>The two encodings of an envelope cannot be confused: bytes that start like a JSON object with
  a field are refused by the compact decoder, whatever follows.\<close>

lemma json_never_compact: "\<exists>e. em_from_bytes (0x7B # 0x22 # rest) = Inl e"
proof (cases "4 \<le> length (0x7B # 0x22 # rest :: bytes)")
  case False
  then have "split_at 4 (0x7B # 0x22 # rest) = None" by (simp add: split_at_def)
  then show ?thesis by (simp add: em_from_bytes_def read_string_def read_u32_def)
next
  case True
  then obtain x y r where "rest = x # y # r" by (cases rest; cases "tl rest") auto
  then have "read_u32 (0x7B # 0x22 # rest) = Inr (0x227B + 256 * (256 * (unat x + 256 * unat y)), r)"
    by (simp add: read_u32_def split_at_def)
  then show ?thesis by (simp add: em_from_bytes_def read_string_def)
qed

end
