(* ===== verification/Membership.thy ===== *)
theory Membership
  imports Canonical Control_Frames
begin

text \<open>
  The byte layouts of application membership (\<open>offline-protocol-sealed/src/membership.rs\<close>).

  Every layout is a concatenation of fixed-size fields.  Each pair of an encoder and its decoder
  is an interpretation of \<open>codec\<close>; base64 and SHA-256 are parameters.
\<close>

subsection \<open>Labels\<close>

definition APP_KEY_INFO :: bytes where
  "APP_KEY_INFO = str_bytes ''offline-protocol-app-v1''"

definition MEMBER_HELLO_LABEL :: bytes where
  "MEMBER_HELLO_LABEL = str_bytes ''offline-app-member-hello-v1''"

definition MEMBER_EXCHANGE_INFO :: bytes where
  "MEMBER_EXCHANGE_INFO = str_bytes ''offline-app-member-exchange-v1''"

abbreviation MEMBER_NONCE_LEN :: nat where "MEMBER_NONCE_LEN \<equiv> 16"
abbreviation MEMBER_TAG_LEN :: nat where "MEMBER_TAG_LEN \<equiv> 16"
abbreviation MEMBER_CERT_LEN :: nat where "MEMBER_CERT_LEN \<equiv> 93"
abbreviation MEMBER_CREDENTIAL_LEN :: nat where "MEMBER_CREDENTIAL_LEN \<equiv> 157"
abbreviation MEMBER_SEALED_LEN :: nat where "MEMBER_SEALED_LEN \<equiv> 173"
abbreviation MEMBER_HELLO_LEN :: nat where "MEMBER_HELLO_LEN \<equiv> 32"
abbreviation MEMBER_PROOF_SALT_LEN :: nat where "MEMBER_PROOF_SALT_LEN \<equiv> 16"
abbreviation MEMBER_PROOF_LEN :: nat where "MEMBER_PROOF_LEN \<equiv> 189"

definition invalid :: "string \<Rightarrow> sealed_error" where
  "invalid what = SeDeserialization (''membership: '' @ what)"

definition app_key_info :: "string \<Rightarrow> bytes" where
  "app_key_info app_id = APP_KEY_INFO @ str_bytes app_id"

subsection \<open>Certificates and credentials\<close>

record member_cert =
  mc_address :: address
  mc_not_after :: u64
  mc_signature :: bytes

definition cert_signing_payload :: "address \<Rightarrow> u64 \<Rightarrow> bytes" where
  "cert_signing_payload addr not_after = MEMBER_CERT_DOMAIN @ address_payload addr @ nat_be 8 (unat not_after)"

definition cert_to_bytes :: "member_cert \<Rightarrow> bytes" where
  "cert_to_bytes c = address_payload (mc_address c) @ nat_be 8 (unat (mc_not_after c)) @ mc_signature c"

definition cert_from_bytes :: "bytes \<Rightarrow> sealed_error + member_cert" where
  "cert_from_bytes bs =
     (if length bs \<noteq> MEMBER_CERT_LEN then Inl (invalid ''certificate length'')
      else case address_from_payload (take ADDRESS_PAYLOAD_LEN bs) of
          Inl _ \<Rightarrow> Inl (invalid ''certificate address'')
        | Inr a \<Rightarrow> Inr \<lparr>mc_address = a,
            mc_not_after = of_nat (be_nat (take 8 (drop ADDRESS_PAYLOAD_LEN bs))),
            mc_signature = drop (ADDRESS_PAYLOAD_LEN + 8) bs\<rparr>)"

definition cert_is_current :: "member_cert \<Rightarrow> u64 \<Rightarrow> bool" where
  "cert_is_current c now = (now \<le> mc_not_after c)"

record member_credential =
  mr_cert :: member_cert
  mr_signature :: bytes

definition credential_to_bytes :: "member_credential \<Rightarrow> bytes" where
  "credential_to_bytes c = cert_to_bytes (mr_cert c) @ mr_signature c"

definition credential_from_bytes :: "bytes \<Rightarrow> sealed_error + member_credential" where
  "credential_from_bytes bs =
     (if length bs \<noteq> MEMBER_CREDENTIAL_LEN then Inl (invalid ''credential length'')
      else res_bind (cert_from_bytes (take MEMBER_CERT_LEN bs))
        (\<lambda>cert. Inr \<lparr>mr_cert = cert, mr_signature = drop MEMBER_CERT_LEN bs\<rparr>))"

subsection \<open>The exchange\<close>

record member_hello =
  mh_nonce :: bytes
  mh_tag :: bytes

definition hello_tag_input :: "bytes \<Rightarrow> address \<Rightarrow> address \<Rightarrow> bytes" where
  "hello_tag_input nonce_self addr_self addr_peer =
     MEMBER_HELLO_LABEL @ nonce_self @ address_payload addr_self @ address_payload addr_peer"

definition exchange_salt :: "address \<Rightarrow> bytes \<Rightarrow> address \<Rightarrow> bytes \<Rightarrow> sealed_error + bytes" where
  "exchange_salt a nonce_a b nonce_b =
     (if address_payload a < address_payload b then Inr (nonce_a @ nonce_b)
      else if address_payload b < address_payload a then Inr (nonce_b @ nonce_a)
      else Inl (invalid ''exchange with itself''))"

definition exchange_key_info :: "address \<Rightarrow> bytes" where
  "exchange_key_info sender = MEMBER_EXCHANGE_INFO @ address_payload sender"

definition transcript_signing_payload :: "address \<Rightarrow> bytes \<Rightarrow> address \<Rightarrow> bytes \<Rightarrow> bytes" where
  "transcript_signing_payload signer nonce_signer peer nonce_peer =
     MEMBER_TRANSCRIPT_DOMAIN @ address_payload signer @ address_payload peer @ nonce_signer @ nonce_peer"

datatype member_frame = MemberHello member_hello | MemberResponse bytes

definition member_frame_raw :: "member_frame \<Rightarrow> bytes" where
  "member_frame_raw f = (case f of
       MemberHello h \<Rightarrow> [1, 1] @ mh_nonce h @ mh_tag h
     | MemberResponse sealed \<Rightarrow> [1, 2] @ sealed)"

definition member_frame_to_body :: "(bytes \<Rightarrow> string) \<Rightarrow> member_frame \<Rightarrow> string" where
  "member_frame_to_body b64_enc f = b64_enc (member_frame_raw f)"

definition member_frame_from_raw :: "bytes \<Rightarrow> sealed_error + member_frame" where
  "member_frame_from_raw raw = (case raw of
       version # step # payload \<Rightarrow>
         if version \<noteq> 1 then Inl (invalid ''frame version'')
         else if step = 1 \<and> length payload = MEMBER_HELLO_LEN
         then Inr (MemberHello \<lparr>mh_nonce = take MEMBER_NONCE_LEN payload, mh_tag = drop MEMBER_NONCE_LEN payload\<rparr>)
         else if step = 2 \<and> length payload = MEMBER_SEALED_LEN then Inr (MemberResponse payload)
         else if step = 1 \<or> step = 2 then Inl (invalid ''frame payload length'')
         else Inl (invalid ''frame step'')
     | _ \<Rightarrow> Inl (invalid ''frame body too short''))"

definition member_frame_parse :: "(string \<Rightarrow> bytes option) \<Rightarrow> string \<Rightarrow> sealed_error + member_frame" where
  "member_frame_parse b64_dec body =
     (if ((2 + MEMBER_SEALED_LEN + 2) div 3) * 4 < length body then Inl (invalid ''frame body too long'')
      else res_bind (ok_or (invalid ''frame body is not base64'') (b64_dec body)) member_frame_from_raw)"

subsection \<open>End-to-end proofs\<close>

datatype proof_kind = PkKeyPackage | PkWelcome | PkGroupWelcome | PkDiscoveryQuery | PkDiscoveryResponse

fun proof_kind_u8 :: "proof_kind \<Rightarrow> u8" where
  "proof_kind_u8 PkKeyPackage = 1"
| "proof_kind_u8 PkWelcome = 2"
| "proof_kind_u8 PkGroupWelcome = 3"
| "proof_kind_u8 PkDiscoveryQuery = 4"
| "proof_kind_u8 PkDiscoveryResponse = 5"

definition e2e_recipient :: "address option \<Rightarrow> proof_kind \<Rightarrow> sealed_error + bytes" where
  "e2e_recipient recipient kind =
     (if kind = PkDiscoveryQuery
      then (case recipient of None \<Rightarrow> Inr (replicate ADDRESS_PAYLOAD_LEN 0)
            | Some _ \<Rightarrow> Inl (invalid ''a discovery query names no recipient''))
      else (case recipient of Some a \<Rightarrow> Inr (address_payload a)
            | None \<Rightarrow> Inl (invalid ''proof recipient missing'')))"

definition e2e_proof_signing_payload ::
  "(bytes \<Rightarrow> bytes) \<Rightarrow> address option \<Rightarrow> proof_kind \<Rightarrow> bytes \<Rightarrow> sealed_error + bytes" where
  "e2e_proof_signing_payload sha256 recipient kind frame_body =
     res_bind (e2e_recipient recipient kind)
       (\<lambda>r. Inr (MEMBER_E2E_DOMAIN @ r @ [proof_kind_u8 kind] @ sha256 frame_body))"

record member_proof =
  mp_salt :: bytes
  mp_sealed :: bytes

definition proof_to_bytes :: "member_proof \<Rightarrow> bytes" where
  "proof_to_bytes p = mp_salt p @ mp_sealed p"

definition proof_from_bytes :: "bytes \<Rightarrow> sealed_error + member_proof" where
  "proof_from_bytes bs =
     (if length bs \<noteq> MEMBER_PROOF_LEN then Inl (invalid ''proof length'')
      else Inr \<lparr>mp_salt = take MEMBER_PROOF_SALT_LEN bs, mp_sealed = drop MEMBER_PROOF_SALT_LEN bs\<rparr>)"

text \<open>A result seen as an option, for the interface of a codec.\<close>

definition res_opt :: "'e + 'a \<Rightarrow> 'a option" where
  "res_opt r = (case r of Inr a \<Rightarrow> Some a | Inl _ \<Rightarrow> None)"

text \<open>The sizes the fixed-length arrays of the code guarantee.\<close>

definition cert_ok :: "member_cert \<Rightarrow> bool" where
  "cert_ok c \<longleftrightarrow> address_ok (mc_address c) \<and> length (mc_signature c) = ED25519_SIGNATURE_LEN"

definition credential_ok :: "member_credential \<Rightarrow> bool" where
  "credential_ok c \<longleftrightarrow> cert_ok (mr_cert c) \<and> length (mr_signature c) = ED25519_SIGNATURE_LEN"

definition member_frame_ok :: "member_frame \<Rightarrow> bool" where
  "member_frame_ok f \<longleftrightarrow> (case f of
       MemberHello h \<Rightarrow> length (mh_nonce h) = MEMBER_NONCE_LEN \<and> length (mh_tag h) = MEMBER_TAG_LEN
     | MemberResponse s \<Rightarrow> length s = MEMBER_SEALED_LEN)"

definition proof_ok :: "member_proof \<Rightarrow> bool" where
  "proof_ok p \<longleftrightarrow> length (mp_salt p) = MEMBER_PROOF_SALT_LEN \<and> length (mp_sealed p) = MEMBER_SEALED_LEN"

subsection \<open>Lemmas\<close>

lemma address_payload_length [simp]: "length (address_payload a) = Suc (length a)"
  by (simp add: address_payload_def)

lemma address_payload_inj [simp]: "address_payload a = address_payload b \<longleftrightarrow> a = b"
  by (simp add: address_payload_def)

lemma be_u64_roundtrip [simp]: "(of_nat (be_nat (nat_be 8 (unat v))) :: u64) = v"
proof -
  have "unat v < 256 ^ 8" using unsigned_less[of v, where 'a = nat] by simp
  then show ?thesis by (simp add: be_nat_nat_be)
qed

lemma u64_be_roundtrip: "length b = 8 \<Longrightarrow> nat_be 8 (unat (of_nat (be_nat b) :: u64)) = b"
proof -
  assume b: "length b = 8"
  then have "be_nat b < 2 ^ 64" using le_nat_bound[of "rev b"] by (simp add: be_nat_def)
  then have "unat (of_nat (be_nat b) :: u64) = be_nat b"
    by (simp add: unsigned_of_nat take_bit_nat_eq_self)
  then show ?thesis using nat_be_be_nat[of b] b by simp
qed

lemma cert_roundtrip: "cert_ok c \<Longrightarrow> cert_from_bytes (cert_to_bytes c) = Inr c"
  by (simp add: cert_ok_def cert_from_bytes_def cert_to_bytes_def address_ok_def address_payload_roundtrip)

lemma cert_canonical:
  assumes "cert_from_bytes bs = Inr c"
  shows "cert_ok c \<and> cert_to_bytes c = bs"
proof -
  have len: "length bs = MEMBER_CERT_LEN" using assms by (auto simp: cert_from_bytes_def split: if_splits)
  then obtain a where a: "address_from_payload (take ADDRESS_PAYLOAD_LEN bs) = Inr a"
    and c: "c = \<lparr>mc_address = a, mc_not_after = of_nat (be_nat (take 8 (drop ADDRESS_PAYLOAD_LEN bs))),
      mc_signature = drop (ADDRESS_PAYLOAD_LEN + 8) bs\<rparr>"
    using assms by (auto simp: cert_from_bytes_def split: sum.splits)
  have "length (take 8 (drop ADDRESS_PAYLOAD_LEN bs)) = 8" using len by simp
  then have "cert_to_bytes c = take ADDRESS_PAYLOAD_LEN bs @ take 8 (drop ADDRESS_PAYLOAD_LEN bs) @ drop 29 bs"
    using a c u64_be_roundtrip by (simp add: cert_to_bytes_def address_from_payload_ok)
  then show ?thesis using a c len by (simp add: take_drop_three cert_ok_def address_from_payload_ok)
qed

lemma cert_length: "cert_ok c \<Longrightarrow> length (cert_to_bytes c) = MEMBER_CERT_LEN"
  by (simp add: cert_ok_def cert_to_bytes_def address_ok_def)

lemma credential_roundtrip: "credential_ok c \<Longrightarrow> credential_from_bytes (credential_to_bytes c) = Inr c"
  by (simp add: credential_ok_def credential_from_bytes_def credential_to_bytes_def cert_length cert_roundtrip)

lemma credential_canonical:
  "credential_from_bytes bs = Inr c \<Longrightarrow> credential_ok c \<and> credential_to_bytes c = bs"
  by (auto simp: credential_from_bytes_def credential_to_bytes_def credential_ok_def split: if_splits
      dest!: cert_canonical)

lemma member_frame_raw_roundtrip: "member_frame_ok f \<Longrightarrow> member_frame_from_raw (member_frame_raw f) = Inr f"
  by (cases f) (simp_all add: member_frame_ok_def member_frame_raw_def member_frame_from_raw_def)

lemma member_frame_canonical:
  "member_frame_from_raw bs = Inr f \<Longrightarrow> member_frame_ok f \<and> member_frame_raw f = bs"
  by (auto simp: member_frame_ok_def member_frame_raw_def member_frame_from_raw_def
      split: list.splits if_splits)

lemma proof_roundtrip: "proof_ok p \<Longrightarrow> proof_from_bytes (proof_to_bytes p) = Inr p"
  by (simp add: proof_ok_def proof_from_bytes_def proof_to_bytes_def)

lemma proof_canonical: "proof_from_bytes bs = Inr p \<Longrightarrow> proof_ok p \<and> proof_to_bytes p = bs"
  by (auto simp: proof_ok_def proof_from_bytes_def proof_to_bytes_def split: if_splits)

lemma res_opt_Inr [simp]: "res_opt (Inr a) = Some a"
  by (simp add: res_opt_def)

interpretation certc: codec cert_to_bytes "\<lambda>bs. res_opt (cert_from_bytes bs)" cert_ok
  by unfold_locales (simp add: cert_roundtrip)

interpretation credc: codec credential_to_bytes "\<lambda>bs. res_opt (credential_from_bytes bs)" credential_ok
  by unfold_locales (simp add: credential_roundtrip)

interpretation framec: codec member_frame_raw "\<lambda>bs. res_opt (member_frame_from_raw bs)" member_frame_ok
  by unfold_locales (simp add: member_frame_raw_roundtrip)

interpretation proofc: codec proof_to_bytes "\<lambda>bs. res_opt (proof_from_bytes bs)" proof_ok
  by unfold_locales (simp add: proof_roundtrip)

lemma member_domains:
  "MEMBER_CERT_DOMAIN \<in> set signing_domains" "MEMBER_TRANSCRIPT_DOMAIN \<in> set signing_domains"
  "MEMBER_E2E_DOMAIN \<in> set signing_domains"
  by (simp_all add: signing_domains_def)

lemma proof_kind_u8_inj: "proof_kind_u8 k = proof_kind_u8 l \<Longrightarrow> k = l"
  by (cases k; cases l) simp_all


subsection \<open>Properties\<close>

text \<open>C19. Certificates, credentials, exchange frames and proofs have one encoding each: a byte string
  decodes to a value exactly when it is the encoding of that value, so a layout of fixed-size
  fields has one parse and no two byte strings mean the same thing.\<close>

theorem membership_layouts_canonical:
  "(cert_from_bytes bs = Inr c \<longleftrightarrow> cert_ok c \<and> cert_to_bytes c = bs)
   \<and> (credential_from_bytes bs = Inr r \<longleftrightarrow> credential_ok r \<and> credential_to_bytes r = bs)
   \<and> (member_frame_from_raw bs = Inr f \<longleftrightarrow> member_frame_ok f \<and> member_frame_raw f = bs)
   \<and> (proof_from_bytes bs = Inr q \<longleftrightarrow> proof_ok q \<and> proof_to_bytes q = bs)"
  using cert_roundtrip cert_canonical credential_roundtrip credential_canonical
    member_frame_raw_roundtrip member_frame_canonical proof_roundtrip proof_canonical by blast

text \<open>Both ends of a membership exchange derive their keys from the same salt whichever hello
  arrived first, an exchange with oneself is refused, and the two directions never share a key
  derivation.\<close>

lemma exchange_agreement:
  "exchange_salt a na b nb = exchange_salt b nb a na
   \<and> ((\<exists>e. exchange_salt a na b nb = Inl e) \<longleftrightarrow> a = b)
   \<and> (exchange_key_info a = exchange_key_info b \<longleftrightarrow> a = b)"
proof -
  have "address_payload a < address_payload b \<or> address_payload b < address_payload a \<or> a = b"
    by (metis address_payload_inj linorder_neqE)
  then show ?thesis by (auto simp: exchange_salt_def exchange_key_info_def)
qed

text \<open>C20. An end-to-end proof binds its recipient, the kind of frame it is carried in and the digest
  of the frame's body: two proofs over the same bytes agree on all three, and the proof of a
  discovery query, which names no recipient, is a proof to nobody else.\<close>

theorem e2e_proof_binds:
  assumes "e2e_proof_signing_payload sha r k body = Inr p" "e2e_proof_signing_payload sha r' k' body' = Inr p"
    and "\<forall>a. r = Some a \<longrightarrow> address_ok a" "\<forall>a. r' = Some a \<longrightarrow> address_ok a"
  shows "r = r' \<and> k = k' \<and> sha body = sha body'"
proof -
  obtain x y where x: "e2e_recipient r k = Inr x" and y: "e2e_recipient r' k' = Inr y"
    and eq: "MEMBER_E2E_DOMAIN @ x @ [proof_kind_u8 k] @ sha body = MEMBER_E2E_DOMAIN @ y @ [proof_kind_u8 k'] @ sha body'"
    using assms(1,2) by (auto simp: e2e_proof_signing_payload_def)
  have len: "length x = ADDRESS_PAYLOAD_LEN" "length y = ADDRESS_PAYLOAD_LEN"
    using x y assms(3,4) by (auto simp: e2e_recipient_def address_ok_def split: if_splits option.splits)
  then have "x = y" and kb: "[proof_kind_u8 k] @ sha body = [proof_kind_u8 k'] @ sha body'"
    using eq by simp_all
  then have "k = k'" using proof_kind_u8_inj by simp
  moreover have "r = r'"
    using x y \<open>x = y\<close> \<open>k = k'\<close> by (auto simp: e2e_recipient_def split: if_splits option.splits)
  ultimately show ?thesis using kb by simp
qed

theorem e2e_proof_binds_witness:
  "e2e_proof_signing_payload (\<lambda>_. [9]) (Some (replicate 20 1)) PkWelcome []
     \<noteq> e2e_proof_signing_payload (\<lambda>_. [9]) None PkDiscoveryQuery []"
proof
  assume eq: "e2e_proof_signing_payload (\<lambda>_. [9]) (Some (replicate 20 1)) PkWelcome []
     = e2e_proof_signing_payload (\<lambda>_. [9]) None PkDiscoveryQuery []"
  obtain p where p: "e2e_proof_signing_payload (\<lambda>_. [9]) None PkDiscoveryQuery [] = Inr p"
    by (simp add: e2e_proof_signing_payload_def e2e_recipient_def)
  have "\<forall>a. Some (replicate 20 1) = Some a \<longrightarrow> address_ok a" by (simp add: address_ok_def)
  then have "PkWelcome = PkDiscoveryQuery"
    using e2e_proof_binds[OF trans[OF eq p] p] by blast
  then show False by simp
qed

end
