(* ===== verification/Stream_Framing.thy ===== *)
theory Stream_Framing
  imports Bytes
begin

text \<open>
  Framing of a peer stream (\<open>offline-protocol-transport/src/stream_framing.rs\<close>): the sender's
  length-prefixed frames and the receiving side of one direction of a stream.

  The verifier of the preamble (\<open>offline_protocol_mls::verify_identity_assertion\<close>, passed in by the
  host) is the parameter \<open>verify\<close>.  The loop of \<open>feed\<close> runs over the bytes not yet consumed and
  leaves the rest in the buffer.
\<close>

subsection \<open>Frames\<close>

abbreviation PEER_STREAM_LENGTH_PREFIX_LEN :: nat where
  "PEER_STREAM_LENGTH_PREFIX_LEN \<equiv> 4"

abbreviation PEER_STREAM_MAX_FRAME_BYTES :: nat where
  "PEER_STREAM_MAX_FRAME_BYTES \<equiv> 1048576"

abbreviation PEER_STREAM_PREAMBLE_FLOOR :: nat where
  "PEER_STREAM_PREAMBLE_FLOOR \<equiv> 96"

datatype frame_error = FrameEmpty | FrameTooLarge nat nat

definition stream_frame :: "bytes \<Rightarrow> frame_error + bytes" where
  "stream_frame body =
     (if body = [] then Inl FrameEmpty
      else if PEER_STREAM_MAX_FRAME_BYTES < length body
      then Inl (FrameTooLarge (length body) PEER_STREAM_MAX_FRAME_BYTES)
      else Inr (nat_be 4 (length body) @ body))"

subsection \<open>The reader\<close>

datatype close_reason =
    ZeroLength
  | OverCeiling nat
  | PreambleUnderFloor nat
  | PreambleRejected
  | AddressMismatch string string

datatype stream_event = Announced string | StreamMessage string bytes | Closed close_reason

record stream_reader =
  sr_expected :: "string option"
  sr_buffer :: bytes
  sr_announced :: "string option"
  sr_closed :: bool

definition reader_new :: stream_reader where
  "reader_new = \<lparr>sr_expected = None, sr_buffer = [], sr_announced = None, sr_closed = False\<rparr>"

definition reader_expecting :: "string \<Rightarrow> stream_reader \<Rightarrow> stream_reader" where
  "reader_expecting addr r = r\<lparr>sr_expected := Some addr\<rparr>"

definition refuse_prefix :: "stream_reader \<Rightarrow> nat \<Rightarrow> close_reason option" where
  "refuse_prefix r len =
     (if len = 0 then Some ZeroLength
      else if PEER_STREAM_MAX_FRAME_BYTES < len then Some (OverCeiling len)
      else if sr_announced r = None \<and> len < PEER_STREAM_PREAMBLE_FLOOR then Some (PreambleUnderFloor len)
      else None)"

definition stream_accept ::
  "(bytes \<Rightarrow> string option) \<Rightarrow> bytes \<Rightarrow> stream_reader \<Rightarrow> close_reason + (stream_event \<times> stream_reader)" where
  "stream_accept verify body r = (case sr_announced r of
       Some from \<Rightarrow> Inr (StreamMessage from body, r)
     | None \<Rightarrow> (case verify body of
           None \<Rightarrow> Inl PreambleRejected
         | Some derived \<Rightarrow> (case sr_expected r of
               Some expected \<Rightarrow>
                 if expected \<noteq> derived then Inl (AddressMismatch expected derived)
                 else Inr (Announced derived, r\<lparr>sr_announced := Some derived\<rparr>)
             | None \<Rightarrow> Inr (Announced derived, r\<lparr>sr_announced := Some derived\<rparr>))))"

definition stream_close :: "stream_reader \<Rightarrow> stream_reader" where
  "stream_close r = r\<lparr>sr_closed := True, sr_buffer := []\<rparr>"

function feed_loop ::
  "(bytes \<Rightarrow> string option) \<Rightarrow> stream_reader \<Rightarrow> bytes \<Rightarrow> stream_event list \<times> stream_reader" where
  "feed_loop verify r pending =
     (if length pending < PEER_STREAM_LENGTH_PREFIX_LEN then ([], r\<lparr>sr_buffer := pending\<rparr>)
      else (let len = be_nat (take PEER_STREAM_LENGTH_PREFIX_LEN pending);
                end_pos = PEER_STREAM_LENGTH_PREFIX_LEN + len
            in case refuse_prefix r len of
                 Some reason \<Rightarrow> ([Closed reason], stream_close r)
               | None \<Rightarrow>
                   if length pending < end_pos then ([], r\<lparr>sr_buffer := pending\<rparr>)
                   else (case stream_accept verify (drop PEER_STREAM_LENGTH_PREFIX_LEN (take end_pos pending)) r of
                           Inr (event, r') \<Rightarrow>
                             (case feed_loop verify r' (drop end_pos pending) of
                                (events, r'') \<Rightarrow> (event # events, r''))
                         | Inl reason \<Rightarrow> ([Closed reason], stream_close r))))"
  by pat_completeness auto
termination
  by (relation "measure (\<lambda>(verify, r, pending). length pending)") auto

definition stream_feed ::
  "(bytes \<Rightarrow> string option) \<Rightarrow> bytes \<Rightarrow> stream_reader \<Rightarrow> stream_event list \<times> stream_reader" where
  "stream_feed verify bs r = (if sr_closed r then ([], r) else feed_loop verify r (sr_buffer r @ bs))"

text \<open>The host's loop: one call per socket read.\<close>

fun feed_all ::
  "(bytes \<Rightarrow> string option) \<Rightarrow> bytes list \<Rightarrow> stream_reader \<Rightarrow> stream_event list \<times> stream_reader" where
  "feed_all verify [] r = ([], r)"
| "feed_all verify (chunk # chunks) r =
     (case stream_feed verify chunk r of (es, r') \<Rightarrow>
        (case feed_all verify chunks r' of (es', r'') \<Rightarrow> (es @ es', r'')))"

text \<open>What holds of a reader between calls: a buffer that holds no complete frame and passed its
  bounds, and an announced address that is the expected one where there is one.\<close>

definition reader_inv :: "stream_reader \<Rightarrow> bool" where
  "reader_inv r \<longleftrightarrow> length (sr_buffer r) < PEER_STREAM_LENGTH_PREFIX_LEN + PEER_STREAM_MAX_FRAME_BYTES
     \<and> (\<forall>a e. sr_announced r = Some a \<longrightarrow> sr_expected r = Some e \<longrightarrow> a = e)
     \<and> (sr_closed r \<longrightarrow> sr_buffer r = [])"

declare feed_loop.simps [simp del]

subsection \<open>One frame\<close>

lemma stream_frame_Inr:
  "stream_frame body = Inr f \<longleftrightarrow> body \<noteq> [] \<and> length body \<le> PEER_STREAM_MAX_FRAME_BYTES \<and> f = be_field body"
  by (auto simp: stream_frame_def be_field_def)

lemma feed_loop_short: "length p < 4 \<Longrightarrow> feed_loop V r p = ([], r\<lparr>sr_buffer := p\<rparr>)"
  by (subst feed_loop.simps) simp

lemma feed_loop_buffer [simp]: "feed_loop V (r\<lparr>sr_buffer := b\<rparr>) p = feed_loop V r p"
proof (induction "length p" arbitrary: p r rule: less_induct)
  case less
  have acc: "stream_accept V body (r\<lparr>sr_buffer := b\<rparr>) =
      map_sum id (\<lambda>(e, r'). (e, r'\<lparr>sr_buffer := b\<rparr>)) (stream_accept V body r)" for body
    by (auto simp: stream_accept_def split: option.splits)
  show ?case
    by (subst (1 2) feed_loop.simps)
       (auto simp: refuse_prefix_def stream_close_def acc less Let_def split: option.splits sum.splits prod.splits)
qed

text \<open>More bytes only add events: the loop over a longer input does what the loop over the shorter
  one did, and goes on from there.\<close>

lemma feed_loop_append:
  "sr_closed r = False \<Longrightarrow> feed_loop V r (p @ q) =
     (case feed_loop V r p of (es, r') \<Rightarrow>
        if sr_closed r' then (es, r')
        else (case feed_loop V r' (sr_buffer r' @ q) of (es', r'') \<Rightarrow> (es @ es', r'')))"
proof (induction V r p rule: feed_loop.induct)
  case (1 V r p)
  let ?len = "be_nat (take 4 p)"
  show ?case
  proof (cases "length p < 4")
    case True
    then show ?thesis using "1.prems" by (simp add: feed_loop_short)
  next
    case long: False
    then have len: "be_nat (take 4 (p @ q)) = ?len" by simp
    show ?thesis
    proof (cases "refuse_prefix r ?len")
      case (Some reason)
      then show ?thesis using long len
        by (subst (1 2) feed_loop.simps) (simp add: stream_close_def)
    next
      case None
      show ?thesis
      proof (cases "length p < 4 + ?len")
        case True
        then have "feed_loop V r p = ([], r\<lparr>sr_buffer := p\<rparr>)"
          using long None by (subst feed_loop.simps) simp
        then show ?thesis using "1.prems" by simp
      next
        case False
        then have body: "take (4 + ?len) (p @ q) = take (4 + ?len) p" "drop (4 + ?len) (p @ q) = drop (4 + ?len) p @ q"
          by simp_all
        show ?thesis
        proof (cases "stream_accept V (drop 4 (take (4 + ?len) p)) r")
          case (Inl reason)
          then show ?thesis using long None False len body
            by (subst (1 2) feed_loop.simps) (simp add: stream_close_def)
        next
          case (Inr er)
          obtain e r' where er: "er = (e, r')" by fastforce
          have "sr_closed r' = False" using Inr er "1.prems"
            by (auto simp: stream_accept_def split: option.splits if_splits)
          then have IH: "feed_loop V r' (drop (4 + ?len) p @ q) =
             (case feed_loop V r' (drop (4 + ?len) p) of (es, r'') \<Rightarrow>
                if sr_closed r'' then (es, r'')
                else (case feed_loop V r'' (sr_buffer r'' @ q) of (es', r3) \<Rightarrow> (es @ es', r3)))"
            using "1.IH" long None False Inr er by simp
          have p: "feed_loop V r p = (case feed_loop V r' (drop (4 + ?len) p) of (es, r'') \<Rightarrow> (e # es, r''))"
            using long None False Inr er by (subst feed_loop.simps) simp
          have "feed_loop V r (p @ q) = (case feed_loop V r' (drop (4 + ?len) p @ q) of (es, r'') \<Rightarrow> (e # es, r''))"
            using long None False Inr er len body by (subst feed_loop.simps) simp
          then show ?thesis using IH p by (auto split: prod.splits)
        qed
      qed
    qed
  qed
qed

subsection \<open>Any chunking of the same bytes\<close>

lemma stream_feed_append:
  "stream_feed V (a @ b) r =
     (case stream_feed V a r of (es, r') \<Rightarrow> (case stream_feed V b r' of (es', r'') \<Rightarrow> (es @ es', r'')))"
  using feed_loop_append[of r V "sr_buffer r @ a" b]
  by (auto simp: stream_feed_def split: prod.splits)

lemma feed_all_concat:
  "chunks \<noteq> [] \<Longrightarrow> feed_all V chunks r = stream_feed V (concat chunks) r"
proof (induction chunks arbitrary: r rule: list_nonempty_induct)
  case (single x)
  then show ?case by (simp split: prod.splits)
next
  case (cons x xs)
  then show ?case by (simp add: stream_feed_append)
qed

lemma stream_feed_nothing: "sr_buffer r = [] \<Longrightarrow> stream_feed V [] r = ([], r)"
  by (simp add: stream_feed_def feed_loop_short)

lemma feed_all_chunking:
  assumes "sr_buffer r = []"
  shows "feed_all V chunks r = stream_feed V (concat chunks) r"
proof (cases "chunks = []")
  case True
  then show ?thesis using stream_feed_nothing[OF assms] by simp
next
  case False
  then show ?thesis by (rule feed_all_concat)
qed

subsection \<open>Well-formed streams are delivered\<close>

lemma feed_loop_frame:
  assumes "body \<noteq> []" "length body \<le> PEER_STREAM_MAX_FRAME_BYTES"
    and "sr_announced r = None \<Longrightarrow> PEER_STREAM_PREAMBLE_FLOOR \<le> length body"
    and "stream_accept V body r = Inr (e, r')"
  shows "feed_loop V r (be_field body @ rest) = (case feed_loop V r' rest of (es, r'') \<Rightarrow> (e # es, r''))"
proof -
  have len: "be_nat (take 4 (be_field body @ rest)) = length body"
    using assms(2) by (simp add: be_field_def be_nat_nat_be)
  have ok: "refuse_prefix r (length body) = None"
    using assms(1-3) by (auto simp: refuse_prefix_def)
  show ?thesis
    by (subst feed_loop.simps) (simp only: len Let_def ok, simp add: be_field_def assms(4))
qed

lemma feed_loop_messages:
  assumes "sr_announced r = Some a"
    and "\<forall>b\<in>set bodies. b \<noteq> [] \<and> length b \<le> PEER_STREAM_MAX_FRAME_BYTES"
  shows "feed_loop V r (concat (map be_field bodies)) = (map (StreamMessage a) bodies, r\<lparr>sr_buffer := []\<rparr>)"
  using assms
proof (induction bodies)
  case Nil
  then show ?case by (simp add: feed_loop_short)
next
  case (Cons b bodies)
  have "stream_accept V b r = Inr (StreamMessage a b, r)" using Cons.prems by (simp add: stream_accept_def)
  then have "feed_loop V r (be_field b @ rest) = (case feed_loop V r rest of (es, r'') \<Rightarrow> (StreamMessage a b # es, r''))" for rest
    using Cons.prems by (intro feed_loop_frame) auto
  then show ?case using Cons.IH Cons.prems by simp
qed

subsection \<open>What an arbitrary stream can yield\<close>

text \<open>Induction over the rounds of the loop: it stops with an incomplete frame within the bounds, it
  closes, or it accepts one body and goes on.\<close>

lemma feed_loop_rounds:
  assumes stuck: "\<And>r p. length p < PEER_STREAM_LENGTH_PREFIX_LEN + PEER_STREAM_MAX_FRAME_BYTES \<Longrightarrow> P r p ([], r\<lparr>sr_buffer := p\<rparr>)"
    and closing: "\<And>r p reason. P r p ([Closed reason], stream_close r)"
    and step: "\<And>r body rest e r' es r''. stream_accept V body r = Inr (e, r') \<Longrightarrow> P r' rest (es, r'') \<Longrightarrow>
      P r (be_field body @ rest) (e # es, r'')"
  shows "P r p (feed_loop V r p)"
proof (induction "length p" arbitrary: p r rule: less_induct)
  case less
  let ?len = "be_nat (take 4 p)"
  let ?body = "drop 4 (take (4 + ?len) p)" and ?rest = "drop (4 + ?len) p"
  show ?case
  proof (cases "length p < 4 \<or> refuse_prefix r ?len \<noteq> None \<or> length p < 4 + ?len")
    case True
    then show ?thesis using stuck[of p r] closing
      by (subst feed_loop.simps) (auto simp: refuse_prefix_def split: if_splits)
  next
    case False
    then have run: "feed_loop V r p = (case stream_accept V ?body r of
        Inr (event, r') \<Rightarrow> (case feed_loop V r' ?rest of (es, r'') \<Rightarrow> (event # es, r''))
      | Inl reason \<Rightarrow> ([Closed reason], stream_close r))"
      by (subst feed_loop.simps) (auto simp: Let_def)
    show ?thesis
    proof (cases "stream_accept V ?body r")
      case (Inl reason)
      then show ?thesis unfolding run by (simp add: closing)
    next
      case (Inr er)
      obtain e r' where er: "er = (e, r')" by fastforce
      obtain es r'' where rest: "feed_loop V r' ?rest = (es, r'')" by fastforce
      have "length ?rest < length p" using False by auto
      then have "P r' ?rest (es, r'')" using less[of ?rest r'] rest by simp
      then have "P r (be_field ?body @ ?rest) (e # es, r'')" using Inr unfolding er by (rule step[rotated])
      moreover have "be_field ?body @ ?rest = p"
      proof -
        have l4: "length (take 4 p) = 4" using False by auto
        have "nat_be 4 ?len = take 4 p" using nat_be_be_nat[of "take 4 p"] unfolding l4 .
        moreover have "?body = take ?len (drop 4 p)" by (simp add: drop_take)
        moreover have "length ?body = ?len" using False by auto
        moreover have "take 4 p @ take ?len (drop 4 p) @ ?rest = p" by (rule take_drop_three) simp
        ultimately show ?thesis by (simp only: be_field_def append_assoc)
      qed
      ultimately show ?thesis unfolding run by (simp add: Inr er rest)
    qed
  qed
qed

lemma stream_accept_cases:
  assumes "stream_accept V body r = Inr (e, r')"
  obtains a where "sr_announced r = Some a" "e = StreamMessage a body" "r' = r"
  | a where "sr_announced r = None" "V body = Some a" "sr_expected r = None \<or> sr_expected r = Some a"
      "e = Announced a" "r' = r\<lparr>sr_announced := Some a\<rparr>"
  using assms by (auto simp: stream_accept_def split: option.splits if_splits)

lemma stream_accept_inv:
  "stream_accept V body r = Inr (e, r') \<Longrightarrow> reader_inv r \<Longrightarrow> reader_inv r' \<and> sr_closed r' = sr_closed r"
  by (erule stream_accept_cases) (auto simp: reader_inv_def)

lemma feed_loop_inv: "reader_inv r \<and> \<not> sr_closed r \<longrightarrow> reader_inv (snd (feed_loop V r p))"
proof (rule feed_loop_rounds[where P = "\<lambda>r p res. reader_inv r \<and> \<not> sr_closed r \<longrightarrow> reader_inv (snd res)"], goal_cases)
  case (1 r p)
  then show ?case by (simp add: reader_inv_def)
next
  case (2 r p reason)
  show ?case by (simp add: reader_inv_def stream_close_def)
next
  case (3 r body rest e r' es r'')
  then show ?case using stream_accept_inv[OF 3(1)] by simp
qed

interpretation srm: machine "\<lambda>chunk r. snd (stream_feed V chunk r)" "\<lambda>_ _. True" reader_inv for V
proof
  fix r chunk assume "reader_inv r"
  then show "reader_inv (snd (stream_feed V chunk r))"
    using feed_loop_inv[of r V "sr_buffer r @ chunk"] by (simp add: stream_feed_def)
qed

lemma feed_all_inv: "reader_inv r \<Longrightarrow> reader_inv (snd (feed_all V chunks r))"
proof -
  have "snd (feed_all V chunks r) = fold (\<lambda>chunk r. snd (stream_feed V chunk r)) chunks r"
    by (induction chunks arbitrary: r) (simp_all split: prod.splits, metis snd_conv)
  then show "reader_inv r \<Longrightarrow> reader_inv (snd (feed_all V chunks r))" using srm.run_inv by simp
qed

text \<open>How a run ends: with the rest of the input in the buffer, or with one close.\<close>

definition stream_tail :: "bytes \<Rightarrow> stream_event list \<Rightarrow> stream_reader \<Rightarrow> bool" where
  "stream_tail rest tail r =
     (tail = [] \<and> sr_buffer r = rest \<and> \<not> sr_closed r \<or> (\<exists>reason. tail = [Closed reason]) \<and> sr_closed r)"

definition stream_parse ::
  "(bytes \<Rightarrow> string option) \<Rightarrow> stream_reader \<Rightarrow> bytes \<Rightarrow> stream_event list \<Rightarrow> stream_reader \<Rightarrow> bool" where
  "stream_parse V r p es r' = (case sr_announced r of
       Some a \<Rightarrow> (\<exists>bodies rest tail. p = concat (map be_field bodies) @ rest \<and>
                   es = map (StreamMessage a) bodies @ tail \<and> stream_tail rest tail r')
     | None \<Rightarrow> stream_tail p es r' \<or>
         (\<exists>a preamble bodies rest tail. V preamble = Some a \<and> (sr_expected r = None \<or> sr_expected r = Some a) \<and>
            p = be_field preamble @ concat (map be_field bodies) @ rest \<and>
            es = Announced a # map (StreamMessage a) bodies @ tail \<and> stream_tail rest tail r'))"

lemma stream_parse_tail: "stream_tail p es r' \<Longrightarrow> stream_parse V r p es r'"
  unfolding stream_parse_def
  by (cases "sr_announced r") (simp_all, rule exI[of _ "[]"], simp)

lemma stream_parse_step:
  assumes "stream_accept V body r = Inr (e, r1)" "stream_parse V r1 rest es r'"
  shows "stream_parse V r (be_field body @ rest) (e # es) r'"
  using assms(1)
proof (rule stream_accept_cases)
  fix a assume r: "sr_announced r = Some a" "e = StreamMessage a body" "r1 = r"
  with assms(2) obtain bodies rest' tail where "rest = concat (map be_field bodies) @ rest'"
    "es = map (StreamMessage a) bodies @ tail" "stream_tail rest' tail r'" by (auto simp: stream_parse_def)
  then show ?thesis using r unfolding stream_parse_def
    by (simp, intro exI[of _ "body # bodies"] exI[of _ rest'] exI[of _ tail]) simp
next
  fix a assume r: "sr_announced r = None" "V body = Some a" "sr_expected r = None \<or> sr_expected r = Some a"
    "e = Announced a" "r1 = r\<lparr>sr_announced := Some a\<rparr>"
  with assms(2) obtain bodies rest' tail where "rest = concat (map be_field bodies) @ rest'"
    "es = map (StreamMessage a) bodies @ tail" "stream_tail rest' tail r'" by (auto simp: stream_parse_def)
  then show ?thesis using r unfolding stream_parse_def by auto
qed

lemma feed_loop_parse: "\<not> sr_closed r \<longrightarrow> stream_parse V r p (fst (feed_loop V r p)) (snd (feed_loop V r p))"
proof (rule feed_loop_rounds[where P = "\<lambda>r p res. \<not> sr_closed r \<longrightarrow> stream_parse V r p (fst res) (snd res)"], goal_cases)
  case (1 r p)
  show ?case by (simp add: stream_parse_tail stream_tail_def)
next
  case (2 r p reason)
  show ?case by (simp add: stream_parse_tail stream_tail_def stream_close_def)
next
  case (3 r body rest e r' es r'')
  have "sr_closed r' = sr_closed r" using 3(1) by (auto elim: stream_accept_cases)
  then show ?case using 3(2) stream_parse_step[OF 3(1), of rest es r''] by simp
qed

subsection \<open>Properties of the stream\<close>

text \<open>A reader as the host makes it: with or without an address it dialed.\<close>

definition reader_start :: "string option \<Rightarrow> stream_reader" where
  "reader_start dialed = (case dialed of None \<Rightarrow> reader_new | Some a \<Rightarrow> reader_expecting a reader_new)"

lemma reader_start_fields [simp]:
  "sr_buffer (reader_start d) = []" "sr_announced (reader_start d) = None"
  "sr_closed (reader_start d) = False" "sr_expected (reader_start d) = d"
  by (cases d; simp add: reader_start_def reader_new_def reader_expecting_def)+

lemma feed_all_start: "feed_all V chunks (reader_start d) = feed_loop V (reader_start d) (concat chunks)"
  by (simp add: feed_all_chunking stream_feed_def)

lemma frames_fields:
  "list_all2 (\<lambda>b f. stream_frame b = Inr f) bodies frames \<Longrightarrow>
     frames = map be_field bodies \<and> (\<forall>b\<in>set bodies. b \<noteq> [] \<and> length b \<le> PEER_STREAM_MAX_FRAME_BYTES)"
  by (induction rule: list_all2_induct) (auto simp: stream_frame_Inr)

text \<open>C21. Where the network cuts the stream does not matter: two sequences of reads of the same bytes
  give the same events in the same order and leave the reader in the same state, whatever the
  bytes are.\<close>

theorem stream_chunking_invariant:
  assumes "concat chunks = concat chunks'"
  shows "feed_all verify chunks (reader_start dialed) = feed_all verify chunks' (reader_start dialed)"
  using assms by (simp add: feed_all_start)

theorem stream_chunking_invariant_witness:
  "feed_all (\<lambda>_. None) [[0, 0], [0, 1, 7]] (reader_start None)
     = feed_all (\<lambda>_. None) [[0, 0, 0], [], [1, 7]] (reader_start None)
   \<and> fst (feed_all (\<lambda>_. None) [[0, 0], [0, 1, 7]] (reader_start None)) = [Closed (PreambleUnderFloor 1)]"
proof (rule conjI)
  show "feed_all (\<lambda>_. None) [[0, 0], [0, 1, 7]] (reader_start None)
     = feed_all (\<lambda>_. None) [[0, 0, 0], [], [1, 7]] (reader_start None)"
    by (rule stream_chunking_invariant) simp
  show "fst (feed_all (\<lambda>_. None) [[0, 0], [0, 1, 7]] (reader_start None)) = [Closed (PreambleUnderFloor 1)]"
    by code_simp
qed

text \<open>C2. Delivery: if the sender frames a preamble that verifies (to the dialed address, where there is
  one) and then any bodies, the receiver announces that address and yields exactly those bodies in
  order, attributed to it, however the bytes are cut into reads; it stays open with nothing buffered.\<close>

theorem stream_delivery:
  assumes "stream_frame preamble = Inr hello" "PEER_STREAM_PREAMBLE_FLOOR \<le> length preamble"
    and "verify preamble = Some addr" "dialed = None \<or> dialed = Some addr"
    and "list_all2 (\<lambda>b f. stream_frame b = Inr f) bodies frames"
    and "concat chunks = hello @ concat frames"
  shows "feed_all verify chunks (reader_start dialed) =
    (Announced addr # map (StreamMessage addr) bodies, (reader_start dialed)\<lparr>sr_announced := Some addr\<rparr>)"
proof -
  let ?r = "(reader_start dialed)\<lparr>sr_announced := Some addr\<rparr>"
  have "stream_accept verify preamble (reader_start dialed) = Inr (Announced addr, ?r)"
    using assms(3,4) by (auto simp: stream_accept_def)
  then have "feed_loop verify (reader_start dialed) (be_field preamble @ rest) =
      (case feed_loop verify ?r rest of (es, r'') \<Rightarrow> (Announced addr # es, r''))" for rest
    using assms(1,2) by (intro feed_loop_frame) (auto simp: stream_frame_Inr)
  moreover have "feed_loop verify ?r (concat frames) = (map (StreamMessage addr) bodies, ?r\<lparr>sr_buffer := []\<rparr>)"
    using feed_loop_messages[of ?r addr bodies verify] frames_fields[OF assms(5)] by simp
  moreover have "?r\<lparr>sr_buffer := []\<rparr> = ?r" by (simp add: stream_reader.defs)
  ultimately show ?thesis using assms(1,6) by (simp add: feed_all_start stream_frame_Inr)
qed

theorem stream_delivery_witness:
  "feed_all (\<lambda>b. if length b = 96 then Some ''alice'' else None)
     [[0, 0, 0], 96 # replicate 96 65 @ [0], [0, 0, 2, 7], [9, 0, 0, 0, 1, 5]] (reader_start (Some ''alice'')) =
   ([Announced ''alice'', StreamMessage ''alice'' [7, 9], StreamMessage ''alice'' [5]],
    (reader_start (Some ''alice''))\<lparr>sr_announced := Some ''alice''\<rparr>)"
proof -
  have h: "stream_frame (replicate 96 65) = Inr ([0, 0, 0, 96] @ replicate 96 65)"
    and b1: "stream_frame [7, 9] = Inr [0, 0, 0, 2, 7, 9]" and b2: "stream_frame [5] = Inr [0, 0, 0, 1, 5]"
    by code_simp+
  have "feed_all (\<lambda>b. if length b = 96 then Some ''alice'' else None)
     [[0, 0, 0], 96 # replicate 96 65 @ [0], [0, 0, 2, 7], [9, 0, 0, 0, 1, 5]] (reader_start (Some ''alice'')) =
   (Announced ''alice'' # map (StreamMessage ''alice'') [[7, 9], [5]],
    (reader_start (Some ''alice''))\<lparr>sr_announced := Some ''alice''\<rparr>)"
    by (rule stream_delivery[OF h, where frames = "[[0, 0, 0, 2, 7, 9], [0, 0, 0, 1, 5]]"])
       (simp_all add: b1 b2)
  then show ?thesis by simp
qed

text \<open>Soundness on arbitrary bytes: whatever a peer sends and however it is cut, the events are one of
  these: nothing, with the bytes buffered; a single close; or an announcement of an address the
  verifier derived from the first frame (the dialed address, where there is one), then the bodies of
  the frames that follow it, in order and attributed to that address, then at most one close, which
  ends the stream.  The buffer never reaches one maximal frame.\<close>

lemma stream_soundness:
  "case feed_all verify chunks (reader_start dialed) of (es, r) \<Rightarrow>
     (stream_tail (concat chunks) es r \<or>
      (\<exists>addr preamble bodies rest tail. verify preamble = Some addr \<and> (dialed = None \<or> dialed = Some addr) \<and>
         concat chunks = be_field preamble @ concat (map be_field bodies) @ rest \<and>
         es = Announced addr # map (StreamMessage addr) bodies @ tail \<and> stream_tail rest tail r)) \<and>
     length (sr_buffer r) < PEER_STREAM_LENGTH_PREFIX_LEN + PEER_STREAM_MAX_FRAME_BYTES"
proof -
  obtain es r where run: "feed_loop verify (reader_start dialed) (concat chunks) = (es, r)" by fastforce
  have "reader_inv (reader_start dialed)" by (simp add: reader_inv_def)
  then have "reader_inv r" using feed_all_inv[of "reader_start dialed" verify chunks] run by (simp add: feed_all_start)
  then show ?thesis
    using feed_loop_parse[of "reader_start dialed" verify "concat chunks"]
    by (simp add: feed_all_start run stream_parse_def reader_inv_def)
qed

end
