(* ===== verification/Dedup.thy ===== *)
theory Dedup
  imports Prelude "HOL-Library.Char_ord" "HOL-Library.List_Lexorder" "HOL-Library.Product_Lexorder"
begin

text \<open>
  The deduplicator (\<open>offline-protocol-reliability/src/deduplicator.rs\<close>): the exact seen set with its
  eviction, export and import, and the rotating Bloom filter of the other mode.

  A message id enters as the string \<open>MessageId::as_str\<close> renders; a clock reading is an argument of the
  operation that takes it.  \<open>rng\<close> says which instants chrono can represent; an operation that chrono
  would make panic (a retention or a cutoff out of range) gives \<open>None\<close>.  \<open>usize\<close> has 64 bits.
\<close>

unbundle bit_operations_syntax

subsection \<open>Configuration\<close>

record dedup_config =
  dc_max_tracked_messages :: nat
  dc_retention_time_secs :: nat
  dc_use_bloom_filter :: bool
  dc_bloom_filter_bits :: nat
  dc_bloom_hash_count :: nat
  dc_bloom_filter_count :: nat
  dc_bloom_rotation_secs :: nat

definition dedup_config_default :: dedup_config where
  "dedup_config_default = \<lparr>
     dc_max_tracked_messages = 5000, dc_retention_time_secs = 604800000 div 1000,
     dc_use_bloom_filter = False, dc_bloom_filter_bits = 1048576, dc_bloom_hash_count = 7,
     dc_bloom_filter_count = 4, dc_bloom_rotation_secs = 900\<rparr>"

subsection \<open>Bloom filters\<close>

record bloom_filter =
  bf_bits :: "u64 list"
  bf_bit_count :: nat
  bf_hash_count :: nat
  bf_items_added :: nat

definition bf_new :: "nat \<Rightarrow> nat \<Rightarrow> bloom_filter" where
  "bf_new bit_count hash_count = \<lparr>
     bf_bits = replicate ((bit_count + 63) div 64) 0, bf_bit_count = bit_count,
     bf_hash_count = hash_count, bf_items_added = 0\<rparr>"

definition fnv1a_hash_seeded :: "bytes \<Rightarrow> u64 \<Rightarrow> u64" where
  "fnv1a_hash_seeded data seed = foldl (\<lambda>hash byte. (hash XOR ucast byte) * 0x100000001b3) seed data"

definition fnv1a_hash :: "bytes \<Rightarrow> u64" where
  "fnv1a_hash data = fnv1a_hash_seeded data 0xcbf29ce484222325"

definition item_bytes :: "string \<Rightarrow> bytes" where
  "item_bytes s = map (\<lambda>c. of_nat (of_char c)) s"

definition bf_hashes :: "string \<Rightarrow> bloom_filter \<Rightarrow> nat list" where
  "bf_hashes item bf =
     (let h1 = fnv1a_hash (item_bytes item);
          h2 = fnv1a_hash_seeded (item_bytes item) 0x5f356495 OR 1
      in map (\<lambda>i. unat (h1 + of_nat i * h2) mod bf_bit_count bf) [0..<bf_hash_count bf])"

definition set_bit_at :: "nat \<Rightarrow> u64 list \<Rightarrow> u64 list" where
  "set_bit_at bit_index bits =
     bits[bit_index div 64 := bits ! (bit_index div 64) OR push_bit (bit_index mod 64) 1]"

definition bf_insert :: "string \<Rightarrow> bloom_filter \<Rightarrow> bloom_filter" where
  "bf_insert item bf = bf\<lparr>bf_bits := fold set_bit_at (bf_hashes item bf) (bf_bits bf),
                          bf_items_added := bf_items_added bf + 1\<rparr>"

definition bf_contains :: "string \<Rightarrow> bloom_filter \<Rightarrow> bool" where
  "bf_contains item bf =
     list_all (\<lambda>bit_index. bf_bits bf ! (bit_index div 64) AND push_bit (bit_index mod 64) 1 \<noteq> 0)
       (bf_hashes item bf)"

definition bf_clear :: "bloom_filter \<Rightarrow> bloom_filter" where
  "bf_clear bf = bf\<lparr>bf_bits := map (\<lambda>_. 0) (bf_bits bf), bf_items_added := 0\<rparr>"

subsection \<open>The rotating filter\<close>

record rotating_bloom =
  rb_filters :: "bloom_filter list"
  rb_current_index :: nat
  rb_last_rotation :: datetime
  rb_rotation_interval_secs :: nat

definition rb_new :: "nat \<Rightarrow> nat \<Rightarrow> nat \<Rightarrow> nat \<Rightarrow> datetime \<Rightarrow> rotating_bloom" where
  "rb_new filter_count bit_count hash_count rotation_secs now = \<lparr>
     rb_filters = map (\<lambda>_. bf_new bit_count hash_count) [0..<filter_count],
     rb_current_index = 0, rb_last_rotation = now, rb_rotation_interval_secs = rotation_secs\<rparr>"

definition num_seconds :: "int \<Rightarrow> int" where
  "num_seconds d = (if 0 \<le> d then d div 1000000000 else - ((- d) div 1000000000))"

definition rb_maybe_rotate :: "datetime \<Rightarrow> rotating_bloom \<Rightarrow> rotating_bloom" where
  "rb_maybe_rotate now rb =
     (if u64_as_i64 (rb_rotation_interval_secs rb) \<le> num_seconds (now - rb_last_rotation rb)
      then (let i = (rb_current_index rb + 1) mod length (rb_filters rb) in
            rb\<lparr>rb_current_index := i,
               rb_filters := (rb_filters rb)[i := bf_clear (rb_filters rb ! i)],
               rb_last_rotation := now\<rparr>)
      else rb)"

definition rb_insert :: "datetime \<Rightarrow> string \<Rightarrow> rotating_bloom \<Rightarrow> rotating_bloom" where
  "rb_insert now item rb0 =
     (let rb = rb_maybe_rotate now rb0; i = rb_current_index rb in
      rb\<lparr>rb_filters := (rb_filters rb)[i := bf_insert item (rb_filters rb ! i)]\<rparr>)"

definition rb_any :: "string \<Rightarrow> rotating_bloom \<Rightarrow> bool" where
  "rb_any item rb = list_ex (bf_contains item) (rb_filters rb)"

definition rb_contains :: "datetime \<Rightarrow> string \<Rightarrow> rotating_bloom \<Rightarrow> bool \<times> rotating_bloom" where
  "rb_contains now item rb0 = (let rb = rb_maybe_rotate now rb0 in (rb_any item rb, rb))"

definition rb_total_items :: "rotating_bloom \<Rightarrow> nat" where
  "rb_total_items rb = sum_list (map bf_items_added (rb_filters rb))"

definition rb_clear :: "datetime \<Rightarrow> rotating_bloom \<Rightarrow> rotating_bloom" where
  "rb_clear now rb = rb\<lparr>rb_filters := map bf_clear (rb_filters rb), rb_current_index := 0, rb_last_rotation := now\<rparr>"

subsection \<open>The deduplicator\<close>

record seen_id =
  si_id :: string
  si_seen_at_ms :: int

record seen_entry =
  se_seen_at :: datetime
  se_last_accessed :: datetime
  se_exportable :: bool

record deduplicator =
  dd_config :: dedup_config
  dd_seen_messages :: "(string, seen_entry) hashmap"
  dd_bloom_filter :: "rotating_bloom option"

definition dd_with_config :: "datetime \<Rightarrow> dedup_config \<Rightarrow> deduplicator" where
  "dd_with_config now config =
     (let valid_bloom_config = 0 < dc_bloom_filter_bits config \<and> 0 < dc_bloom_hash_count config \<and>
            0 < dc_bloom_filter_count config \<and> 0 < dc_bloom_rotation_secs config
      in \<lparr>dd_config = config, dd_seen_messages = [],
          dd_bloom_filter =
            (if dc_use_bloom_filter config \<and> valid_bloom_config
             then Some (rb_new (dc_bloom_filter_count config) (dc_bloom_filter_bits config)
                          (dc_bloom_hash_count config) (dc_bloom_rotation_secs config) now)
             else None)\<rparr>)"

text \<open>\<open>Utc::now() - chrono::Duration::seconds(retention as i64)\<close>.\<close>

definition dd_cutoff :: "(datetime \<Rightarrow> bool) \<Rightarrow> dedup_config \<Rightarrow> datetime \<Rightarrow> datetime option" where
  "dd_cutoff rng config now =
     (let s = u64_as_i64 (dc_retention_time_secs config); c = now - s * 1000000000 in
      if \<bar>s\<bar> \<le> 9223372036854775 \<and> rng c then Some c else None)"

definition newest_first :: "string \<times> seen_entry \<Rightarrow> int \<times> string" where
  "newest_first p = (- se_seen_at (snd p), fst p)"

definition dd_reconfigure ::
  "(datetime \<Rightarrow> bool) \<Rightarrow> datetime \<Rightarrow> datetime \<Rightarrow> dedup_config \<Rightarrow> deduplicator \<Rightarrow> deduplicator option" where
  "dd_reconfigure rng created now config d0 =
     (let previous = dd_seen_messages d0; was_exact = (dd_bloom_filter d0 = None);
          d = dd_with_config created config
      in if \<not> was_exact \<or> dd_bloom_filter d \<noteq> None then Some d
         else (case dd_cutoff rng config now of
                 None \<Rightarrow> None
               | Some cutoff \<Rightarrow>
                   let entries = sort_key newest_first (filter (\<lambda>p. cutoff < se_seen_at (snd p)) previous)
                   in Some (d\<lparr>dd_seen_messages :=
                        fold (\<lambda>(k, v). hm_insert k v) (take (dc_max_tracked_messages config) entries) []\<rparr>)))"

definition dd_is_duplicate :: "string \<Rightarrow> deduplicator \<Rightarrow> bool" where
  "dd_is_duplicate msg_id_str d = (case dd_bloom_filter d of
       Some bloom \<Rightarrow> rb_any msg_id_str bloom
     | None \<Rightarrow> hm_contains msg_id_str (dd_seen_messages d))"

definition dd_is_duplicate_mut :: "datetime \<Rightarrow> string \<Rightarrow> deduplicator \<Rightarrow> bool \<times> deduplicator" where
  "dd_is_duplicate_mut now msg_id_str d = (case dd_bloom_filter d of
       Some bloom \<Rightarrow> (case rb_contains now msg_id_str bloom of (found, bloom') \<Rightarrow>
                        (found, d\<lparr>dd_bloom_filter := Some bloom'\<rparr>))
     | None \<Rightarrow> (case map_of (dd_seen_messages d) msg_id_str of
           Some entry \<Rightarrow> (True, d\<lparr>dd_seen_messages :=
             hm_insert msg_id_str (entry\<lparr>se_last_accessed := now\<rparr>) (dd_seen_messages d)\<rparr>)
         | None \<Rightarrow> (False, d)))"

definition dd_cleanup_expired ::
  "(datetime \<Rightarrow> bool) \<Rightarrow> datetime \<Rightarrow> deduplicator \<Rightarrow> (nat \<times> deduplicator) option" where
  "dd_cleanup_expired rng now d = (case dd_bloom_filter d of
       Some _ \<Rightarrow> Some (0, d)
     | None \<Rightarrow> (case dd_cutoff rng (dd_config d) now of
           None \<Rightarrow> None
         | Some cutoff \<Rightarrow>
             let seen = hm_retain (\<lambda>_ entry. cutoff < se_seen_at entry) (dd_seen_messages d)
             in Some (length (dd_seen_messages d) - length seen, d\<lparr>dd_seen_messages := seen\<rparr>)))"

definition eviction_key :: "string \<times> seen_entry \<Rightarrow> bool \<times> datetime" where
  "eviction_key p = (se_exportable (snd p), se_last_accessed (snd p))"

definition dd_evict_lru :: "deduplicator \<Rightarrow> deduplicator" where
  "dd_evict_lru d = (case min_on eviction_key (dd_seen_messages d) of
       Some (lru_id, _) \<Rightarrow> d\<lparr>dd_seen_messages := hm_remove lru_id (dd_seen_messages d)\<rparr>
     | None \<Rightarrow> d)"

definition dd_at_cap :: "deduplicator \<Rightarrow> bool" where
  "dd_at_cap d = (dc_max_tracked_messages (dd_config d) \<le> length (dd_seen_messages d))"

definition dd_make_room :: "(datetime \<Rightarrow> bool) \<Rightarrow> datetime \<Rightarrow> deduplicator \<Rightarrow> deduplicator option" where
  "dd_make_room rng now d =
     (if dd_at_cap d
      then map_option (\<lambda>(_, d'). if dd_at_cap d' then dd_evict_lru d' else d') (dd_cleanup_expired rng now d)
      else Some d)"

text \<open>\<open>mark_seen_with\<close> reads the clock for the look-up or the cleanup and again for the insertion.\<close>

definition dd_mark_seen_with ::
  "(datetime \<Rightarrow> bool) \<Rightarrow> datetime \<Rightarrow> datetime \<Rightarrow> string \<Rightarrow> bool \<Rightarrow> deduplicator \<Rightarrow> (bool \<times> deduplicator) option" where
  "dd_mark_seen_with rng now now' msg_id_str exportable d = (case dd_bloom_filter d of
       Some bloom \<Rightarrow> (case rb_contains now msg_id_str bloom of (found, bloom') \<Rightarrow>
           if found then Some (False, d\<lparr>dd_bloom_filter := Some bloom'\<rparr>)
           else Some (True, d\<lparr>dd_bloom_filter := Some (rb_insert now' msg_id_str bloom')\<rparr>))
     | None \<Rightarrow>
         if hm_contains msg_id_str (dd_seen_messages d) then Some (False, d)
         else map_option (\<lambda>d'. (True, d'\<lparr>dd_seen_messages := hm_insert msg_id_str
                \<lparr>se_seen_at = now', se_last_accessed = now', se_exportable = exportable\<rparr> (dd_seen_messages d')\<rparr>))
              (dd_make_room rng now d))"

definition dd_mark_seen where
  "dd_mark_seen rng now now' msg_id_str d = dd_mark_seen_with rng now now' msg_id_str True d"

definition dd_mark_seen_local where
  "dd_mark_seen_local rng now now' msg_id_str d = dd_mark_seen_with rng now now' msg_id_str False d"

definition dd_unmark_seen :: "string \<Rightarrow> deduplicator \<Rightarrow> bool \<times> deduplicator" where
  "dd_unmark_seen msg_id_str d =
     (if dd_bloom_filter d \<noteq> None then (False, d)
      else (hm_contains msg_id_str (dd_seen_messages d),
            d\<lparr>dd_seen_messages := hm_remove msg_id_str (dd_seen_messages d)\<rparr>))"

definition timestamp_millis :: "datetime \<Rightarrow> int" where
  "timestamp_millis t = t div 1000000"

definition newest_id_first :: "seen_id \<Rightarrow> int \<times> string" where
  "newest_id_first s = (- si_seen_at_ms s, si_id s)"

definition dd_export_seen :: "nat \<Rightarrow> deduplicator \<Rightarrow> seen_id list" where
  "dd_export_seen max_ids d =
     (if dd_bloom_filter d \<noteq> None then []
      else take max_ids (sort_key newest_id_first
        (map (\<lambda>(k, e). \<lparr>si_id = k, si_seen_at_ms = timestamp_millis (se_seen_at e)\<rparr>)
          (filter (\<lambda>(_, e). se_exportable e) (dd_seen_messages d)))))"

definition from_timestamp_millis :: "(datetime \<Rightarrow> bool) \<Rightarrow> int \<Rightarrow> datetime option" where
  "from_timestamp_millis rng ms = (if rng (ms * 1000000) then Some (ms * 1000000) else None)"

fun dd_import_loop ::
  "(datetime \<Rightarrow> bool) \<Rightarrow> datetime \<Rightarrow> seen_id list \<Rightarrow> nat \<Rightarrow> deduplicator \<Rightarrow> nat \<times> deduplicator" where
  "dd_import_loop rng cutoff [] imported d = (imported, d)"
| "dd_import_loop rng cutoff (entry # entries) imported d =
     (if dd_at_cap d then (imported, d)
      else (case from_timestamp_millis rng (si_seen_at_ms entry) of
              None \<Rightarrow> dd_import_loop rng cutoff entries imported d
            | Some seen_at \<Rightarrow>
                if seen_at \<le> cutoff \<or> hm_contains (si_id entry) (dd_seen_messages d)
                then dd_import_loop rng cutoff entries imported d
                else dd_import_loop rng cutoff entries (imported + 1)
                  (d\<lparr>dd_seen_messages := hm_insert (si_id entry)
                     \<lparr>se_seen_at = seen_at, se_last_accessed = seen_at, se_exportable = True\<rparr>
                     (dd_seen_messages d)\<rparr>)))"

definition dd_import_seen ::
  "(datetime \<Rightarrow> bool) \<Rightarrow> seen_id list \<Rightarrow> datetime \<Rightarrow> deduplicator \<Rightarrow> (nat \<times> deduplicator) option" where
  "dd_import_seen rng entries now d =
     (if dd_bloom_filter d \<noteq> None then Some (0, d)
      else map_option (\<lambda>cutoff. dd_import_loop rng cutoff entries 0 d) (dd_cutoff rng (dd_config d) now))"

definition dd_tracked_count :: "deduplicator \<Rightarrow> nat" where
  "dd_tracked_count d = (case dd_bloom_filter d of
       Some bloom \<Rightarrow> rb_total_items bloom
     | None \<Rightarrow> length (dd_seen_messages d))"

definition dd_clear :: "datetime \<Rightarrow> deduplicator \<Rightarrow> deduplicator" where
  "dd_clear now d = d\<lparr>dd_bloom_filter := map_option (rb_clear now) (dd_bloom_filter d), dd_seen_messages := []\<rparr>"

subsection \<open>The deduplicator as a machine\<close>

datatype dd_op =
    DMark datetime datetime string bool
  | DCheck datetime string
  | DUnmark string
  | DCleanup datetime
  | DImport "seen_id list" datetime
  | DReconfigure datetime datetime dedup_config
  | DClear datetime

fun dd_exec :: "(datetime \<Rightarrow> bool) \<Rightarrow> dd_op \<Rightarrow> deduplicator \<Rightarrow> deduplicator option" where
  "dd_exec rng (DMark now now' x e) d = map_option snd (dd_mark_seen_with rng now now' x e d)"
| "dd_exec rng (DCheck now x) d = Some (snd (dd_is_duplicate_mut now x d))"
| "dd_exec rng (DUnmark x) d = Some (snd (dd_unmark_seen x d))"
| "dd_exec rng (DCleanup now) d = map_option snd (dd_cleanup_expired rng now d)"
| "dd_exec rng (DImport entries now) d = map_option snd (dd_import_seen rng entries now d)"
| "dd_exec rng (DReconfigure created now config) d = dd_reconfigure rng created now config d"
| "dd_exec rng (DClear now) d = Some (dd_clear now d)"

definition dd_runs :: "(datetime \<Rightarrow> bool) \<Rightarrow> dd_op \<Rightarrow> deduplicator \<Rightarrow> bool" where
  "dd_runs rng op d = (dd_exec rng op d \<noteq> None)"

definition dd_step :: "(datetime \<Rightarrow> bool) \<Rightarrow> dd_op \<Rightarrow> deduplicator \<Rightarrow> deduplicator" where
  "dd_step rng op d = (case dd_exec rng op d of Some d' \<Rightarrow> d' | None \<Rightarrow> d)"

text \<open>What the exact mode promises, on the map from ids to entries: a known id changes nothing; a new
  one is added, after dropping the expired entries if the set is full and then, if it is still full,
  one entry that is least by (exportable, last accessed).\<close>

inductive mark_spec ::
  "nat \<Rightarrow> datetime option \<Rightarrow> string \<Rightarrow> seen_entry \<Rightarrow> (string \<rightharpoonup> seen_entry) \<Rightarrow> bool \<Rightarrow> (string \<rightharpoonup> seen_entry) \<Rightarrow> bool"
  for cap cutoff x entry m where
  known: "m x \<noteq> None \<Longrightarrow> mark_spec cap cutoff x entry m False m"
| room: "m x = None \<Longrightarrow> card (dom m) < cap \<Longrightarrow> mark_spec cap cutoff x entry m True (m(x \<mapsto> entry))"
| expire: "m x = None \<Longrightarrow> cap \<le> card (dom m) \<Longrightarrow> cutoff = Some c \<Longrightarrow>
    live = (\<lambda>k. case m k of Some e \<Rightarrow> if c < se_seen_at e then Some e else None | None \<Rightarrow> None) \<Longrightarrow>
    card (dom live) < cap \<or> live = Map.empty \<Longrightarrow> mark_spec cap cutoff x entry m True (live(x \<mapsto> entry))"
| evict: "m x = None \<Longrightarrow> cap \<le> card (dom m) \<Longrightarrow> cutoff = Some c \<Longrightarrow>
    live = (\<lambda>k. case m k of Some e \<Rightarrow> if c < se_seen_at e then Some e else None | None \<Rightarrow> None) \<Longrightarrow>
    cap \<le> card (dom live) \<Longrightarrow> live victim = Some v \<Longrightarrow>
    (\<forall>k e. live k = Some e \<longrightarrow> eviction_key (victim, v) \<le> eviction_key (k, e)) \<Longrightarrow>
    mark_spec cap cutoff x entry m True ((live(victim := None))(x \<mapsto> entry))"

inductive_cases mark_spec_elim: "mark_spec cap cutoff x entry m res m'"

subsection \<open>Invariants\<close>

definition bf_ok :: "bloom_filter \<Rightarrow> bool" where
  "bf_ok bf \<longleftrightarrow> 0 < bf_bit_count bf \<and> length (bf_bits bf) = (bf_bit_count bf + 63) div 64"

definition rb_ok :: "rotating_bloom \<Rightarrow> bool" where
  "rb_ok rb \<longleftrightarrow> rb_current_index rb < length (rb_filters rb) \<and> (\<forall>bf\<in>set (rb_filters rb). bf_ok bf)"

definition dd_inv :: "deduplicator \<Rightarrow> bool" where
  "dd_inv d \<longleftrightarrow> hm_inv (dd_seen_messages d) \<and>
     length (dd_seen_messages d) \<le> max 1 (dc_max_tracked_messages (dd_config d)) \<and>
     (\<forall>rb. dd_bloom_filter d = Some rb \<longrightarrow> rb_ok rb \<and> dd_seen_messages d = [])"

subsection \<open>The filter has no false negatives\<close>

lemma hashes_in_range:
  assumes "bf_ok bf" "b \<in> set (bf_hashes item bf)"
  shows "b < bf_bit_count bf" "b div 64 < length (bf_bits bf)"
proof -
  show "b < bf_bit_count bf" using assms by (auto simp: bf_ok_def bf_hashes_def Let_def)
  then have "(b + 64) div 64 \<le> (bf_bit_count bf + 63) div 64" by (intro div_le_mono) simp
  then have "b div 64 < (bf_bit_count bf + 63) div 64" by simp
  then show "b div 64 < length (bf_bits bf)" using assms(1) by (simp add: bf_ok_def)
qed

definition has_bit :: "u64 list \<Rightarrow> nat \<Rightarrow> bool" where
  "has_bit bits i = bit (bits ! (i div 64)) (i mod 64)"

lemma bf_contains_bits: "bf_contains item bf = list_all (has_bit (bf_bits bf)) (bf_hashes item bf)"
  unfolding bf_contains_def has_bit_def[abs_def] bit_iff_and_push_bit_not_eq_0 by (rule refl)

lemma set_bit_at_len [simp]: "length (set_bit_at i bits) = length bits"
  by (simp add: set_bit_at_def)

lemma set_bit_at_keeps: "has_bit bits j \<Longrightarrow> has_bit (set_bit_at i bits) j"
  by (cases "i div 64 < length bits")
     (auto simp: has_bit_def set_bit_at_def nth_list_update bit_or_iff list_update_beyond not_less)

lemma set_bit_at_sets: "i div 64 < length bits \<Longrightarrow> has_bit (set_bit_at i bits) i"
  by (simp add: has_bit_def set_bit_at_def bit_or_iff bit_exp_iff)

lemma fold_set_bits:
  "(\<forall>i\<in>set is. i div 64 < length bits) \<Longrightarrow>
     length (fold set_bit_at is bits) = length bits \<and>
     (\<forall>j. has_bit bits j \<or> j \<in> set is \<longrightarrow> has_bit (fold set_bit_at is bits) j)"
proof (induction "is" arbitrary: bits)
  case (Cons i "is")
  then show ?case by (auto simp: set_bit_at_keeps set_bit_at_sets)
qed simp

lemma bf_hashes_geom [simp]:
  "bf_hashes item (bf\<lparr>bf_bits := b, bf_items_added := n\<rparr>) = bf_hashes item bf"
  by (simp add: bf_hashes_def)

lemma bf_insert_ok:
  assumes "bf_ok bf"
  shows "bf_ok (bf_insert item bf)" "bf_contains item (bf_insert item bf)"
    "bf_contains x bf \<Longrightarrow> bf_contains x (bf_insert item bf)"
proof -
  have "\<forall>i\<in>set (bf_hashes item bf). i div 64 < length (bf_bits bf)" using hashes_in_range[OF assms] by blast
  note set = fold_set_bits[OF this]
  show "bf_ok (bf_insert item bf)" using assms set by (simp add: bf_ok_def bf_insert_def)
  show "bf_contains item (bf_insert item bf)"
    using set by (simp add: bf_contains_bits bf_insert_def list_all_iff)
  show "bf_contains x bf \<Longrightarrow> bf_contains x (bf_insert item bf)"
    using set by (simp add: bf_contains_bits bf_insert_def list_all_iff)
qed

lemma bf_new_ok: "0 < bits \<Longrightarrow> bf_ok (bf_new bits k)"
  by (simp add: bf_ok_def bf_new_def)

lemma rb_new_forgets:
  assumes "0 < bits" "0 < k"
  shows "\<not> rb_any x (rb_new n bits k R t)"
proof -
  have "\<not> bf_contains x (bf_new bits k)"
  proof
    assume c: "bf_contains x (bf_new bits k)"
    obtain i where i: "i \<in> set (bf_hashes x (bf_new bits k))"
      using assms(2) by (force simp: bf_hashes_def bf_new_def Let_def)
    have "i div 64 < (bits + 63) div 64"
      using hashes_in_range(2)[OF bf_new_ok[OF assms(1)] i] by (simp add: bf_new_def)
    then show False using c i by (auto simp: bf_contains_bits list_all_iff has_bit_def bf_new_def)
  qed
  then show ?thesis by (auto simp: rb_any_def rb_new_def list_ex_iff)
qed

lemma bf_clear_ok [simp]: "bf_ok (bf_clear bf) = bf_ok bf"
  by (simp add: bf_ok_def bf_clear_def)

subsection \<open>What a rotation keeps\<close>

lemma rotate_due:
  assumes "0 < R" "R < 2 ^ 63"
  shows "u64_as_i64 R \<le> num_seconds d \<longleftrightarrow> int R * 1000000000 \<le> d"
proof -
  have "u64_as_i64 R = int R" using assms(2) by (rule u64_as_i64_small)
  moreover have "int R \<le> d div 1000000000 \<longleftrightarrow> int R * 1000000000 \<le> d" by linarith
  moreover have "d div 1000000000 < 0" if "d < 0" using that by simp
  moreover have "- ((- d) div 1000000000) \<le> 0" if "d < 0" using that by (simp add: pos_imp_zdiv_nonneg_iff)
  ultimately show ?thesis using assms(1) by (auto simp: num_seconds_def)
qed

lemma rb_maybe_rotate_ok [simp]:
  "rb_ok rb \<Longrightarrow> rb_ok (rb_maybe_rotate now rb)"
  "length (rb_filters (rb_maybe_rotate now rb)) = length (rb_filters rb)"
  "rb_rotation_interval_secs (rb_maybe_rotate now rb) = rb_rotation_interval_secs rb"
proof -
  assume ok: "rb_ok rb"
  then have "(rb_current_index rb + 1) mod length (rb_filters rb) < length (rb_filters rb)"
    by (auto simp: rb_ok_def intro: mod_less_divisor)
  with ok show "rb_ok (rb_maybe_rotate now rb)"
    by (auto simp: rb_ok_def rb_maybe_rotate_def Let_def dest!: set_update_subset_insert[THEN subsetD])
qed (simp_all add: rb_maybe_rotate_def Let_def)

lemma rb_insert_ok [simp]:
  "rb_ok rb \<Longrightarrow> rb_ok (rb_insert now x rb)"
  "length (rb_filters (rb_insert now x rb)) = length (rb_filters rb)"
  "rb_rotation_interval_secs (rb_insert now x rb) = rb_rotation_interval_secs rb"
proof -
  assume "rb_ok rb"
  then have "rb_ok (rb_maybe_rotate now rb)" by simp
  then show "rb_ok (rb_insert now x rb)"
    by (auto simp: rb_ok_def rb_insert_def Let_def bf_insert_ok(1) dest!: set_update_subset_insert[THEN subsetD])
qed (simp_all add: rb_insert_def Let_def)

text \<open>An id inserted at \<open>t0\<close> sits in filter \<open>j\<close>, and the current filter has moved on \<open>r\<close> times since, at
  least a full interval apart after the first.\<close>

definition rb_keeps :: "string \<Rightarrow> datetime \<Rightarrow> rotating_bloom \<Rightarrow> bool" where
  "rb_keeps x t0 rb \<longleftrightarrow> rb_ok rb \<and> (\<exists>j r. r < length (rb_filters rb) \<and> j < length (rb_filters rb) \<and>
     rb_current_index rb = (j + r) mod length (rb_filters rb) \<and> bf_contains x (rb_filters rb ! j) \<and>
     (0 < r \<longrightarrow> t0 + (int r - 1) * (int (rb_rotation_interval_secs rb) * 1000000000) \<le> rb_last_rotation rb))"

lemma rb_keepsI:
  assumes "rb_ok rb" "r < length (rb_filters rb)" "j < length (rb_filters rb)"
    "rb_current_index rb = (j + r) mod length (rb_filters rb)" "bf_contains x (rb_filters rb ! j)"
    "0 < r \<Longrightarrow> t0 + (int r - 1) * (int (rb_rotation_interval_secs rb) * 1000000000) \<le> rb_last_rotation rb"
  shows "rb_keeps x t0 rb"
  using assms unfolding rb_keeps_def by blast

definition rb_window :: "rotating_bloom \<Rightarrow> int" where
  "rb_window rb = (int (length (rb_filters rb)) - 1) * (int (rb_rotation_interval_secs rb) * 1000000000)"

lemma mod_ne_self:
  fixes j k n :: nat
  assumes "j < n" "0 < k" "k < n"
  shows "(j + k) mod n \<noteq> j"
  using assms by (cases "j + k < n") (auto simp: mod_if le_mod_geq not_less)

lemma rb_keeps_rotate:
  assumes keeps: "rb_keeps x t0 rb" and R: "0 < rb_rotation_interval_secs rb" "rb_rotation_interval_secs rb < 2 ^ 63"
    and now: "t0 \<le> now" "now < t0 + rb_window rb"
  shows "rb_keeps x t0 (rb_maybe_rotate now rb)"
proof (cases "u64_as_i64 (rb_rotation_interval_secs rb) \<le> num_seconds (now - rb_last_rotation rb)")
  case False
  then show ?thesis using keeps by (simp add: rb_maybe_rotate_def)
next
  case True
  let ?n = "length (rb_filters rb)" and ?R = "int (rb_rotation_interval_secs rb) * 1000000000"
  let ?i = "(rb_current_index rb + 1) mod ?n"
  have due: "rb_last_rotation rb + ?R \<le> now" using True rotate_due[OF R] by simp
  obtain j r where jr: "r < ?n" "j < ?n" "rb_current_index rb = (j + r) mod ?n" "bf_contains x (rb_filters rb ! j)"
    "0 < r \<longrightarrow> t0 + (int r - 1) * ?R \<le> rb_last_rotation rb" and ok: "rb_ok rb"
    using keeps by (auto simp: rb_keeps_def)
  have later: "t0 + int r * ?R \<le> now"
  proof (cases "r = 0")
    case False
    then show ?thesis using jr(5) due by (simp add: left_diff_distrib)
  qed (use now in simp)
  have nxt: "Suc r < ?n"
  proof (rule ccontr)
    assume "\<not> Suc r < ?n"
    then have "int r = int ?n - 1" using jr(1) by simp
    then show False using later now(2) by (simp add: rb_window_def)
  qed
  have i: "?i = (j + Suc r) mod ?n" using jr(3) by (simp add: mod_Suc_eq)
  then have "?i \<noteq> j" using mod_ne_self[OF jr(2), of "Suc r"] nxt by simp
  moreover have "rb_ok (rb_maybe_rotate now rb)" using ok by simp
  ultimately show ?thesis
    by (intro rb_keepsI[where j = j and r = "Suc r"])
       (use True nxt jr(2,4) i later in \<open>simp_all add: rb_maybe_rotate_def Let_def\<close>)
qed

lemma rb_keeps_any: "rb_keeps x t0 rb \<Longrightarrow> rb_any x rb"
  by (auto simp: rb_keeps_def rb_any_def list_ex_iff)

lemma rb_keeps_add:
  assumes "rb_keeps x t0 rb"
  shows "rb_keeps x t0 (rb\<lparr>rb_filters := (rb_filters rb)[rb_current_index rb := bf_insert y (rb_filters rb ! rb_current_index rb)]\<rparr>)"
proof -
  have ok: "\<forall>bf\<in>set (rb_filters rb). bf_ok bf" "rb_current_index rb < length (rb_filters rb)"
    using assms by (simp_all add: rb_keeps_def rb_ok_def)
  then have cur: "bf_ok (rb_filters rb ! rb_current_index rb)" by simp
  obtain j r where jr: "r < length (rb_filters rb)" "j < length (rb_filters rb)"
    "rb_current_index rb = (j + r) mod length (rb_filters rb)" "bf_contains x (rb_filters rb ! j)"
    "0 < r \<longrightarrow> t0 + (int r - 1) * (int (rb_rotation_interval_secs rb) * 1000000000) \<le> rb_last_rotation rb"
    using assms by (auto simp: rb_keeps_def)
  let ?fs = "(rb_filters rb)[rb_current_index rb := bf_insert y (rb_filters rb ! rb_current_index rb)]"
  have "bf_contains x (?fs ! j)" using jr(2,4) bf_insert_ok(3)[OF cur, of x y]
    by (cases "j = rb_current_index rb") simp_all
  moreover have "\<forall>bf\<in>set ?fs. bf_ok bf"
    using ok bf_insert_ok(1)[OF cur] by (auto dest!: set_update_subset_insert[THEN subsetD])
  ultimately show ?thesis unfolding rb_keeps_def rb_ok_def using ok jr by auto
qed

lemma rb_keeps_fresh:
  assumes "rb_ok rb"
  shows "rb_keeps x t0 (rb_insert t0 x rb)"
proof -
  let ?rb = "rb_maybe_rotate t0 rb" and ?i = "rb_current_index (rb_maybe_rotate t0 rb)"
  have ok: "rb_ok ?rb" using assms by simp
  then have i: "?i < length (rb_filters ?rb)" "bf_ok (rb_filters ?rb ! ?i)" by (simp_all add: rb_ok_def)
  have "bf_contains x (rb_filters (rb_insert t0 x rb) ! ?i)"
    using i bf_insert_ok(2) by (simp add: rb_insert_def Let_def)
  moreover have "rb_ok (rb_insert t0 x rb)" using assms by simp
  ultimately show ?thesis
    by (intro rb_keepsI[where j = ?i and r = 0]) (use i(1) in \<open>auto simp: rb_insert_def Let_def\<close>)
qed

subsection \<open>The exact mode\<close>

lemma dd_inv_exact:
  "dd_inv d \<Longrightarrow> hm_inv (dd_seen_messages d) \<and>
     length (dd_seen_messages d) \<le> max 1 (dc_max_tracked_messages (dd_config d))"
  by (simp add: dd_inv_def)

lemma dd_inv_hm: "dd_inv d \<Longrightarrow> hm_inv (dd_seen_messages d)"
  by (simp add: dd_inv_def)

lemma dd_cleanup_exact:
  assumes "dd_bloom_filter d = None" "dd_cleanup_expired rng now d = Some (n, d')"
  obtains c where "dd_cutoff rng (dd_config d) now = Some c"
    "d' = d\<lparr>dd_seen_messages := hm_retain (\<lambda>_ e. c < se_seen_at e) (dd_seen_messages d)\<rparr>"
  using assms by (auto simp: dd_cleanup_expired_def Let_def split: option.splits)

lemma dd_cleanup_inv:
  assumes "dd_inv d" "dd_cleanup_expired rng now d = Some (n, d')"
  shows "dd_inv d'" "dd_bloom_filter d' = dd_bloom_filter d" "dd_config d' = dd_config d"
proof -
  have "length (hm_retain P (dd_seen_messages d)) \<le> max 1 (dc_max_tracked_messages (dd_config d))" for P
    using dd_inv_exact[OF assms(1)] hm_retain_len[of P "dd_seen_messages d"] by linarith
  then show "dd_inv d'" "dd_bloom_filter d' = dd_bloom_filter d" "dd_config d' = dd_config d"
    using assms by (auto simp: dd_inv_def dd_cleanup_expired_def Let_def hm_retain_inv split: option.splits)
qed

lemma dd_evict_frame [simp]:
  "dd_bloom_filter (dd_evict_lru d) = dd_bloom_filter d" "dd_config (dd_evict_lru d) = dd_config d"
  by (simp_all add: dd_evict_lru_def split: option.splits)

lemma dd_evict_cases:
  assumes "dd_inv d"
  obtains "dd_seen_messages d = []" "dd_evict_lru d = d"
  | victim v where "map_of (dd_seen_messages d) victim = Some v"
      "\<forall>k e. map_of (dd_seen_messages d) k = Some e \<longrightarrow> eviction_key (victim, v) \<le> eviction_key (k, e)"
      "dd_evict_lru d = d\<lparr>dd_seen_messages := hm_remove victim (dd_seen_messages d)\<rparr>"
proof (cases "min_on eviction_key (dd_seen_messages d)")
  case None
  then show ?thesis using that(1) by (simp add: dd_evict_lru_def)
next
  case (Some p)
  obtain victim v where p: "p = (victim, v)" by fastforce
  note least = min_on_Some[OF Some, unfolded p]
  show ?thesis
  proof (rule that(2))
    show "map_of (dd_seen_messages d) victim = Some v"
      using least assms by (simp add: hm_get_eq dd_inv_hm)
    show "\<forall>k e. map_of (dd_seen_messages d) k = Some e \<longrightarrow> eviction_key (victim, v) \<le> eviction_key (k, e)"
      using least by (auto dest: map_of_SomeD)
    show "dd_evict_lru d = d\<lparr>dd_seen_messages := hm_remove victim (dd_seen_messages d)\<rparr>"
      using Some p by (simp add: dd_evict_lru_def)
  qed
qed

lemma dd_len_card: "dd_inv d \<Longrightarrow> length (dd_seen_messages d) = card (dom (map_of (dd_seen_messages d)))"
  by (rule hm.len_card) (rule dd_inv_hm)

text \<open>Making room leaves the invariant and a free place.\<close>

lemma dd_evict_room:
  assumes "dd_inv d"
  shows "dd_inv (dd_evict_lru d)"
    "length (dd_seen_messages (dd_evict_lru d)) < max 1 (dc_max_tracked_messages (dd_config (dd_evict_lru d)))"
proof -
  have "dd_inv (dd_evict_lru d) \<and>
    length (dd_seen_messages (dd_evict_lru d)) < max 1 (dc_max_tracked_messages (dd_config (dd_evict_lru d)))"
    using assms
  proof (cases rule: dd_evict_cases)
    case 1
    then show ?thesis using assms by simp
  next
    case (2 victim v)
    then have "length (hm_remove victim (dd_seen_messages d)) < length (dd_seen_messages d)"
      using assms hm.len_pos[OF dd_inv_hm[OF assms] 2(1)] by (simp add: hm.len_del dd_inv_hm)
    then show ?thesis using assms 2(3) by (auto simp: dd_inv_def hm_remove_def)
  qed
  then show "dd_inv (dd_evict_lru d)"
    "length (dd_seen_messages (dd_evict_lru d)) < max 1 (dc_max_tracked_messages (dd_config (dd_evict_lru d)))" by auto
qed

lemma dd_make_room_inv:
  assumes "dd_inv d" "dd_make_room rng now d = Some d'"
  shows "dd_inv d'" "length (dd_seen_messages d') < max 1 (dc_max_tracked_messages (dd_config d'))"
    "dd_bloom_filter d' = dd_bloom_filter d" "dd_config d' = dd_config d"
proof -
  from assms(2) consider "d' = d" "\<not> dd_at_cap d"
    | n where "dd_cleanup_expired rng now d = Some (n, d')" "\<not> dd_at_cap d'"
    | n d1 where "dd_cleanup_expired rng now d = Some (n, d1)" "d' = dd_evict_lru d1"
    by (auto simp: dd_make_room_def split: if_splits)
  then have "dd_inv d' \<and> length (dd_seen_messages d') < max 1 (dc_max_tracked_messages (dd_config d')) \<and>
    dd_bloom_filter d' = dd_bloom_filter d \<and> dd_config d' = dd_config d"
  proof cases
    case 3
    then show ?thesis using dd_cleanup_inv[OF assms(1) 3(1)] dd_evict_room[of d1] by simp
  qed (use assms(1) dd_cleanup_inv[OF assms(1)] in \<open>auto simp: dd_at_cap_def less_max_iff_disj\<close>)
  then show "dd_inv d'" "length (dd_seen_messages d') < max 1 (dc_max_tracked_messages (dd_config d'))"
    "dd_bloom_filter d' = dd_bloom_filter d" "dd_config d' = dd_config d" by auto
qed

lemma dd_add_inv:
  assumes "dd_inv d" "length (dd_seen_messages d) < max 1 (dc_max_tracked_messages (dd_config d))"
    "dd_bloom_filter d = None"
  shows "dd_inv (d\<lparr>dd_seen_messages := hm_insert x e (dd_seen_messages d)\<rparr>)"
  using assms by (auto simp: dd_inv_def hm.len_ins)

lemma dd_mark_inv:
  assumes "dd_inv d" "dd_mark_seen_with rng now now' x e d = Some (res, d')"
  shows "dd_inv d'"
proof (cases "dd_bloom_filter d")
  case None
  then show ?thesis using assms dd_make_room_inv[OF assms(1)] dd_add_inv
    by (auto simp: dd_mark_seen_with_def split: if_splits)
next
  case (Some rb)
  then show ?thesis using assms
    by (auto simp: dd_mark_seen_with_def dd_inv_def rb_contains_def Let_def split: if_splits)
qed

lemma dd_import_loop_inv:
  "dd_inv d \<Longrightarrow> dd_bloom_filter d = None \<Longrightarrow> dd_inv (snd (dd_import_loop rng cutoff es n d))"
proof (induction es arbitrary: n d)
  case (Cons s es)
  have "dd_inv (d\<lparr>dd_seen_messages := hm_insert x e (dd_seen_messages d)\<rparr>)" if "\<not> dd_at_cap d" for x e
    using that Cons.prems by (intro dd_add_inv) (auto simp: dd_at_cap_def)
  then show ?case using Cons by (auto split: option.splits)
qed simp

lemma newest_first_inj: "hm_inv m \<Longrightarrow> distinct (map fst (sort_key newest_first m))"
  by (simp add: hm_inv_def distinct_map)

lemma dd_reconfigure_inv:
  assumes "dd_inv d" "dd_reconfigure rng created now config d = Some d'"
  shows "dd_inv d'"
proof -
  have fresh: "dd_inv (dd_with_config created config)"
    by (auto simp: dd_inv_def dd_with_config_def Let_def rb_ok_def rb_new_def bf_new_ok)
  define es where "es = (\<lambda>cutoff. take (dc_max_tracked_messages config)
      (sort_key newest_first (filter (\<lambda>p. cutoff < se_seen_at (snd p)) (dd_seen_messages d))))"
  have "distinct (map fst (es cutoff))" for cutoff
    using newest_first_inj[OF hm_inv_filter[OF dd_inv_hm[OF assms(1)]]]
    by (simp add: es_def distinct_take flip: take_map)
  then have carried: "fold (\<lambda>(k, v). hm_insert k v) (es cutoff) [] = es cutoff" "hm_inv (es cutoff)"
    "length (es cutoff) \<le> dc_max_tracked_messages config" for cutoff
    using hm_collect[of "[]" "es cutoff"] by (simp_all add: hm_inv_def es_def)
  from assms(2) consider "d' = dd_with_config created config"
    | c where "d' = (dd_with_config created config)\<lparr>dd_seen_messages := fold (\<lambda>(k, v). hm_insert k v) (es c) []\<rparr>"
        "dd_bloom_filter (dd_with_config created config) = None"
    by (auto simp: dd_reconfigure_def Let_def es_def split: if_splits option.splits)
  then show ?thesis
  proof cases
    case 1
    then show ?thesis using fresh by simp
  next
    case (2 c)
    have "dd_config (dd_with_config created config) = config" by (simp add: dd_with_config_def Let_def)
    then show ?thesis using 2 carried[of c] by (simp add: dd_inv_def le_max_iff_disj)
  qed
qed

lemma dd_step_inv: "dd_inv d \<Longrightarrow> dd_inv (dd_step rng op d)"
proof (cases op)
  case (DCheck now x)
  show "dd_inv d \<Longrightarrow> dd_inv (dd_step rng op d)"
    by (cases "dd_bloom_filter d")
       (auto simp: DCheck dd_step_def dd_is_duplicate_mut_def dd_inv_def rb_contains_def Let_def hm.len_ins
         split: option.splits)
next
  case (DUnmark x)
  show "dd_inv d \<Longrightarrow> dd_inv (dd_step rng op d)"
    using hm.len_del_le[of "dd_seen_messages d" x]
    by (auto simp: DUnmark dd_step_def dd_unmark_seen_def dd_inv_def)
next
  case (DClear now)
  show "dd_inv d \<Longrightarrow> dd_inv (dd_step rng op d)"
    by (auto simp: DClear dd_step_def dd_clear_def dd_inv_def rb_clear_def rb_ok_def)
next
  case (DImport es now)
  show "dd_inv d \<Longrightarrow> dd_inv (dd_step rng op d)"
    by (auto simp: DImport dd_step_def dd_import_seen_def dd_import_loop_inv split: option.splits)
qed (auto simp: dd_step_def dest: dd_mark_inv dd_cleanup_inv(1) dd_reconfigure_inv split: option.splits)

interpretation ddm: machine "dd_step rng" "dd_runs rng" dd_inv for rng
  by unfold_locales (rule dd_step_inv)

subsection \<open>Properties\<close>

lemma live_map:
  "hm_inv m \<Longrightarrow> map_of (hm_retain (\<lambda>_ e. c < se_seen_at e) m) =
     (\<lambda>k. case map_of m k of Some e \<Rightarrow> if c < se_seen_at e then Some e else None | None \<Rightarrow> None)"
  by (rule ext) (auto simp: hm_retain_get split: option.splits)

lemma mark_refines:
  assumes inv: "dd_inv d" and exact: "dd_bloom_filter d = None"
    and mark: "dd_mark_seen_with rng now now' x e d = Some (res, d')"
  shows "mark_spec (dc_max_tracked_messages (dd_config d)) (dd_cutoff rng (dd_config d) now) x
    \<lparr>se_seen_at = now', se_last_accessed = now', se_exportable = e\<rparr>
    (map_of (dd_seen_messages d)) res (map_of (dd_seen_messages d'))"
proof (cases "map_of (dd_seen_messages d) x")
  case (Some v)
  then have "res = False" "d' = d" using mark exact by (simp_all add: dd_mark_seen_with_def hm_contains_def)
  then show ?thesis using Some by (auto intro: mark_spec.known)
next
  case None
  let ?entry = "\<lparr>se_seen_at = now', se_last_accessed = now', se_exportable = e\<rparr>"
  let ?m = "map_of (dd_seen_messages d)"
  obtain d1 where d1: "dd_make_room rng now d = Some d1"
    and d': "map_of (dd_seen_messages d') = (map_of (dd_seen_messages d1))(x \<mapsto> ?entry)" and res: "res = True"
    using mark exact None by (auto simp: dd_mark_seen_with_def hm_contains_def)
  show ?thesis
  proof (cases "dd_at_cap d")
    case False
    then have "d1 = d" using d1 by (simp add: dd_make_room_def)
    then show ?thesis unfolding d' res
      using mark_spec.room[of ?m x] None False dd_len_card[OF inv] by (simp add: dd_at_cap_def)
  next
    case True
    then obtain n d2 where d2: "dd_cleanup_expired rng now d = Some (n, d2)"
      and d1': "d1 = (if dd_at_cap d2 then dd_evict_lru d2 else d2)" using d1 by (auto simp: dd_make_room_def)
    obtain c where c: "dd_cutoff rng (dd_config d) now = Some c"
      and d2': "d2 = d\<lparr>dd_seen_messages := hm_retain (\<lambda>_ e. c < se_seen_at e) (dd_seen_messages d)\<rparr>"
      using exact d2 by (rule dd_cleanup_exact)
    note inv2 = dd_cleanup_inv[OF inv d2]
    have live: "map_of (dd_seen_messages d2) =
        (\<lambda>k. case ?m k of Some e \<Rightarrow> if c < se_seen_at e then Some e else None | None \<Rightarrow> None)"
      using live_map[OF dd_inv_hm[OF inv]] d2' by simp
    have full: "dc_max_tracked_messages (dd_config d) \<le> card (dom ?m)"
      using True dd_len_card[OF inv] by (simp add: dd_at_cap_def)
    have small: ?thesis if "card (dom (map_of (dd_seen_messages d2))) < dc_max_tracked_messages (dd_config d) \<or>
        map_of (dd_seen_messages d2) = Map.empty" "d1 = d2"
      unfolding d' res using mark_spec.expire[of ?m x, OF None full c live that(1)] that(2) by simp
    show ?thesis
    proof (cases "dd_at_cap d2")
      case False
      then show ?thesis using small d1' dd_len_card[OF inv2(1)] inv2(3) by (simp add: dd_at_cap_def)
    next
      case full2: True
      then have card2: "dc_max_tracked_messages (dd_config d) \<le> card (dom (map_of (dd_seen_messages d2)))"
        using dd_len_card[OF inv2(1)] inv2(3) by (simp add: dd_at_cap_def)
      from inv2(1) show ?thesis
      proof (cases rule: dd_evict_cases)
        case 1
        then show ?thesis using small d1' full2 by simp
      next
        case (2 victim v)
        then show ?thesis unfolding d' res
          using mark_spec.evict[of ?m x, OF None full c live card2] d1' full2 by simp
      qed
    qed
  qed
qed

text \<open>C5. Exact mode refines its specification on maps: marking a known id reports false and changes
  nothing; marking a new id reports true and adds it, dropping expired entries only when the set is
  full and then at most one live entry, a local mark before an inbound id and the least recently
  accessed first.  Marking fails only where the set is full and chrono cannot represent the cutoff.\<close>

theorem mark_seen_refines_spec:
  assumes "dd_inv d" "dd_bloom_filter d = None"
  shows "case dd_mark_seen_with rng now now' x e d of
      Some (res, d') \<Rightarrow> mark_spec (dc_max_tracked_messages (dd_config d)) (dd_cutoff rng (dd_config d) now) x
          \<lparr>se_seen_at = now', se_last_accessed = now', se_exportable = e\<rparr>
          (map_of (dd_seen_messages d)) res (map_of (dd_seen_messages d'))
    | None \<Rightarrow> \<not> dd_is_duplicate x d \<and> dd_at_cap d \<and> dd_cutoff rng (dd_config d) now = None"
proof (cases "dd_mark_seen_with rng now now' x e d")
  case None
  then show ?thesis using assms(2)
    by (auto simp: dd_mark_seen_with_def dd_make_room_def dd_cleanup_expired_def dd_is_duplicate_def Let_def
        split: if_splits option.splits)
next
  case (Some p)
  then show ?thesis using mark_refines[OF assms] by (cases p) simp
qed

theorem mark_seen_refines_spec_witness:
  "dd_mark_seen_with (\<lambda>_. True) 6000000000 7000000000 ''c'' True
     (dd_with_config 0 (dedup_config_default\<lparr>dc_max_tracked_messages := 2\<rparr>)
       \<lparr>dd_seen_messages := [(''a'', \<lparr>se_seen_at = 1, se_last_accessed = 1, se_exportable = True\<rparr>),
                              (''b'', \<lparr>se_seen_at = 5, se_last_accessed = 5, se_exportable = False\<rparr>)]\<rparr>) \<noteq> None
   \<and> (\<exists>res (d' :: deduplicator). mark_spec 2 (Some (6000000000 - 604800000000000)) ''c''
         \<lparr>se_seen_at = 7000000000, se_last_accessed = 7000000000, se_exportable = True\<rparr>
         [''a'' \<mapsto> \<lparr>se_seen_at = 1, se_last_accessed = 1, se_exportable = True\<rparr>,
          ''b'' \<mapsto> \<lparr>se_seen_at = 5, se_last_accessed = 5, se_exportable = False\<rparr>] res (map_of (dd_seen_messages d'))
       \<and> map fst (dd_seen_messages d') = [''a'', ''c''])"
proof -
  define d where "d = dd_with_config 0 (dedup_config_default\<lparr>dc_max_tracked_messages := 2\<rparr>)
       \<lparr>dd_seen_messages := [(''a'', \<lparr>se_seen_at = 1, se_last_accessed = 1, se_exportable = True\<rparr>),
                              (''b'', \<lparr>se_seen_at = 5, se_last_accessed = 5, se_exportable = False\<rparr>)]\<rparr>"
  define out where "out = dd_mark_seen_with (\<lambda>_. True) 6000000000 7000000000 ''c'' True d"
  have run: "map_option (\<lambda>p. map fst (dd_seen_messages (snd p))) out = Some [''a'', ''c'']"
    unfolding out_def d_def by code_simp
  then obtain res d' where out: "out = Some (res, d')" and keys: "map fst (dd_seen_messages d') = [''a'', ''c'']"
    by auto
  have parts: "dd_bloom_filter d = None" "dd_cutoff (\<lambda>_. True) (dd_config d) 6000000000 = Some (6000000000 - 604800000000000)"
    "dc_max_tracked_messages (dd_config d) = 2" "hm_inv (dd_seen_messages d)" "length (dd_seen_messages d) = 2"
    unfolding d_def hm_inv_def by code_simp+
  have "dd_inv d" unfolding dd_inv_def using parts by simp
  from mark_seen_refines_spec[OF this parts(1), where rng = "\<lambda>_. True" and now = 6000000000
      and now' = 7000000000 and x = "''c''" and e = True]
  have "mark_spec 2 (Some (6000000000 - 604800000000000)) ''c''
         \<lparr>se_seen_at = 7000000000, se_last_accessed = 7000000000, se_exportable = True\<rparr>
         (map_of (dd_seen_messages d)) res (map_of (dd_seen_messages d'))"
    unfolding out_def[symmetric] out parts by simp
  moreover have "map_of (dd_seen_messages d) =
      [''a'' \<mapsto> \<lparr>se_seen_at = 1, se_last_accessed = 1, se_exportable = True\<rparr>,
       ''b'' \<mapsto> \<lparr>se_seen_at = 5, se_last_accessed = 5, se_exportable = False\<rparr>]"
    by (auto simp: d_def fun_eq_iff)
  ultimately have "mark_spec 2 (Some (6000000000 - 604800000000000)) ''c''
         \<lparr>se_seen_at = 7000000000, se_last_accessed = 7000000000, se_exportable = True\<rparr>
         [''a'' \<mapsto> \<lparr>se_seen_at = 1, se_last_accessed = 1, se_exportable = True\<rparr>,
          ''b'' \<mapsto> \<lparr>se_seen_at = 5, se_last_accessed = 5, se_exportable = False\<rparr>] res (map_of (dd_seen_messages d'))"
    by (simp only:)
  then show ?thesis unfolding d_def[symmetric] out_def[symmetric] out using keys
    by (intro conjI exI[of _ res] exI[of _ d']) simp_all
qed

lemma dd_new_inv: "dd_inv (dd_with_config created config)"
  by (auto simp: dd_inv_def dd_with_config_def Let_def rb_ok_def rb_new_def bf_new_ok)

text \<open>Under any sequence of operations that do not panic, from any configuration, the exact set holds
  each id once and at most \<open>max_tracked_messages\<close> of them (one where that is zero), and every bit
  index a Bloom filter computes lies inside its array, so no operation indexes out of range.\<close>

lemma dedup_bounded:
  assumes "legal (dd_step rng) (dd_runs rng) ops (dd_with_config created config)"
    and "d = fold (dd_step rng) ops (dd_with_config created config)"
  shows "distinct (map fst (dd_seen_messages d)) \<and>
    length (dd_seen_messages d) \<le> max 1 (dc_max_tracked_messages (dd_config d)) \<and>
    (\<forall>rb bf i x. dd_bloom_filter d = Some rb \<longrightarrow> bf \<in> set (rb_filters rb) \<longrightarrow> i \<in> set (bf_hashes x bf) \<longrightarrow>
      rb_current_index rb < length (rb_filters rb) \<and> i div 64 < length (bf_bits bf))"
proof -
  have inv: "dd_inv d" unfolding assms(2) using dd_new_inv assms(1) by (rule ddm.run_inv)
  then have "bf_ok bf \<and> rb_current_index rb < length (rb_filters rb)"
    if "dd_bloom_filter d = Some rb" "bf \<in> set (rb_filters rb)" for rb bf
    using that by (simp add: dd_inv_def rb_ok_def)
  then show ?thesis using dd_inv_exact[OF inv] hashes_in_range by (auto simp: hm_inv_def)
qed

lemma dedup_bounded_witness:
  "length (dd_seen_messages (fold (dd_step (\<lambda>_. True)) [DMark 1 1 ''a'' True, DMark 2 2 ''b'' True]
     (dd_with_config 0 (dedup_config_default\<lparr>dc_max_tracked_messages := 0\<rparr>)))) \<le> 1"
proof -
  have "legal (dd_step (\<lambda>_. True)) (dd_runs (\<lambda>_. True)) [DMark 1 1 ''a'' True, DMark 2 2 ''b'' True]
     (dd_with_config 0 (dedup_config_default\<lparr>dc_max_tracked_messages := 0\<rparr>))"
    by code_simp
  from dedup_bounded[OF this refl]
  have "length (dd_seen_messages (fold (dd_step (\<lambda>_. True)) [DMark 1 1 ''a'' True, DMark 2 2 ''b'' True]
     (dd_with_config 0 (dedup_config_default\<lparr>dc_max_tracked_messages := 0\<rparr>))))
     \<le> max 1 (dc_max_tracked_messages (dd_config (fold (dd_step (\<lambda>_. True)) [DMark 1 1 ''a'' True, DMark 2 2 ''b'' True]
     (dd_with_config 0 (dedup_config_default\<lparr>dc_max_tracked_messages := 0\<rparr>)))))" by blast
  also have "\<dots> = 1" by code_simp
  finally show ?thesis .
qed

subsection \<open>Export and import\<close>

definition importable :: "(datetime \<Rightarrow> bool) \<Rightarrow> datetime \<Rightarrow> seen_id \<Rightarrow> bool" where
  "importable rng cutoff s \<longleftrightarrow> rng (si_seen_at_ms s * 1000000) \<and> cutoff < si_seen_at_ms s * 1000000"

definition imported_entry :: "seen_id \<Rightarrow> seen_entry" where
  "imported_entry s = \<lparr>se_seen_at = si_seen_at_ms s * 1000000, se_last_accessed = si_seen_at_ms s * 1000000,
     se_exportable = True\<rparr>"

definition imported_map :: "(datetime \<Rightarrow> bool) \<Rightarrow> datetime \<Rightarrow> seen_id list \<Rightarrow> (string \<rightharpoonup> seen_entry)" where
  "imported_map rng cutoff es = map_of (map (\<lambda>s. (si_id s, imported_entry s)) (filter (importable rng cutoff) es))"

lemma imported_map_eq:
  "distinct (map si_id es) \<Longrightarrow> imported_map rng cutoff es k \<noteq> None \<longleftrightarrow> (\<exists>s\<in>set es. importable rng cutoff s \<and> si_id s = k)"
  by (auto simp: imported_map_def map_of_eq_None_iff image_iff)

lemma import_loop_all:
  assumes "distinct (map si_id es)" "length (dd_seen_messages d) + length es \<le> dc_max_tracked_messages (dd_config d)"
    and "hm_inv (dd_seen_messages d)" "\<forall>s\<in>set es. map_of (dd_seen_messages d) (si_id s) = None"
    and "dd_import_loop rng cutoff es n d = (n', d')"
  shows "n' = n + length (filter (importable rng cutoff) es) \<and> dd_bloom_filter d' = dd_bloom_filter d \<and>
    length (dd_seen_messages d') = length (dd_seen_messages d) + length (filter (importable rng cutoff) es) \<and>
    map_of (dd_seen_messages d') = map_of (dd_seen_messages d) ++ imported_map rng cutoff es"
  using assms
proof (induction es arbitrary: n d)
  case (Cons s es)
  have room: "\<not> dd_at_cap d" using Cons.prems(2) by (simp add: dd_at_cap_def)
  have new: "hm_contains (si_id s) (dd_seen_messages d) = False" using Cons.prems(4) by (simp add: hm_contains_def)
  show ?case
  proof (cases "importable rng cutoff s")
    case False
    then have "dd_import_loop rng cutoff (s # es) n d = dd_import_loop rng cutoff es n d"
      using room by (auto simp: importable_def from_timestamp_millis_def)
    then show ?thesis using Cons.IH[of d n] Cons.prems False by (simp add: imported_map_def)
  next
    case True
    let ?d = "d\<lparr>dd_seen_messages := hm_insert (si_id s) (imported_entry s) (dd_seen_messages d)\<rparr>"
    have run: "dd_import_loop rng cutoff es (Suc n) ?d = (n', d')"
      using Cons.prems(5) room new True by (auto simp: importable_def from_timestamp_millis_def imported_entry_def)
    have len: "length (dd_seen_messages ?d) = Suc (length (dd_seen_messages d))"
      using Cons.prems(3,4) by (simp add: hm.len_ins)
    have "si_id s \<notin> dom (imported_map rng cutoff es)"
      using Cons.prems(1) by (auto simp: imported_map_def dom_map_of_conv_image_fst)
    then have add: "map_of (dd_seen_messages ?d) ++ imported_map rng cutoff es =
        map_of (dd_seen_messages d) ++ imported_map rng cutoff (s # es)"
      using True by (simp add: imported_map_def map_add_upd_left)
    have "n' = Suc n + length (filter (importable rng cutoff) es) \<and> dd_bloom_filter d' = dd_bloom_filter ?d \<and>
      length (dd_seen_messages d') = length (dd_seen_messages ?d) + length (filter (importable rng cutoff) es) \<and>
      map_of (dd_seen_messages d') = map_of (dd_seen_messages ?d) ++ imported_map rng cutoff es"
      by (rule Cons.IH[OF _ _ _ _ run]) (use Cons.prems(1-4) len in \<open>auto simp: image_iff\<close>)
    then show ?thesis using True len unfolding add by simp
  qed
qed (simp add: imported_map_def)

lemma distinct_map_sort_key: "distinct (map f (sort_key g xs)) = distinct (map f xs)"
  by (simp add: distinct_map)

lemma export_all:
  assumes "dd_bloom_filter d = None" "length (dd_seen_messages d) \<le> max_ids" "hm_inv (dd_seen_messages d)"
  shows "distinct (map si_id (dd_export_seen max_ids d))"
    and "length (dd_export_seen max_ids d) \<le> length (dd_seen_messages d)"
    and "s \<in> set (dd_export_seen max_ids d) \<longleftrightarrow> (\<exists>e. map_of (dd_seen_messages d) (si_id s) = Some e \<and> se_exportable e \<and>
      si_seen_at_ms s = timestamp_millis (se_seen_at e))"
proof -
  let ?f = "\<lambda>(k, e). \<lparr>si_id = k, si_seen_at_ms = timestamp_millis (se_seen_at e)\<rparr> :: seen_id"
  let ?es = "filter (\<lambda>(_, e). se_exportable e) (dd_seen_messages d)"
  have short: "length ?es \<le> length (dd_seen_messages d)" by simp
  then have all: "dd_export_seen max_ids d = sort_key newest_id_first (map ?f ?es)"
    using assms(1,2) le_trans[OF short assms(2)] by (simp add: dd_export_seen_def)
  have "map si_id (map ?f ?es) = map fst ?es" by (simp add: case_prod_beta comp_def)
  moreover have "distinct (map fst ?es)" using hm_inv_filter[OF assms(3)] by (simp add: hm_inv_def)
  ultimately show "distinct (map si_id (dd_export_seen max_ids d))"
    unfolding all distinct_map_sort_key by (simp only:)
  show "length (dd_export_seen max_ids d) \<le> length (dd_seen_messages d)" unfolding all using short by simp
  show "s \<in> set (dd_export_seen max_ids d) \<longleftrightarrow> (\<exists>e. map_of (dd_seen_messages d) (si_id s) = Some e \<and> se_exportable e \<and>
      si_seen_at_ms s = timestamp_millis (se_seen_at e))"
    unfolding all set_sort hm_get_eq[OF assms(3)] by (cases s) auto
qed

text \<open>C22. The seen set survives a restart: exporting all ids of an exact deduplicator and importing them
  into a new exact one with room for them brings back exactly the inbound ids that are still inside
  the retention window at the time of the import (to the millisecond); local marks stay behind, and
  the count returned is the number of ids tracked.\<close>

theorem seen_set_survives_restart:
  assumes "dd_inv d" "dd_bloom_filter d = None" "length (dd_seen_messages d) \<le> max_ids"
    and "dd_bloom_filter (dd_with_config created config) = None"
    and "length (dd_seen_messages d) \<le> dc_max_tracked_messages config"
    and "dd_cutoff rng config now = Some cutoff"
    and "\<forall>e\<in>snd ` set (dd_seen_messages d). rng (timestamp_millis (se_seen_at e) * 1000000)"
  shows "\<exists>n d'. dd_import_seen rng (dd_export_seen max_ids d) now (dd_with_config created config) = Some (n, d') \<and>
    dd_tracked_count d' = n \<and>
    (\<forall>k. dd_is_duplicate k d' \<longleftrightarrow> (\<exists>e. map_of (dd_seen_messages d) k = Some e \<and> se_exportable e \<and>
        cutoff < timestamp_millis (se_seen_at e) * 1000000))"
proof -
  let ?d0 = "dd_with_config created config" and ?es = "dd_export_seen max_ids d"
  have d0: "dd_seen_messages ?d0 = []" "dd_config ?d0 = config" by (simp_all add: dd_with_config_def Let_def)
  note ex = export_all[OF assms(2,3) dd_inv_hm[OF assms(1)]]
  obtain n d' where out: "dd_import_loop rng cutoff ?es 0 ?d0 = (n, d')" by fastforce
  have loop: "n = length (filter (importable rng cutoff) ?es)" "dd_bloom_filter d' = None"
    "length (dd_seen_messages d') = n" "map_of (dd_seen_messages d') = imported_map rng cutoff ?es"
    using import_loop_all[OF ex(1) _ _ _ out] ex(2) assms(4,5) by (simp_all add: d0)
  have dup: "dd_is_duplicate k d' \<longleftrightarrow> (\<exists>s\<in>set ?es. importable rng cutoff s \<and> si_id s = k)" for k
    unfolding imported_map_eq[OF ex(1), symmetric] by (simp add: dd_is_duplicate_def loop hm_contains_def)
  have survives: "(\<exists>s\<in>set ?es. importable rng cutoff s \<and> si_id s = k) \<longleftrightarrow>
    (\<exists>e. map_of (dd_seen_messages d) k = Some e \<and> se_exportable e \<and> cutoff < timestamp_millis (se_seen_at e) * 1000000)"
    (is "?L \<longleftrightarrow> ?R") for k
  proof
    show "?L \<Longrightarrow> ?R" by (auto simp: ex(3) importable_def)
    assume ?R
    then obtain e where e: "map_of (dd_seen_messages d) k = Some e" "se_exportable e"
      "cutoff < timestamp_millis (se_seen_at e) * 1000000" by blast
    have "rng (timestamp_millis (se_seen_at e) * 1000000)"
      using assms(7) map_of_SomeD[OF e(1)] by force
    then show ?L using e ex(3)[of "\<lparr>si_id = k, si_seen_at_ms = timestamp_millis (se_seen_at e)\<rparr>"]
      by (intro bexI[of _ "\<lparr>si_id = k, si_seen_at_ms = timestamp_millis (se_seen_at e)\<rparr>"])
         (simp_all add: importable_def)
  qed
  have "dd_import_seen rng ?es now ?d0 = Some (n, d')" using assms(4,6) out by (simp add: dd_import_seen_def d0)
  moreover have "dd_tracked_count d' = n" using loop by (simp add: dd_tracked_count_def)
  ultimately show ?thesis using dup survives by blast
qed

theorem seen_set_survives_restart_witness:
  "\<exists>n d'. dd_import_seen (\<lambda>_. True) (dd_export_seen 10 (fold (dd_step (\<lambda>_. True))
       [DMark 1 1 ''a'' True, DMark 2 2 ''b'' False] (dd_with_config 0 dedup_config_default)))
       9 (dd_with_config 5 dedup_config_default) = Some (n, d') \<and> dd_tracked_count d' = n \<and>
     dd_is_duplicate ''a'' d' \<and> \<not> dd_is_duplicate ''b'' d'"
proof -
  define d where "d = fold (dd_step (\<lambda>_. True))
       [DMark 1 1 ''a'' True, DMark 2 2 ''b'' False] (dd_with_config 0 dedup_config_default)"
  have inv: "dd_inv d" unfolding d_def
    by (rule ddm.run_inv[OF dd_new_inv]) code_simp
  have parts: "dd_bloom_filter d = None" "length (dd_seen_messages d) \<le> 10"
    "dd_bloom_filter (dd_with_config 5 dedup_config_default) = None"
    "length (dd_seen_messages d) \<le> dc_max_tracked_messages dedup_config_default"
    "dd_cutoff (\<lambda>_. True) dedup_config_default 9 = Some (9 - 604800000000000)"
    "map_of (dd_seen_messages d) ''a'' = Some \<lparr>se_seen_at = 1, se_last_accessed = 1, se_exportable = True\<rparr>"
    "map_of (dd_seen_messages d) ''b'' = Some \<lparr>se_seen_at = 2, se_last_accessed = 2, se_exportable = False\<rparr>"
    unfolding d_def by code_simp+
  from seen_set_survives_restart[OF inv parts(1-5)]
  obtain n d' where "dd_import_seen (\<lambda>_. True) (dd_export_seen 10 d) 9 (dd_with_config 5 dedup_config_default) = Some (n, d')"
    "dd_tracked_count d' = n" and dup: "\<And>k. dd_is_duplicate k d' \<longleftrightarrow> (\<exists>e. map_of (dd_seen_messages d) k = Some e \<and>
      se_exportable e \<and> 9 - 604800000000000 < timestamp_millis (se_seen_at e) * 1000000)" by blast
  moreover have "dd_is_duplicate ''a'' d'" "\<not> dd_is_duplicate ''b'' d'"
    using parts(6,7) by (simp_all add: dup timestamp_millis_def)
  ultimately show ?thesis unfolding d_def[symmetric] by blast
qed

subsection \<open>How long the Bloom mode remembers\<close>

text \<open>Operations that read the clock inside a window of length \<open>w\<close> from \<open>t0\<close>; clearing and reconfiguring
  throw the filters away.\<close>

fun within_window :: "datetime \<Rightarrow> int \<Rightarrow> dd_op \<Rightarrow> bool" where
  "within_window t0 w (DMark now now' x e) = (t0 \<le> now \<and> now < t0 + w \<and> t0 \<le> now' \<and> now' < t0 + w)"
| "within_window t0 w (DCheck now x) = (t0 \<le> now \<and> now < t0 + w)"
| "within_window t0 w (DReconfigure _ _ _) = False"
| "within_window t0 w (DClear _) = False"
| "within_window t0 w _ = True"

definition bloom_remembers :: "string \<Rightarrow> datetime \<Rightarrow> nat \<Rightarrow> nat \<Rightarrow> deduplicator \<Rightarrow> bool" where
  "bloom_remembers x t0 n R d \<longleftrightarrow> (\<exists>rb. dd_bloom_filter d = Some rb \<and> rb_keeps x t0 rb \<and>
     length (rb_filters rb) = n \<and> rb_rotation_interval_secs rb = R)"

lemma bloom_remembers_step:
  assumes "bloom_remembers x t0 n R d" "0 < R" "R < 2 ^ 63"
    and "within_window t0 ((int n - 1) * (int R * 1000000000)) op"
  shows "bloom_remembers x t0 n R (dd_step rng op d)"
proof -
  obtain rb where rb: "dd_bloom_filter d = Some rb" "rb_keeps x t0 rb" "length (rb_filters rb) = n"
    "rb_rotation_interval_secs rb = R" using assms(1) by (auto simp: bloom_remembers_def)
  have rot: "rb_keeps x t0 (rb_maybe_rotate now rb')"
    if "rb_keeps x t0 rb'" "length (rb_filters rb') = n" "rb_rotation_interval_secs rb' = R"
      "t0 \<le> now" "now < t0 + (int n - 1) * (int R * 1000000000)" for now rb'
    using that assms(2,3) by (intro rb_keeps_rotate) (simp_all add: rb_window_def)
  have ins: "rb_keeps x t0 (rb_insert now y rb')"
    if "rb_keeps x t0 rb'" "length (rb_filters rb') = n" "rb_rotation_interval_secs rb' = R"
      "t0 \<le> now" "now < t0 + (int n - 1) * (int R * 1000000000)" for now y rb'
    using rb_keeps_add[OF rot[OF that], of y] by (simp add: rb_insert_def Let_def)
  show ?thesis using rb assms(4) rot ins
    by (cases op)
       (auto simp: dd_step_def bloom_remembers_def dd_mark_seen_with_def dd_is_duplicate_mut_def dd_unmark_seen_def
         dd_cleanup_expired_def dd_import_seen_def rb_contains_def Let_def)
qed

text \<open>C23. In Bloom mode an id is never forgotten within \<open>(filter_count - 1) * rotation_secs\<close> seconds of its
  marking: whatever is marked, looked up, unmarked, cleaned up or imported meanwhile, it is reported
  as a duplicate.  With the default four filters of 900 seconds that is 45 minutes; the newest filter
  may be about to rotate when the id is marked, so the last window does not count.\<close>

theorem bloom_window:
  assumes "dd_inv d" "dd_bloom_filter d = Some rb"
    and "0 < rb_rotation_interval_secs rb" "rb_rotation_interval_secs rb < 2 ^ 63"
    and "dd_mark_seen_with rng now t0 x e d = Some (True, d1)"
    and "\<forall>op\<in>set ops. within_window t0
      ((int (length (rb_filters rb)) - 1) * (int (rb_rotation_interval_secs rb) * 1000000000)) op"
  shows "dd_is_duplicate x (fold (dd_step rng) ops d1)"
proof -
  let ?n = "length (rb_filters rb)" and ?R = "rb_rotation_interval_secs rb"
  have "rb_ok rb" using assms(1,2) by (simp add: dd_inv_def)
  then have "rb_keeps x t0 (rb_insert t0 x (rb_maybe_rotate now rb))" by (intro rb_keeps_fresh) simp
  then have "bloom_remembers x t0 ?n ?R d1"
    using assms(2,5) by (auto simp: bloom_remembers_def dd_mark_seen_with_def rb_contains_def Let_def split: if_splits)
  then have "bloom_remembers x t0 ?n ?R (fold (dd_step rng) ops d1)"
    using assms(6)
  proof (induction ops arbitrary: d1)
    case (Cons op ops)
    then show ?case using bloom_remembers_step[OF Cons.prems(1) assms(3,4)] by simp
  qed simp
  then show ?thesis by (auto simp: bloom_remembers_def dd_is_duplicate_def dest: rb_keeps_any)
qed

theorem bloom_window_witness:
  "dd_is_duplicate ''a'' (fold (dd_step (\<lambda>_. True)) [DCheck 900000000000 ''z'', DMark 1900000000000 2700000000000 ''b'' True]
     (snd (the (dd_mark_seen_with (\<lambda>_. True) 1 2 ''a'' True
        (dd_with_config 0 (dedup_config_default\<lparr>dc_use_bloom_filter := True, dc_bloom_filter_bits := 64\<rparr>))))))"
proof -
  define d where "d = dd_with_config 0 (dedup_config_default\<lparr>dc_use_bloom_filter := True, dc_bloom_filter_bits := 64\<rparr>)"
  define rb where "rb = rb_new 4 64 7 900 0"
  define out where "out = dd_mark_seen_with (\<lambda>_. True) 1 2 ''a'' True d"
  have d: "dd_bloom_filter d = Some rb"
    unfolding d_def rb_def by (simp add: dd_with_config_def dedup_config_default_def)
  have geom: "length (rb_filters rb) = 4" "rb_rotation_interval_secs rb = 900" unfolding rb_def by code_simp+
  have "rb_maybe_rotate 1 rb = rb"
    unfolding rb_def by (simp add: rb_maybe_rotate_def rb_new_def num_seconds_def u64_as_i64_small)
  moreover have "\<not> rb_any ''a'' rb" unfolding rb_def by (simp add: rb_new_forgets)
  ultimately have "map_option fst out = Some True"
    unfolding out_def by (simp add: dd_mark_seen_with_def d rb_contains_def)
  then obtain d1 where out: "out = Some (True, d1)" by auto
  have "dd_is_duplicate ''a'' (fold (dd_step (\<lambda>_. True)) [DCheck 900000000000 ''z'', DMark 1900000000000 2700000000000 ''b'' True] d1)"
  proof (rule bloom_window[OF _ d])
    show "dd_inv d" unfolding d_def by (rule dd_new_inv)
    show "dd_mark_seen_with (\<lambda>_. True) 1 2 ''a'' True d = Some (True, d1)" using out by (simp add: out_def)
  qed (simp_all add: geom)
  then show ?thesis unfolding d_def[symmetric] out_def[symmetric] out by simp
qed

end
