(* ===== verification/Floats.thy ===== *)
theory Floats
  imports Prelude "HOL-Library.Log_Nat"
begin

text \<open>
  The finite floating-point numbers of Rust.  A value of \<open>f32\<close> or \<open>f64\<close> is the rational number it
  stands for; the result of an operation is the exact result rounded to the nearest number of the
  format, ties to even, as IEEE 754 prescribes and Rust guarantees.  \<open>fl_round p emin\<close> is that
  rounding for \<open>p\<close> bits of precision and least exponent \<open>emin\<close>.

  Infinities and NaN are not values of the model: the code modelled with it divides by non-zero
  numbers and stays far below the largest number of the format.  The two zeros are one.
\<close>

subsection \<open>Rounding\<close>

definition round_half_even :: "rat \<Rightarrow> int" where
  "round_half_even x = (let f = \<lfloor>x\<rfloor>; d = x - of_int f in
     if d < 1 / 2 then f else if 1 / 2 < d then f + 1 else if even f then f else f + 1)"

text \<open>The exponent of a positive number: the greatest \<open>e\<close> with \<open>2\<^sup>e \<le> x\<close>.\<close>

definition fl_exponent :: "rat \<Rightarrow> int" where
  "fl_exponent x = (let (a, b) = quotient_of x;
       k = int (floorlog 2 (nat a)) - int (floorlog 2 (nat b))
     in if x < 2 powi k then k - 1 else k)"

definition fl_round :: "nat \<Rightarrow> int \<Rightarrow> rat \<Rightarrow> rat" where
  "fl_round p emin x =
     (if x = 0 then 0
      else let q = 2 powi (max (fl_exponent \<bar>x\<bar>) emin - int p + 1)
           in of_int (round_half_even (x / q)) * q)"

definition f32 :: "rat \<Rightarrow> rat" where
  "f32 = fl_round 24 (- 126)"

definition f64 :: "rat \<Rightarrow> rat" where
  "f64 = fl_round 53 (- 1022)"

subsection \<open>Conversions\<close>

text \<open>\<open>round\<close>: to the nearest integer, halves away from zero.  \<open>as_uint\<close>, \<open>as_int\<close>: the saturating
  casts \<open>as u8\<close>, \<open>as u32\<close>, \<open>as i16\<close>, which cut towards zero first.\<close>

definition round_away :: "rat \<Rightarrow> int" where
  "round_away x = (if 0 \<le> x then \<lfloor>x + 1 / 2\<rfloor> else - \<lfloor>- x + 1 / 2\<rfloor>)"

definition trunc :: "rat \<Rightarrow> int" where
  "trunc x = (if 0 \<le> x then \<lfloor>x\<rfloor> else - \<lfloor>- x\<rfloor>)"

definition as_uint :: "nat \<Rightarrow> rat \<Rightarrow> nat" where
  "as_uint w x = nat (max 0 (min (2 ^ w - 1) (trunc x)))"

definition as_sint :: "nat \<Rightarrow> rat \<Rightarrow> int" where
  "as_sint w x = max (- (2 ^ (w - 1))) (min (2 ^ (w - 1) - 1) (trunc x))"

text \<open>\<open>Duration::as_secs_f32\<close>.\<close>

definition as_secs_f32 :: "duration \<Rightarrow> rat" where
  "as_secs_f32 d = f32 (f32 (of_nat (d div 1000000000)) + f32 (f32 (of_nat (d mod 1000000000)) / 1000000000))"

subsection \<open>Lemmas\<close>

lemma round_half_even_int [simp]: "round_half_even (of_int n) = n"
  by (simp add: round_half_even_def)

lemma round_half_even_cases:
  obtains "round_half_even x = \<lfloor>x\<rfloor>" "x - of_int \<lfloor>x\<rfloor> \<le> 1 / 2"
  | "round_half_even x = \<lfloor>x\<rfloor> + 1" "1 / 2 \<le> x - of_int \<lfloor>x\<rfloor>"
proof (cases "x - of_int \<lfloor>x\<rfloor>" "1 / 2 :: rat" rule: linorder_cases)
  case less
  then show ?thesis using that(1) by (simp add: round_half_even_def)
next
  case equal
  then show ?thesis using that by (cases "even \<lfloor>x\<rfloor>") (simp_all add: round_half_even_def)
next
  case greater
  then show ?thesis using that(2) by (simp add: round_half_even_def Let_def)
qed

lemma round_half_even_near: "\<bar>of_int (round_half_even x) - x\<bar> \<le> 1 / 2"
proof -
  have "of_int \<lfloor>x\<rfloor> \<le> x" "x < of_int \<lfloor>x\<rfloor> + 1" by linarith+
  then show ?thesis
    by (cases x rule: round_half_even_cases) (simp_all only: abs_le_iff of_int_add of_int_1, linarith+)
qed

lemma round_half_even_mono: "x \<le> y \<Longrightarrow> round_half_even x \<le> round_half_even y"
proof -
  assume le: "x \<le> y"
  then have "\<lfloor>x\<rfloor> \<le> \<lfloor>y\<rfloor>" by (rule floor_mono)
  moreover have "round_half_even x \<le> \<lfloor>x\<rfloor> + 1" "\<lfloor>y\<rfloor> \<le> round_half_even y"
    by (simp_all add: round_half_even_def Let_def)
  moreover have "round_half_even x \<le> round_half_even y" if "\<lfloor>x\<rfloor> = \<lfloor>y\<rfloor>"
    using le that by (auto simp: round_half_even_def Let_def)
  ultimately show ?thesis by linarith
qed

lemma fl_round_zero [simp]: "fl_round p emin 0 = 0"
  by (simp add: fl_round_def)

lemma f32_zero [simp]: "f32 0 = 0"
  by (simp add: f32_def)

lemma f64_zero [simp]: "f64 0 = 0"
  by (simp add: f64_def)

lemma two_powi_add: "(2 :: rat) powi a * 2 powi b = 2 powi (a + b)"
  by (simp add: power_int_add)

lemma two_power_powi: "(2 :: rat) ^ n * 2 powi b = 2 powi (int n + b)"
  using two_powi_add[of "int n" b] by simp

lemma fl_exponent_bounds:
  assumes "0 < x"
  shows "2 powi (fl_exponent x) \<le> x" "x < 2 powi (fl_exponent x + 1)"
proof -
  obtain a b where ab: "quotient_of x = (a, b)" by fastforce
  have b: "0 < b" and x: "x = of_int a / of_int b" using quotient_of_denom_pos[OF ab] quotient_of_div[OF ab] by auto
  have a: "0 < a" using assms b unfolding x by (simp add: zero_less_divide_iff)
  define A B where "A = floorlog 2 (nat a)" and "B = floorlog 2 (nat b)"
  have na: "2 ^ (A - 1) \<le> nat a" "nat a < 2 ^ A" and nb: "2 ^ (B - 1) \<le> nat b" "nat b < 2 ^ B"
    using floorlog_bounds[of "nat a" 2] floorlog_bounds[of "nat b" 2] a b by (auto simp: A_def B_def)
  have AB: "0 < A" "0 < B" using na nb a b by (auto intro: gr0I)
  have ia: "(2 :: rat) powi (int A - 1) \<le> of_int a" "of_int a < (2 :: rat) powi int A"
    and ib: "(2 :: rat) powi (int B - 1) \<le> of_int b" "of_int b < (2 :: rat) powi int B"
  proof -
    have pw: "(2 :: rat) powi int n = of_nat (2 ^ n)" for n by simp
    have sub: "int A - 1 = int (A - 1)" "int B - 1 = int (B - 1)" using AB by auto
    have "of_nat (2 ^ (A - 1)) \<le> (of_nat (nat a) :: rat)" "of_nat (nat a) < (of_nat (2 ^ A) :: rat)"
      "of_nat (2 ^ (B - 1)) \<le> (of_nat (nat b) :: rat)" "of_nat (nat b) < (of_nat (2 ^ B) :: rat)"
      using na nb by (simp_all only: of_nat_le_iff of_nat_less_iff)
    then show "(2 :: rat) powi (int A - 1) \<le> of_int a" "of_int a < (2 :: rat) powi int A"
      "(2 :: rat) powi (int B - 1) \<le> of_int b" "of_int b < (2 :: rat) powi int B"
      unfolding sub pw using a b by simp_all
  qed
  have bp: "(0 :: rat) < of_int b" using b by simp
  have low: "2 powi (int A - int B - 1) < x"
  proof -
    have "2 powi (int A - int B - 1) * of_int b < 2 powi (int A - int B - 1) * (2 :: rat) powi int B"
      using ib(2) by simp
    also have "\<dots> = 2 powi (int A - 1)" unfolding two_powi_add by (simp add: algebra_simps)
    finally show ?thesis unfolding x using ia(1) bp by (simp add: less_divide_eq)
  qed
  have high: "x < 2 powi (int A - int B + 1)"
  proof -
    have "of_int a < (2 :: rat) powi int A" by (rule ia)
    also have "\<dots> = 2 powi (int A - int B + 1) * 2 powi (int B - 1)"
      unfolding two_powi_add by (simp add: algebra_simps)
    also have "\<dots> \<le> 2 powi (int A - int B + 1) * of_int b" using ib(1) by simp
    finally show ?thesis unfolding x using bp by (simp add: divide_less_eq)
  qed
  have e: "fl_exponent x = (if x < 2 powi (int A - int B) then int A - int B - 1 else int A - int B)"
    by (simp add: fl_exponent_def ab A_def B_def Let_def)
  show "2 powi (fl_exponent x) \<le> x" "x < 2 powi (fl_exponent x + 1)" using low high unfolding e by auto
qed

lemma fl_exponent_least:
  assumes "0 < x" "x < 2 powi k"
  shows "fl_exponent x < k"
proof (rule ccontr)
  assume "\<not> fl_exponent x < k"
  then have "(2 :: rat) powi k \<le> 2 powi fl_exponent x" by (intro power_int_increasing) simp_all
  then show False using fl_exponent_bounds(1)[OF assms(1)] assms(2) by simp
qed

lemma fl_exponent_mono: "0 < x \<Longrightarrow> x \<le> y \<Longrightarrow> fl_exponent x \<le> fl_exponent y"
  using fl_exponent_bounds(2)[of y] fl_exponent_least[of x "fl_exponent y + 1"] by linarith

text \<open>The unit of the last place at a number.\<close>

definition fl_ulp :: "nat \<Rightarrow> int \<Rightarrow> rat \<Rightarrow> rat" where
  "fl_ulp p emin x = 2 powi (max (fl_exponent x) emin - int p + 1)"

lemma fl_ulp_pos [simp]: "0 < fl_ulp p emin x"
  by (simp add: fl_ulp_def)

lemma fl_ulp_nonneg [simp]: "0 \<le> fl_ulp p emin x" "fl_ulp p emin x \<noteq> 0"
  by (simp_all add: fl_ulp_def less_imp_le)

lemma fl_round_pos: "0 < x \<Longrightarrow> fl_round p emin x = of_int (round_half_even (x / fl_ulp p emin x)) * fl_ulp p emin x"
  by (simp add: fl_round_def fl_ulp_def Let_def)

lemma fl_round_nonneg: "0 \<le> x \<Longrightarrow> 0 \<le> fl_round p emin x"
proof (cases "x = 0")
  case False
  assume "0 \<le> x"
  then have "0 < x" using False by simp
  moreover have "0 \<le> round_half_even (x / fl_ulp p emin x)"
    using round_half_even_mono[of 0 "x / fl_ulp p emin x"] round_half_even_int[of 0] calculation by simp
  ultimately show ?thesis by (simp add: fl_round_pos)
qed simp

lemma round_half_even_le_int: "x \<le> of_int n \<Longrightarrow> round_half_even x \<le> n"
  using round_half_even_mono[of x "of_int n"] by simp

lemma round_half_even_ge_int: "of_int n \<le> x \<Longrightarrow> n \<le> round_half_even x"
  using round_half_even_mono[of "of_int n" x] by simp

lemma fl_round_le_power:
  assumes "0 < x" "max (fl_exponent x) emin < k" "1 \<le> p"
  shows "fl_round p emin x \<le> 2 powi k"
proof -
  let ?m = "max (fl_exponent x) emin"
  have "x < 2 powi (fl_exponent x + 1)" by (rule fl_exponent_bounds[OF assms(1)])
  also have "\<dots> \<le> 2 powi (?m + 1)" by (rule power_int_increasing) simp_all
  also have "\<dots> = 2 ^ p * fl_ulp p emin x"
    using assms(3) by (simp add: fl_ulp_def two_power_powi)
  finally have "x / fl_ulp p emin x \<le> of_int (2 ^ p)" by (simp add: divide_le_eq)
  then have "of_int (round_half_even (x / fl_ulp p emin x)) \<le> (2 ^ p :: rat)"
    using round_half_even_le_int by (metis of_int_le_iff of_int_numeral of_int_power)
  then have "fl_round p emin x \<le> 2 ^ p * fl_ulp p emin x" unfolding fl_round_pos[OF assms(1)] by simp
  also have "\<dots> = 2 powi (?m + 1)" using assms(3) by (simp add: fl_ulp_def two_power_powi)
  also have "\<dots> \<le> 2 powi k" by (rule power_int_increasing) (use assms(2) in linarith, simp)
  finally show ?thesis .
qed

lemma fl_round_ge_power:
  assumes "0 < y" "emin \<le> fl_exponent y" "k \<le> fl_exponent y" "1 \<le> p"
  shows "2 powi k \<le> fl_round p emin y"
proof -
  have e: "2 powi fl_exponent y = 2 ^ (p - 1) * fl_ulp p emin y"
    using assms(2,4) by (simp add: fl_ulp_def two_power_powi)
  then have "of_int (2 ^ (p - 1)) \<le> y / fl_ulp p emin y"
    using fl_exponent_bounds(1)[OF assms(1)] by (simp add: le_divide_eq)
  then have "(2 ^ (p - 1) :: rat) \<le> of_int (round_half_even (y / fl_ulp p emin y))"
    using round_half_even_ge_int by (metis of_int_le_iff of_int_numeral of_int_power)
  then have "2 ^ (p - 1) * fl_ulp p emin y \<le> fl_round p emin y" unfolding fl_round_pos[OF assms(1)] by simp
  moreover have "(2 :: rat) powi k \<le> 2 powi fl_exponent y" by (rule power_int_increasing) (use assms(3) in simp_all)
  ultimately show ?thesis using e by simp
qed

text \<open>Rounding is monotone.\<close>

lemma fl_round_mono:
  assumes "0 \<le> x" "x \<le> y" "1 \<le> p"
  shows "fl_round p emin x \<le> fl_round p emin y"
proof (cases "x = 0")
  case True
  then show ?thesis using fl_round_nonneg[of y p emin] assms by simp
next
  case False
  then have x: "0 < x" and y: "0 < y" using assms by auto
  show ?thesis
  proof (cases "max (fl_exponent x) emin = max (fl_exponent y) emin")
    case True
    then have u: "fl_ulp p emin x = fl_ulp p emin y" by (simp add: fl_ulp_def)
    have "x / fl_ulp p emin x \<le> y / fl_ulp p emin x" using assms(2) by (simp add: divide_right_mono)
    then show ?thesis unfolding fl_round_pos[OF x] fl_round_pos[OF y] u[symmetric]
      using round_half_even_mono by (simp add: mult_right_mono)
  next
    case False
    then have lt: "max (fl_exponent x) emin < fl_exponent y" "emin \<le> fl_exponent y"
      using fl_exponent_mono[OF x assms(2)] by auto
    have "fl_round p emin x \<le> 2 powi fl_exponent y" by (rule fl_round_le_power[OF x lt(1) assms(3)])
    also have "\<dots> \<le> fl_round p emin y" by (rule fl_round_ge_power[OF y lt(2) order_refl assms(3)])
    finally show ?thesis .
  qed
qed

text \<open>The numbers of a format, which rounding keeps.\<close>

definition fl_number :: "nat \<Rightarrow> int \<Rightarrow> rat \<Rightarrow> bool" where
  "fl_number p emin x \<longleftrightarrow> (\<exists>k j. x = of_int k * 2 powi j \<and> \<bar>k\<bar> \<le> 2 ^ p \<and> emin - int p + 1 \<le> j)"

lemma fl_round_number_pos:
  assumes "0 \<le> x" "1 \<le> p"
  shows "fl_number p emin (fl_round p emin x)"
proof (cases "x = 0")
  case True
  then show ?thesis
    unfolding fl_number_def by (intro exI[of _ 0] exI[of _ "emin - int p + 1"]) simp
next
  case False
  then have x: "0 < x" using assms by simp
  let ?r = "round_half_even (x / fl_ulp p emin x)"
  have "fl_round p emin x \<le> 2 powi (max (fl_exponent x) emin + 1)" by (rule fl_round_le_power[OF x _ assms(2)]) simp
  also have "\<dots> = 2 ^ p * fl_ulp p emin x" using assms(2) by (simp add: fl_ulp_def two_power_powi)
  finally have "of_int ?r \<le> (2 ^ p :: rat)" unfolding fl_round_pos[OF x] by simp
  then have "?r \<le> 2 ^ p" by (metis of_int_le_iff of_int_numeral of_int_power)
  moreover have "0 \<le> ?r" using round_half_even_ge_int[of 0 "x / fl_ulp p emin x"] x by simp
  ultimately have r: "\<bar>?r\<bar> \<le> 2 ^ p" by simp
  show ?thesis unfolding fl_number_def fl_round_pos[OF x] fl_ulp_def
    by (rule exI[of _ ?r], rule exI[of _ "max (fl_exponent x) emin - int p + 1"]) (use r in \<open>simp add: fl_ulp_def\<close>)
qed

lemma fl_round_id:
  assumes "fl_number p emin x" "0 \<le> x" "1 \<le> p"
  shows "fl_round p emin x = x"
proof (cases "x = 0")
  case False
  then have x: "0 < x" using assms by simp
  obtain k j where k: "x = of_int k * 2 powi j" "\<bar>k\<bar> \<le> 2 ^ p" "emin - int p + 1 \<le> j"
    using assms(1) by (auto simp: fl_number_def)
  have "0 < (2 :: rat) powi j" by simp
  then have "0 < (of_int k :: rat)" using x k(1) zero_less_mult_pos2 by blast
  then have k0: "0 < k" by simp
  obtain n where n: "x / fl_ulp p emin x = of_int n"
  proof (cases "k < 2 ^ p")
    case True
    then have "of_int k < (2 ^ p :: rat)" by (metis of_int_less_iff of_int_numeral of_int_power)
    then have "x < 2 ^ p * 2 powi j" unfolding k(1) by simp
    also have "\<dots> = 2 powi (int p + j)" by (simp add: two_power_powi)
    finally have "fl_exponent x < int p + j" by (rule fl_exponent_least[OF x])
    then have le: "max (fl_exponent x) emin - int p + 1 \<le> j" using k(3) by linarith
    define d where "d = nat (j - (max (fl_exponent x) emin - int p + 1))"
    have "(2 :: rat) powi j = 2 ^ d * fl_ulp p emin x"
      using le by (simp add: fl_ulp_def d_def two_power_powi)
    then have "x = of_int (k * 2 ^ d) * fl_ulp p emin x" using k(1) by simp
    then have "x / fl_ulp p emin x = of_int (k * 2 ^ d)" by (metis fl_ulp_nonneg(2) nonzero_mult_div_cancel_right)
    then show ?thesis by (rule that)
  next
    case False
    then have keq: "k = 2 ^ p" using k(2) k0 by simp
    then have xe: "x = 2 powi (int p + j)" unfolding k(1) by (simp add: two_power_powi)
    have "int p + j \<le> fl_exponent x"
    proof (rule ccontr)
      assume "\<not> int p + j \<le> fl_exponent x"
      then have "(2 :: rat) powi (fl_exponent x + 1) \<le> 2 powi (int p + j)" by (intro power_int_increasing) simp_all
      then show False using fl_exponent_bounds(2)[OF x] xe by simp
    qed
    moreover have "fl_exponent x < int p + j + 1" 
      by (rule fl_exponent_least[OF x]) (simp add: xe power_int_strict_increasing)
    ultimately have e: "max (fl_exponent x) emin = int p + j" using k(3) by simp
    have "x = 2 ^ (p - 1) * fl_ulp p emin x"
      unfolding fl_ulp_def e using assms(3) by (simp add: xe two_power_powi)
    then have "x / fl_ulp p emin x = of_int (2 ^ (p - 1))"
      by (metis fl_ulp_nonneg(2) nonzero_mult_div_cancel_right of_int_numeral of_int_power)
    then show ?thesis by (rule that)
  qed
  then have "fl_round p emin x = of_int n * fl_ulp p emin x" unfolding fl_round_pos[OF x] n by simp
  also have "\<dots> = x" using n by (simp add: field_simps)
  finally show ?thesis .
qed simp

abbreviation is_f32 :: "rat \<Rightarrow> bool" where
  "is_f32 \<equiv> fl_number 24 (- 126)"

lemma f32_mono: "0 \<le> x \<Longrightarrow> x \<le> y \<Longrightarrow> f32 x \<le> f32 y"
  unfolding f32_def by (rule fl_round_mono) simp_all

lemma f32_nonneg [simp]: "0 \<le> x \<Longrightarrow> 0 \<le> f32 x"
  unfolding f32_def by (rule fl_round_nonneg)

lemma f32_is_f32: "0 \<le> x \<Longrightarrow> is_f32 (f32 x)"
  unfolding f32_def by (rule fl_round_number_pos) simp_all

lemma f32_id: "is_f32 x \<Longrightarrow> 0 \<le> x \<Longrightarrow> f32 x = x"
  unfolding f32_def by (rule fl_round_id) simp_all

lemma nat_is_f32: "n \<le> 2 ^ 24 \<Longrightarrow> is_f32 (of_nat n)"
  unfolding fl_number_def by (rule exI[of _ "int n"], rule exI[of _ 0]) simp

lemma f32_le: "is_f32 y \<Longrightarrow> 0 \<le> x \<Longrightarrow> x \<le> y \<Longrightarrow> f32 x \<le> y"
  using f32_mono[of x y] f32_id[of y] by simp

lemma f32_ge: "is_f32 x \<Longrightarrow> 0 \<le> x \<Longrightarrow> x \<le> y \<Longrightarrow> x \<le> f32 y"
  using f32_mono[of x y] f32_id[of x] by simp

text \<open>Taking one from a number of moderate size is exact.\<close>

lemma f32_pred:
  assumes "is_f32 x" "1 \<le> x" "x \<le> 2 ^ 24"
  shows "is_f32 (x - 1)"
proof -
  obtain k j where k: "x = of_int k * 2 powi j" "\<bar>k\<bar> \<le> 2 ^ 24" "- 149 \<le> j"
    using assms(1) by (auto simp: fl_number_def)
  show ?thesis
  proof (cases "0 \<le> j")
    case True
    then obtain n where n: "j = int n" using nonneg_int_cases by blast
    define d where "d = k * 2 ^ n"
    have x: "x = of_int d" unfolding k(1) n d_def by simp
    have "(of_int d :: rat) \<le> of_int (2 ^ 24)" using assms(3) unfolding x by simp
    then have "d \<le> 2 ^ 24" by (simp only: of_int_le_iff)
    moreover have "1 \<le> d" using assms(2) unfolding x by simp
    ultimately have "\<bar>d - 1\<bar> \<le> 2 ^ 24" by simp
    then show ?thesis unfolding fl_number_def x
      by (intro exI[of _ "d - 1"] exI[of _ 0]) simp
  next
    case False
    then obtain n where n: "j = - int n" by (metis nle_le nonpos_int_cases)
    have one: "(1 :: rat) = of_int (2 ^ n) * 2 powi j" using two_power_powi[of n j] n by simp
    have eq: "x - 1 = of_int (k - 2 ^ n) * 2 powi j"
      unfolding k(1) by (subst one) (simp add: left_diff_distrib)
    define d where "d = k - 2 ^ n"
    have eqd: "x - 1 = of_int d * 2 powi j" using eq by (simp only: d_def)
    have pos: "(0 :: rat) < 2 powi j" by simp
    have "0 \<le> of_int d * (2 powi j :: rat)" using assms(2) eqd by simp
    then have "\<not> (of_int d :: rat) < 0" using pos mult_neg_pos by (metis not_less)
    then have "0 \<le> d" by simp
    moreover have "d \<le> 2 ^ 24" using k(2) zero_le_power[of "2 :: int" n] unfolding d_def by linarith
    ultimately have "\<bar>d\<bar> \<le> 2 ^ 24" by simp
    then show ?thesis unfolding fl_number_def
      using k(3) eqd by (intro exI[of _ d] exI[of _ j]) simp
  qed
qed

lemma f32_minus_one: "is_f32 x \<Longrightarrow> 1 \<le> x \<Longrightarrow> x \<le> 2 ^ 24 \<Longrightarrow> f32 (x - 1) = x - 1"
  by (simp add: f32_id f32_pred)

text \<open>Below one, rounding moves a number by at most \<open>2\<^sup>-\<^sup>2\<^sup>5\<close>.\<close>

lemma f32_error:
  assumes "0 \<le> x" "x < 1"
  shows "f32 x \<le> x + 1 / 2 ^ 25"
proof (cases "x = 0")
  case False
  then have x: "0 < x" using assms by simp
  let ?u = "fl_ulp 24 (- 126) x"
  have "fl_exponent x < 0" using fl_exponent_least[of x 0] x assms by simp
  then have "?u \<le> 2 powi (- 24)" unfolding fl_ulp_def by (intro power_int_increasing) auto
  also have "(2 :: rat) powi (- 24) = 1 / 2 ^ 24" by (simp only: power_int_minus power_int_numeral inverse_eq_divide)
  finally have u: "?u \<le> 1 / 2 ^ 24" .
  define u r where "u = ?u" and "r = (of_int (round_half_even (x / ?u)) :: rat)"
  have u0: "0 < u" by (simp add: u_def)
  have "r - x / u \<le> 1 / 2" using round_half_even_near[of "x / ?u"] unfolding r_def u_def by linarith
  then have "(r - x / u) * u \<le> 1 / 2 * u" using u0 by (intro mult_right_mono) simp_all
  then have "r * u - x \<le> 1 / 2 * u" using u0 by (simp add: left_diff_distrib)
  moreover have "f32 x = r * u" unfolding f32_def fl_round_pos[OF x] r_def u_def by simp
  ultimately show ?thesis using u unfolding u_def[symmetric] by simp
qed simp

end
