(* ===== verification/Ble_Fragments.thy ===== *)
theory Ble_Fragments
  imports Wire Bytes Floats
begin

text \<open>
  Fragments of the Bluetooth transport (\<open>offline-protocol-transport/src/ble.rs\<close>): their encoding, the
  cutting of a serialized message into fragments that fit a link, and the reassembly buffers with
  their idle timeout, size bound and eviction by progress.

  A \<open>SystemTime\<close> is an integer count of nanoseconds and a \<open>u16\<close> a natural number below 65536; the
  three clock readings of \<open>process_fragment\<close> are its arguments.
\<close>

abbreviation BLE_MAX_FRAGMENT_SIZE :: nat where "BLE_MAX_FRAGMENT_SIZE \<equiv> 185"
abbreviation MAX_REASONABLE_BLE_PAYLOAD :: nat where "MAX_REASONABLE_BLE_PAYLOAD \<equiv> 512"
abbreviation BLE_FRAGMENT_TIMEOUT_SECS :: nat where "BLE_FRAGMENT_TIMEOUT_SECS \<equiv> 30"
abbreviation BLE_MAX_FRAGMENT_ASSEMBLIES :: nat where "BLE_MAX_FRAGMENT_ASSEMBLIES \<equiv> 64"
abbreviation BLE_MAX_FRAGMENT_COUNT :: nat where "BLE_MAX_FRAGMENT_COUNT \<equiv> 512"
abbreviation FRAGMENT_MAGIC :: bytes where "FRAGMENT_MAGIC \<equiv> [0x4F, 0x50]"
abbreviation FRAGMENT_VERSION :: u8 where "FRAGMENT_VERSION \<equiv> 1"
abbreviation FRAGMENT_HEADER_FIXED :: nat where "FRAGMENT_HEADER_FIXED \<equiv> 10"

datatype ble_error =
    BleOther string
  | BleCountMismatch nat nat
  | BleMissing nat
  | BleTooLarge nat nat
  | BleWire transport_error

subsection \<open>Encoding\<close>

record decoded_fragment =
  df_message_id :: string
  df_fragment_index :: nat
  df_total_fragments :: nat
  df_data :: bytes

definition encode_fragment :: "bytes \<Rightarrow> nat \<Rightarrow> nat \<Rightarrow> bytes \<Rightarrow> ble_error + bytes" where
  "encode_fragment message_id fragment_index total_fragments data =
     (if 65535 < length data then Inl (BleOther ''Fragment payload too large'')
      else Inr (FRAGMENT_MAGIC @ [FRAGMENT_VERSION] @ [of_nat (length message_id)] @ message_id @
                nat_le 2 fragment_index @ nat_le 2 total_fragments @ nat_le 2 (length data) @ data))"

definition slice :: "nat \<Rightarrow> nat \<Rightarrow> bytes \<Rightarrow> bytes" where
  "slice a b bs = take (b - a) (drop a bs)"

definition decode_fragment :: "bytes \<Rightarrow> ble_error + decoded_fragment" where
  "decode_fragment bs =
     (if length bs < FRAGMENT_HEADER_FIXED then Inl (BleOther ''Fragment too short'')
      else if slice 0 2 bs \<noteq> FRAGMENT_MAGIC then Inl (BleOther ''Invalid fragment magic'')
      else if bs ! 2 \<noteq> FRAGMENT_VERSION then Inl (BleOther ''Unsupported fragment version'')
      else let id_len = unat (bs ! 3) in
        if length bs < FRAGMENT_HEADER_FIXED + id_len then Inl (BleOther ''Fragment truncated (id)'')
        else let offset = 4 + id_len in
          (case from_utf8 (slice 4 offset bs) of
             None \<Rightarrow> Inl (BleOther ''Invalid UTF-8 in message ID'')
           | Some message_id \<Rightarrow>
               if length bs < offset + 6 then Inl (BleOther ''Fragment truncated (header)'')
               else let fragment_index = le_nat (slice offset (offset + 2) bs);
                        total_fragments = le_nat (slice (offset + 2) (offset + 4) bs);
                        data_len = le_nat (slice (offset + 4) (offset + 6) bs)
                    in if length bs < offset + 6 + data_len then Inl (BleOther ''Fragment truncated (data)'')
                       else Inr \<lparr>df_message_id = message_id, df_fragment_index = fragment_index,
                                 df_total_fragments = total_fragments,
                                 df_data = slice (offset + 6) (offset + 6 + data_len) bs\<rparr>))"

subsection \<open>Cutting a message\<close>

text \<open>\<open>slice::chunks\<close>, for a size that is not zero.\<close>

function chunks :: "nat \<Rightarrow> 'a list \<Rightarrow> 'a list list" where
  "chunks n xs = (if n = 0 \<or> xs = [] then [] else take n xs # chunks n (drop n xs))"
  by pat_completeness auto
termination
  by (relation "measure (\<lambda>(n, xs). length xs)") auto

declare chunks.simps [simp del]

definition div_ceil :: "nat \<Rightarrow> nat \<Rightarrow> nat" where
  "div_ceil a b = (a + b - 1) div b"

fun encode_all :: "bytes \<Rightarrow> nat \<Rightarrow> nat \<Rightarrow> bytes list \<Rightarrow> ble_error + bytes list" where
  "encode_all message_id total_fragments i [] = Inr []"
| "encode_all message_id total_fragments i (chunk # rest) =
     res_bind (encode_fragment message_id i total_fragments chunk)
       (\<lambda>encoded. res_bind (encode_all message_id total_fragments (i + 1) rest) (\<lambda>more. Inr (encoded # more)))"

text \<open>The body of \<open>fragment_message_for\<close> once the MTU is known.\<close>

definition fragment_bytes :: "nat \<Rightarrow> string \<Rightarrow> bytes \<Rightarrow> ble_error + bytes list" where
  "fragment_bytes mtu message_id message_bytes =
     (let message_id_bytes = str_bytes message_id in
      if 255 < length message_id_bytes then Inl (BleOther ''Message ID too long'')
      else let header_overhead = FRAGMENT_HEADER_FIXED + length message_id_bytes in
        if mtu \<le> header_overhead then Inl (BleOther ''MTU too small for fragment header'')
        else let max_fragment_payload = mtu - header_overhead;
                 total_fragments = div_ceil (length message_bytes) max_fragment_payload
             in if total_fragments = 0 then Inl (BleOther ''Empty message'')
                else if BLE_MAX_FRAGMENT_COUNT < total_fragments
                then Inl (BleOther ''Message would require too many BLE fragments'')
                else if 65535 < total_fragments then Inl (BleOther ''Message too large to fragment'')
                else encode_all message_id_bytes total_fragments 0 (chunks max_fragment_payload message_bytes))"

subsection \<open>Reassembly\<close>

type_synonym system_time = int

definition duration_since :: "system_time \<Rightarrow> system_time \<Rightarrow> duration" where
  "duration_since now t = nat (now - t)"

record fragment_assembly =
  fa_total_fragments :: nat
  fa_fragments :: "(nat, bytes) hashmap"
  fa_started_at :: system_time
  fa_last_seen :: system_time
  fa_buffered_bytes :: nat

type_synonym fragment_buffers = "(string, fragment_assembly) hashmap"

definition completion_ratio :: "fragment_assembly \<Rightarrow> rat" where
  "completion_ratio a =
     (if fa_total_fragments a = 0 then 0
      else f32 (f32 (of_nat (length (fa_fragments a))) / f32 (of_nat (fa_total_fragments a))))"

definition eviction_priority :: "system_time \<Rightarrow> fragment_assembly \<Rightarrow> rat" where
  "eviction_priority now a =
     (let completion = completion_ratio a;
          age_secs = as_secs_f32 (duration_since now (fa_started_at a));
          age_penalty = f32 (min (f32 (age_secs / 60)) 1 * f32 (2 / 10))
      in f32 (completion - age_penalty))"

definition cleanup_fragment_buffers :: "system_time \<Rightarrow> fragment_buffers \<Rightarrow> fragment_buffers" where
  "cleanup_fragment_buffers now buffers =
     hm_retain (\<lambda>_ a. \<not> secs BLE_FRAGMENT_TIMEOUT_SECS < duration_since now (fa_last_seen a)) buffers"

record eviction_info =
  ev_message_id :: string
  ev_completion_percent :: nat

definition completion_percent :: "fragment_assembly \<Rightarrow> nat" where
  "completion_percent a =
     as_uint 8 (max 0 (min 100 (of_int (round_away (f32 (completion_ratio a * 100))))))"

definition evict_for :: "system_time \<Rightarrow> string \<Rightarrow> fragment_buffers \<Rightarrow> eviction_info option \<times> fragment_buffers" where
  "evict_for now message_id buffers =
     (if \<not> hm_contains message_id buffers \<and> BLE_MAX_FRAGMENT_ASSEMBLIES \<le> length buffers
      then (case min_on (\<lambda>p. eviction_priority now (snd p)) buffers of
              Some (evict_id, a) \<Rightarrow>
                (Some \<lparr>ev_message_id = evict_id, ev_completion_percent = completion_percent a\<rparr>,
                 hm_remove evict_id buffers)
            | None \<Rightarrow> (None, buffers))
      else (None, buffers))"

definition projected_bytes :: "decoded_fragment \<Rightarrow> fragment_buffers \<Rightarrow> nat" where
  "projected_bytes fragment buffers =
     (let existing = map_of buffers (df_message_id fragment);
          prior_total = (case existing of Some a \<Rightarrow> fa_buffered_bytes a | None \<Rightarrow> 0);
          prior_len = (case existing of
              Some a \<Rightarrow> (case map_of (fa_fragments a) (df_fragment_index fragment) of Some d \<Rightarrow> length d | None \<Rightarrow> 0)
            | None \<Rightarrow> 0)
      in (prior_total - prior_len) + length (df_data fragment))"

fun collect_fragments :: "(nat, bytes) hashmap \<Rightarrow> nat list \<Rightarrow> ble_error + bytes" where
  "collect_fragments fragments [] = Inr []"
| "collect_fragments fragments (i # is) = (case map_of fragments i of
       Some data \<Rightarrow> res_bind (collect_fragments fragments is) (\<lambda>rest. Inr (data @ rest))
     | None \<Rightarrow> Inl (BleMissing i))"

definition insert_fragment ::
  "system_time \<Rightarrow> decoded_fragment \<Rightarrow> nat \<Rightarrow> fragment_assembly \<Rightarrow> fragment_assembly" where
  "insert_fragment now fragment projected a =
     a\<lparr>fa_buffered_bytes := projected,
       fa_fragments := hm_insert (df_fragment_index fragment) (df_data fragment) (fa_fragments a),
       fa_last_seen := now\<rparr>"

definition new_assembly :: "system_time \<Rightarrow> nat \<Rightarrow> fragment_assembly" where
  "new_assembly now n = \<lparr>fa_total_fragments = n, fa_fragments = [], fa_started_at = now,
     fa_last_seen = now, fa_buffered_bytes = 0\<rparr>"

text \<open>The buffer section of \<open>process_fragment\<close>: the payload and start time of the assembly the fragment
  completes, if it completes one.\<close>

definition store_fragment ::
  "system_time \<Rightarrow> decoded_fragment \<Rightarrow> fragment_buffers \<Rightarrow>
     (ble_error + (bytes \<times> system_time) option) \<times> fragment_buffers" where
  "store_fragment now fragment buffers =
     (let message_id = df_message_id fragment; existing = map_of buffers message_id;
          projected = projected_bytes fragment buffers
      in if (case existing of Some a \<Rightarrow> fa_total_fragments a \<noteq> df_total_fragments fragment | None \<Rightarrow> False)
         then (Inl (BleCountMismatch (fa_total_fragments (the existing)) (df_total_fragments fragment)), buffers)
         else if DEFAULT_MAX_MESSAGE_SIZE < projected
         then (Inl (BleTooLarge projected DEFAULT_MAX_MESSAGE_SIZE), hm_remove message_id buffers)
         else let assembly = insert_fragment now fragment projected
                    (case existing of Some a \<Rightarrow> a | None \<Rightarrow> new_assembly now (df_total_fragments fragment));
                  buffers' = hm_insert message_id assembly buffers
              in if length (fa_fragments assembly) = fa_total_fragments assembly
                 then (case collect_fragments (fa_fragments assembly) [0..<fa_total_fragments assembly] of
                         Inl e \<Rightarrow> (Inl e, buffers')
                       | Inr complete_data \<Rightarrow>
                           (Inr (Some (complete_data, fa_started_at assembly)), hm_remove message_id buffers'))
                 else (Inr None, buffers'))"

record ble_outcome =
  bo_result :: "ble_error + message option"
  bo_evicted :: "eviction_info option"
  bo_latency_ms :: "nat option"
  bo_buffers :: fragment_buffers

definition ble_deserialize :: "wire_deps \<Rightarrow> bytes \<Rightarrow> ble_error + message" where
  "ble_deserialize W data = (case deserialize_message W data of Inl e \<Rightarrow> Inl (BleWire e) | Inr m \<Rightarrow> Inr m)"

definition some_message :: "ble_error + message \<Rightarrow> ble_error + message option" where
  "some_message r = (case r of Inl e \<Rightarrow> Inl e | Inr m \<Rightarrow> Inr (Some m))"

definition process_fragment ::
  "wire_deps \<Rightarrow> system_time \<Rightarrow> system_time \<Rightarrow> system_time \<Rightarrow> bytes \<Rightarrow> fragment_buffers \<Rightarrow> ble_outcome" where
  "process_fragment W now0 now now2 fragment_data buffers0 =
     (let buffers = cleanup_fragment_buffers now0 buffers0;
          failed = (\<lambda>e b. \<lparr>bo_result = Inl e, bo_evicted = None, bo_latency_ms = None, bo_buffers = b\<rparr>)
      in case decode_fragment fragment_data of
           Inl e \<Rightarrow> failed e buffers
         | Inr fragment \<Rightarrow>
             if BLE_MAX_FRAGMENT_COUNT < df_total_fragments fragment
             then failed (BleOther ''Fragment count exceeds maximum'') buffers
             else if df_total_fragments fragment \<le> df_fragment_index fragment
             then failed (BleOther ''Fragment index out of range'') buffers
             else if df_total_fragments fragment = 1
             then (if DEFAULT_MAX_MESSAGE_SIZE < length (df_data fragment)
                   then failed (BleTooLarge (length (df_data fragment)) DEFAULT_MAX_MESSAGE_SIZE) buffers
                   else \<lparr>bo_result = some_message (ble_deserialize W (df_data fragment)), bo_evicted = None,
                         bo_latency_ms = None, bo_buffers = buffers\<rparr>)
             else (case evict_for now (df_message_id fragment) buffers of (evicted, buffers1) \<Rightarrow>
                     (case store_fragment now fragment buffers1 of
                        (Inl e, buffers2) \<Rightarrow> failed e buffers2
                      | (Inr None, buffers2) \<Rightarrow>
                          \<lparr>bo_result = Inr None, bo_evicted = evicted, bo_latency_ms = None, bo_buffers = buffers2\<rparr>
                      | (Inr (Some (payload, start)), buffers2) \<Rightarrow>
                          if DEFAULT_MAX_MESSAGE_SIZE < length payload
                          then \<lparr>bo_result = Inl (BleTooLarge (length payload) DEFAULT_MAX_MESSAGE_SIZE),
                                bo_evicted = evicted, bo_latency_ms = None, bo_buffers = buffers2\<rparr>
                          else \<lparr>bo_result = some_message (ble_deserialize W payload), bo_evicted = evicted,
                                bo_latency_ms = Some (duration_since now2 start div 1000000),
                                bo_buffers = buffers2\<rparr>)))"

text \<open>A sequence of arriving fragments, each with its three clock readings.\<close>

type_synonym delivery = "system_time \<times> system_time \<times> system_time \<times> bytes"

fun ble_run :: "wire_deps \<Rightarrow> delivery list \<Rightarrow> fragment_buffers \<Rightarrow> (ble_error + message option) list \<times> fragment_buffers" where
  "ble_run W [] buffers = ([], buffers)"
| "ble_run W ((now0, now, now2, data) # ds) buffers =
     (let out = process_fragment W now0 now now2 data buffers in
      case ble_run W ds (bo_buffers out) of (rs, b) \<Rightarrow> (bo_result out # rs, b))"

definition ble_step :: "wire_deps \<Rightarrow> delivery \<Rightarrow> fragment_buffers \<Rightarrow> fragment_buffers" where
  "ble_step W d b = (case d of (now0, now, now2, data) \<Rightarrow> bo_buffers (process_fragment W now0 now now2 data b))"

text \<open>Deliveries of the fragments \<open>fs\<close> of one message that never leave it idle for longer than the timeout:
  \<open>t\<close> is when its latest fragment was stored.\<close>

fun timely :: "bytes list \<Rightarrow> system_time option \<Rightarrow> delivery list \<Rightarrow> bool" where
  "timely fs t [] = True"
| "timely fs t ((now0, now, now2, data) # ds) =
     ((case t of Some s \<Rightarrow> now0 - s \<le> int (secs BLE_FRAGMENT_TIMEOUT_SECS) | None \<Rightarrow> True) \<and>
      timely fs (if data \<in> set fs then Some now else t) ds)"

definition data_of :: "delivery \<Rightarrow> bytes" where
  "data_of d = snd (snd (snd d))"

definition is_foreign :: "string \<Rightarrow> bytes \<Rightarrow> bool" where
  "is_foreign mid data = (case decode_fragment data of Inl _ \<Rightarrow> True | Inr f \<Rightarrow> df_message_id f \<noteq> mid)"

subsection \<open>Invariant of the buffers\<close>

definition stored_bytes :: "(nat, bytes) hashmap \<Rightarrow> nat" where
  "stored_bytes m = sum_list (map (\<lambda>p. length (snd p)) m)"

definition assembly_ok :: "fragment_assembly \<Rightarrow> bool" where
  "assembly_ok a \<longleftrightarrow> hm_inv (fa_fragments a) \<and> (\<forall>i\<in>fst ` set (fa_fragments a). i < fa_total_fragments a) \<and>
     fa_total_fragments a \<le> BLE_MAX_FRAGMENT_COUNT \<and> length (fa_fragments a) < fa_total_fragments a \<and>
     fa_buffered_bytes a = stored_bytes (fa_fragments a) \<and> fa_buffered_bytes a \<le> DEFAULT_MAX_MESSAGE_SIZE"

definition buffers_ok :: "fragment_buffers \<Rightarrow> bool" where
  "buffers_ok b \<longleftrightarrow> hm_inv b \<and> length b \<le> BLE_MAX_FRAGMENT_ASSEMBLIES \<and> (\<forall>a\<in>snd ` set b. assembly_ok a)"

subsection \<open>Fragments round trip\<close>

lemma slice_mid:
  "length a = i \<Longrightarrow> j = i + length b \<Longrightarrow> slice i j (a @ b @ c) = b"
  by (simp add: slice_def)

definition fragment_ok :: "string \<Rightarrow> nat \<Rightarrow> nat \<Rightarrow> bytes \<Rightarrow> bool" where
  "fragment_ok message_id i n data \<longleftrightarrow> rust_str message_id \<and> length message_id \<le> 255 \<and> i < 65536 \<and> n < 65536 \<and> length data \<le> 65535"

lemma decode_encode_fragment:
  assumes ok: "fragment_ok message_id i n data" and enc: "encode_fragment (str_bytes message_id) i n data = Inr bs"
  shows "decode_fragment (bs @ extra) = Inr \<lparr>df_message_id = message_id, df_fragment_index = i,
    df_total_fragments = n, df_data = data\<rparr>"
proof -
  let ?id = "str_bytes message_id" and ?L = "length message_id"
  let ?lb = "of_nat (length (str_bytes message_id)) :: u8"
  have id_len: "unat ?lb = ?L"
    using ok by (simp add: fragment_ok_def unsigned_of_nat take_bit_nat_eq_self)
  have all: "bs @ extra = (FRAGMENT_MAGIC @ [FRAGMENT_VERSION, ?lb]) @ ?id @
      nat_le 2 i @ nat_le 2 n @ nat_le 2 (length data) @ data @ extra" (is "_ = ?bs")
    using enc by (simp add: encode_fragment_def split: if_splits)
  have len: "length ?bs = 10 + ?L + length data + length extra" by simp
  have head: "slice 0 2 ?bs = FRAGMENT_MAGIC" "?bs ! 2 = FRAGMENT_VERSION" "?bs ! 3 = ?lb"
    by (simp_all add: slice_def)
  have parts: "slice 4 (4 + ?L) ?bs = ?id"
    "slice (4 + ?L) (4 + ?L + 2) ?bs = nat_le 2 i"
    "slice (4 + ?L + 2) (4 + ?L + 4) ?bs = nat_le 2 n"
    "slice (4 + ?L + 4) (4 + ?L + 6) ?bs = nat_le 2 (length data)"
    "slice (4 + ?L + 6) (4 + ?L + 6 + length data) ?bs = data"
    using slice_mid[of "FRAGMENT_MAGIC @ [FRAGMENT_VERSION, ?lb]" 4 _ ?id]
      slice_mid[of "(FRAGMENT_MAGIC @ [FRAGMENT_VERSION, ?lb]) @ ?id" "4 + ?L" _ "nat_le 2 i"]
      slice_mid[of "(FRAGMENT_MAGIC @ [FRAGMENT_VERSION, ?lb]) @ ?id @ nat_le 2 i" "4 + ?L + 2" _ "nat_le 2 n"]
      slice_mid[of "(FRAGMENT_MAGIC @ [FRAGMENT_VERSION, ?lb]) @ ?id @ nat_le 2 i @ nat_le 2 n" "4 + ?L + 4" _ "nat_le 2 (length data)"]
      slice_mid[of "(FRAGMENT_MAGIC @ [FRAGMENT_VERSION, ?lb]) @ ?id @ nat_le 2 i @ nat_le 2 n @ nat_le 2 (length data)" "4 + ?L + 6" _ data]
    by (simp_all only: append_assoc) (simp_all)
  have nums: "le_nat (nat_le 2 i) = i" "le_nat (nat_le 2 n) = n" "le_nat (nat_le 2 (length data)) = length data"
    using ok by (simp_all add: le_nat_nat_le fragment_ok_def)
  have utf: "from_utf8 ?id = Some message_id" using ok by (simp add: from_utf8_str_bytes fragment_ok_def)
  show ?thesis
    unfolding all decode_fragment_def Let_def len head id_len parts nums utf by simp
qed

subsection \<open>Chunks\<close>

lemma chunks_Nil [simp]: "chunks n [] = []"
  by (subst chunks.simps) simp

lemma concat_chunks: "0 < n \<Longrightarrow> concat (chunks n xs) = xs"
proof (induction n xs rule: chunks.induct)
  case (1 n xs)
  then show ?case by (subst chunks.simps) auto
qed

lemma chunks_small: "c \<in> set (chunks n xs) \<Longrightarrow> length c \<le> n \<and> c \<noteq> []"
proof (induction n xs rule: chunks.induct)
  case (1 n xs)
  show ?case
  proof (cases "n = 0 \<or> xs = []")
    case True
    then show ?thesis using 1(2) by (subst (asm) chunks.simps) simp
  next
    case False
    then have "c = take n xs \<or> c \<in> set (chunks n (drop n xs))" using 1(2) by (subst (asm) chunks.simps) simp
    then show ?thesis using 1(1) False by auto
  qed
qed

lemma length_chunks: "0 < n \<Longrightarrow> length (chunks n xs) = div_ceil (length xs) n"
proof (induction n xs rule: chunks.induct)
  case (1 n xs)
  show ?case
  proof (cases "xs = []")
    case False
    have IH: "length (chunks n (drop n xs)) = div_ceil (length xs - n) n" using 1 False by simp
    have "length (chunks n xs) = Suc (div_ceil (length xs - n) n)"
      using 1(2) False IH by (subst chunks.simps) simp
    also have "\<dots> = div_ceil (length xs) n"
    proof (cases "length xs < n")
      case True
      have "(length xs + n - 1) div n = 1" using True False 1(2)
        by (intro div_nat_eqI) (cases xs; simp)+
      then show ?thesis using True 1(2) by (simp add: div_ceil_def)
    next
      case long: False
      have "length xs - n + n - 1 = length xs - 1" "length xs + n - 1 = (length xs - 1) + n"
        using long 1(2) by simp_all
      then show ?thesis unfolding div_ceil_def using 1(2) by (simp only: div_add_self2)
    qed
    finally show ?thesis .
  qed (use 1(2) in \<open>simp add: div_ceil_def\<close>)
qed

subsection \<open>The buffers stay bounded\<close>

lemma stored_bytes_insert:
  "hm_inv m \<Longrightarrow> stored_bytes (hm_insert i d m) =
     stored_bytes m - (case map_of m i of Some x \<Rightarrow> length x | None \<Rightarrow> 0) + length d \<and>
   (case map_of m i of Some x \<Rightarrow> length x | None \<Rightarrow> 0) \<le> stored_bytes m"
proof (induction m)
  case (Cons p m)
  have "map_of m (fst p) = None" using Cons.prems by (simp add: hm_inv_def map_of_eq_None_iff)
  moreover have "hm_inv m" using Cons.prems by (simp add: hm_inv_def)
  ultimately show ?case using Cons.IH by (auto simp: stored_bytes_def)
qed (simp add: stored_bytes_def)

lemma collect_fragments_ok:
  "\<forall>i\<in>set is. map_of m i = Some (f i) \<Longrightarrow> collect_fragments m is = Inr (concat (map f is))"
  by (induction "is") auto

lemma all_present:
  assumes "hm_inv m" "\<forall>i\<in>fst ` set m. i < n" "length m = n" "i < n"
  shows "map_of m i \<noteq> None"
proof -
  have "fst ` set m \<subseteq> {..<n}" using assms(2) by auto
  moreover have "card (fst ` set m) = n"
    using assms(1,3) distinct_card[of "map fst m"] by (simp add: hm_inv_def)
  ultimately have "fst ` set m = {..<n}" by (intro card_subset_eq) simp_all
  then show ?thesis using assms(4) by (simp add: map_of_eq_None_iff)
qed

lemma buffers_ok_get: "buffers_ok b \<Longrightarrow> map_of b k = Some a \<Longrightarrow> assembly_ok a"
  by (auto simp: buffers_ok_def dest!: map_of_SomeD)

lemma buffers_ok_filter: "buffers_ok b \<Longrightarrow> buffers_ok (filter P b)"
  using length_filter_le[of P b] by (auto simp: buffers_ok_def simp del: length_filter_le)

lemma buffers_ok_retain: "buffers_ok b \<Longrightarrow> buffers_ok (hm_retain P b)"
  by (simp add: hm_retain_def buffers_ok_filter)

lemma buffers_ok_remove: "buffers_ok b \<Longrightarrow> buffers_ok (hm_remove k b)"
  by (simp add: hm_remove_def buffers_ok_filter)

lemma hm_remove_insert [simp]: "hm_remove k (hm_insert k a b) = hm_remove k b"
  by (induction b) (auto simp: hm_remove_def)

lemma hm_insert_values: "p \<in> set (hm_insert k v m) \<Longrightarrow> snd p = v \<or> p \<in> set m"
  by (induction m) (auto split: if_splits)

lemma buffers_ok_insert:
  assumes "buffers_ok b" "assembly_ok a" "map_of b k \<noteq> None \<or> length b < BLE_MAX_FRAGMENT_ASSEMBLIES"
  shows "buffers_ok (hm_insert k a b)"
  using assms by (auto simp: buffers_ok_def hm.len_ins dest!: hm_insert_values)

lemma evict_for_ok:
  assumes "buffers_ok b" "evict_for now k b = (ev, b')"
  shows "buffers_ok b'" "map_of b' k \<noteq> None \<or> length b' < BLE_MAX_FRAGMENT_ASSEMBLIES" "map_of b' k = map_of b k"
proof -
  show "buffers_ok b'"
    using assms buffers_ok_remove[OF assms(1)] by (auto simp: evict_for_def split: if_splits option.splits)
  show "map_of b' k = map_of b k"
    using assms(2) by (auto simp: evict_for_def hm_contains_def split: if_splits option.splits dest!: min_on_Some
        intro: map_of_eq_None_iff[THEN iffD2])
  show "map_of b' k \<noteq> None \<or> length b' < BLE_MAX_FRAGMENT_ASSEMBLIES"
  proof (cases "hm_contains k b \<or> length b < BLE_MAX_FRAGMENT_ASSEMBLIES")
    case True
    then show ?thesis using assms(2) by (auto simp: evict_for_def hm_contains_def)
  next
    case False
    then have "b \<noteq> []" by auto
    then obtain v a where min: "min_on (\<lambda>p. eviction_priority now (snd p)) b = Some (v, a)"
      by (metis min_on_None not_Some_eq surj_pair)
    then have "map_of b v = Some a" using min_on_Some assms(1) by (fastforce simp: buffers_ok_def hm_get_eq)
    then show ?thesis using False min assms
      by (auto simp: evict_for_def buffers_ok_def hm.len_del)
  qed
qed

lemma insert_fragment_ok:
  assumes "hm_inv (fa_fragments a)" "\<forall>i\<in>fst ` set (fa_fragments a). i < fa_total_fragments a"
    and "fa_buffered_bytes a = stored_bytes (fa_fragments a)" "df_fragment_index f < fa_total_fragments a"
    and "projected = fa_buffered_bytes a - (case map_of (fa_fragments a) (df_fragment_index f) of Some d \<Rightarrow> length d | None \<Rightarrow> 0)
           + length (df_data f)"
    and "a' = insert_fragment now f projected a"
  shows "hm_inv (fa_fragments a')" "\<forall>i\<in>fst ` set (fa_fragments a'). i < fa_total_fragments a'"
    "fa_buffered_bytes a' = stored_bytes (fa_fragments a')" "fa_buffered_bytes a' = projected"
    "fa_total_fragments a' = fa_total_fragments a"
  using assms stored_bytes_insert[OF assms(1), of "df_fragment_index f" "df_data f"]
  by (auto simp: insert_fragment_def)

text \<open>What storing a fragment does: the assembly it goes to, with the fragment added.\<close>

definition target_assembly :: "system_time \<Rightarrow> decoded_fragment \<Rightarrow> fragment_buffers \<Rightarrow> fragment_assembly" where
  "target_assembly now f b = (case map_of b (df_message_id f) of Some a \<Rightarrow> a | None \<Rightarrow> new_assembly now (df_total_fragments f))"

lemma projected_target:
  "projected_bytes f b = fa_buffered_bytes (target_assembly now f b) -
     (case map_of (fa_fragments (target_assembly now f b)) (df_fragment_index f) of Some d \<Rightarrow> length d | None \<Rightarrow> 0)
     + length (df_data f)"
  by (simp add: projected_bytes_def target_assembly_def new_assembly_def split: option.splits)

lemma target_assembly_ok:
  assumes "buffers_ok b" "fa_total_fragments (target_assembly now f b) = df_total_fragments f"
    and "df_fragment_index f < df_total_fragments f"
    and "a' = insert_fragment now f (projected_bytes f b) (target_assembly now f b)"
  shows "hm_inv (fa_fragments a')" "\<forall>i\<in>fst ` set (fa_fragments a'). i < fa_total_fragments a'"
    "fa_buffered_bytes a' = stored_bytes (fa_fragments a')" "fa_buffered_bytes a' = projected_bytes f b"
    "fa_total_fragments a' = df_total_fragments f" "length (fa_fragments a') \<le> fa_total_fragments a'"
proof -
  let ?a = "target_assembly now f b"
  have inv: "hm_inv (fa_fragments ?a)" "\<forall>i\<in>fst ` set (fa_fragments ?a). i < fa_total_fragments ?a"
    "fa_buffered_bytes ?a = stored_bytes (fa_fragments ?a)"
    using buffers_ok_get[OF assms(1), of "df_message_id f"]
    by (auto simp: target_assembly_def new_assembly_def assembly_ok_def stored_bytes_def split: option.splits)
  note ok = insert_fragment_ok[OF inv, of f "projected_bytes f b" a' now, OF _ projected_target[of f b now] assms(4)]
  show "hm_inv (fa_fragments a')" "\<forall>i\<in>fst ` set (fa_fragments a'). i < fa_total_fragments a'"
    "fa_buffered_bytes a' = stored_bytes (fa_fragments a')" "fa_buffered_bytes a' = projected_bytes f b"
    "fa_total_fragments a' = df_total_fragments f"
    using ok assms(2,3) by simp_all
  then have "fst ` set (fa_fragments a') \<subseteq> {..<fa_total_fragments a'}" "distinct (map fst (fa_fragments a'))"
    by (auto simp: hm_inv_def)
  then show "length (fa_fragments a') \<le> fa_total_fragments a'"
    using card_mono[of "{..<fa_total_fragments a'}" "fst ` set (fa_fragments a')"] distinct_card[of "map fst (fa_fragments a')"]
    by simp
qed

lemma store_fragment_unfold:
  assumes "buffers_ok b" "df_fragment_index f < df_total_fragments f"
    and "a' = insert_fragment now f (projected_bytes f b) (target_assembly now f b)"
  shows "store_fragment now f b =
    (if fa_total_fragments (target_assembly now f b) \<noteq> df_total_fragments f
     then (Inl (BleCountMismatch (fa_total_fragments (target_assembly now f b)) (df_total_fragments f)), b)
     else if DEFAULT_MAX_MESSAGE_SIZE < projected_bytes f b
     then (Inl (BleTooLarge (projected_bytes f b) DEFAULT_MAX_MESSAGE_SIZE), hm_remove (df_message_id f) b)
     else if length (fa_fragments a') = df_total_fragments f
     then (Inr (Some (concat (map (\<lambda>i. the (map_of (fa_fragments a') i)) [0..<df_total_fragments f]), fa_started_at a')),
           hm_remove (df_message_id f) (hm_insert (df_message_id f) a' b))
     else (Inr None, hm_insert (df_message_id f) a' b))"
proof (cases "fa_total_fragments (target_assembly now f b) = df_total_fragments f")
  case False
  then show ?thesis by (auto simp: store_fragment_def target_assembly_def new_assembly_def split: option.splits)
next
  case True
  note ok = target_assembly_ok[OF assms(1) True assms(2,3)]
  have mismatch: "(case map_of b (df_message_id f) of Some a \<Rightarrow> fa_total_fragments a \<noteq> df_total_fragments f | None \<Rightarrow> False) = False"
    using True by (auto simp: target_assembly_def split: option.splits)
  have target: "insert_fragment now f (projected_bytes f b)
      (case map_of b (df_message_id f) of Some a \<Rightarrow> a | None \<Rightarrow> new_assembly now (df_total_fragments f)) = a'"
    using assms(3) by (simp add: target_assembly_def)
  have "collect_fragments (fa_fragments a') [0..<df_total_fragments f] =
      Inr (concat (map (\<lambda>i. the (map_of (fa_fragments a') i)) [0..<df_total_fragments f]))"
    if "length (fa_fragments a') = df_total_fragments f"
    using all_present[OF ok(1), of "df_total_fragments f"] ok(2,5) that by (intro collect_fragments_ok) auto
  then show ?thesis unfolding store_fragment_def Let_def mismatch target using True ok(5) by simp
qed

lemma store_fragment_ok:
  assumes "buffers_ok b" "df_fragment_index f < df_total_fragments f" "df_total_fragments f \<le> BLE_MAX_FRAGMENT_COUNT"
    and "map_of b (df_message_id f) \<noteq> None \<or> length b < BLE_MAX_FRAGMENT_ASSEMBLIES"
    and "store_fragment now f b = (r, b')"
  shows "buffers_ok b'" "k \<noteq> df_message_id f \<Longrightarrow> map_of b' k = map_of b k"
proof -
  define a' where "a' = insert_fragment now f (projected_bytes f b) (target_assembly now f b)"
  note run = store_fragment_unfold[OF assms(1,2) a'_def]
  show "k \<noteq> df_message_id f \<Longrightarrow> map_of b' k = map_of b k"
    using assms(5) unfolding run by (auto split: if_splits)
  have "assembly_ok a'" if "fa_total_fragments (target_assembly now f b) = df_total_fragments f"
    "\<not> DEFAULT_MAX_MESSAGE_SIZE < projected_bytes f b" "length (fa_fragments a') \<noteq> df_total_fragments f"
    using target_assembly_ok[OF assms(1) that(1) assms(2) a'_def] that(2,3) assms(3) by (simp add: assembly_ok_def)
  moreover have "buffers_ok (hm_remove k b)" for k using assms(1) by (rule buffers_ok_remove)
  ultimately show "buffers_ok b'"
    using assms(1,4,5) buffers_ok_insert[OF assms(1) _ assms(4)] unfolding run by (auto split: if_splits)
qed

lemma process_fragment_ok:
  assumes "buffers_ok b"
  shows "buffers_ok (bo_buffers (process_fragment W now0 now now2 data b))"
proof -
  let ?b = "cleanup_fragment_buffers now0 b"
  have clean: "buffers_ok ?b" using assms by (simp add: cleanup_fragment_buffers_def buffers_ok_retain)
  show ?thesis
  proof (cases "decode_fragment data")
    case (Inl e)
    then show ?thesis using clean by (simp add: process_fragment_def Let_def)
  next
    case (Inr f)
    obtain ev b1 where ev: "evict_for now (df_message_id f) ?b = (ev, b1)" by fastforce
    obtain r b2 where st: "store_fragment now f b1 = (r, b2)" by fastforce
    note e = evict_for_ok[OF clean ev]
    have "buffers_ok b2" if "df_total_fragments f \<le> BLE_MAX_FRAGMENT_COUNT" "df_fragment_index f < df_total_fragments f"
      using store_fragment_ok(1)[OF e(1) that(2,1) e(2) st] .
    then show ?thesis using clean Inr ev st
      by (auto simp: process_fragment_def Let_def split: sum.splits option.splits)
  qed
qed

subsection \<open>What the sender produces\<close>

lemma encode_all_nth:
  "encode_all mid n i cs = Inr fs \<Longrightarrow>
     length fs = length cs \<and> (\<forall>k<length cs. encode_fragment mid (i + k) n (cs ! k) = Inr (fs ! k))"
proof (induction cs arbitrary: i fs)
  case (Cons c cs)
  then obtain f fs' where f: "fs = f # fs'" "encode_fragment mid i n c = Inr f" "encode_all mid n (i + 1) cs = Inr fs'"
    by auto
  have "\<forall>k<length (c # cs). encode_fragment mid (i + k) n ((c # cs) ! k) = Inr (fs ! k)"
  proof (intro allI impI)
    fix k assume "k < length (c # cs)"
    then show "encode_fragment mid (i + k) n ((c # cs) ! k) = Inr (fs ! k)"
      using Cons.IH[OF f(3)] f by (cases k) auto
  qed
  then show ?case using Cons.IH[OF f(3)] f by simp
qed simp

definition sender_chunks :: "nat \<Rightarrow> string \<Rightarrow> bytes \<Rightarrow> bytes list" where
  "sender_chunks mtu mid msg = chunks (mtu - (FRAGMENT_HEADER_FIXED + length mid)) msg"

lemma fragment_bytes_Inr:
  assumes "fragment_bytes mtu mid msg = Inr frags"
  shows "length mid \<le> 255" "FRAGMENT_HEADER_FIXED + length mid < mtu"
    "length frags = length (sender_chunks mtu mid msg)" "0 < length frags" "length frags \<le> BLE_MAX_FRAGMENT_COUNT"
    "concat (sender_chunks mtu mid msg) = msg"
    "c \<in> set (sender_chunks mtu mid msg) \<Longrightarrow> length c \<le> mtu - (FRAGMENT_HEADER_FIXED + length mid)"
    "i < length frags \<Longrightarrow>
       encode_fragment (str_bytes mid) i (length frags) (sender_chunks mtu mid msg ! i) = Inr (frags ! i)"
proof -
  let ?p = "mtu - (FRAGMENT_HEADER_FIXED + length mid)"
  let ?n = "div_ceil (length msg) ?p"
  have g: "length mid \<le> 255" "FRAGMENT_HEADER_FIXED + length mid < mtu" "0 < ?n" "?n \<le> BLE_MAX_FRAGMENT_COUNT"
    "encode_all (str_bytes mid) ?n 0 (chunks ?p msg) = Inr frags"
    using assms by (auto simp: fragment_bytes_def Let_def not_less split: if_splits)
  have p: "0 < ?p" using g(2) by simp
  note enc = encode_all_nth[OF g(5)]
  have n: "length frags = ?n" using enc length_chunks[OF p, of msg] by simp
  show "length mid \<le> 255" "FRAGMENT_HEADER_FIXED + length mid < mtu" by (rule g)+
  show "length frags = length (sender_chunks mtu mid msg)" using enc by (simp add: sender_chunks_def)
  show "0 < length frags" "length frags \<le> BLE_MAX_FRAGMENT_COUNT" using g n by simp_all
  show "concat (sender_chunks mtu mid msg) = msg" using concat_chunks[OF p] by (simp add: sender_chunks_def)
  show "c \<in> set (sender_chunks mtu mid msg) \<Longrightarrow> length c \<le> ?p" using chunks_small by (auto simp: sender_chunks_def)
  show "i < length frags \<Longrightarrow>
       encode_fragment (str_bytes mid) i (length frags) (sender_chunks mtu mid msg ! i) = Inr (frags ! i)"
  proof -
    assume "i < length frags"
    then have "encode_fragment (str_bytes mid) (0 + i) ?n (chunks ?p msg ! i) = Inr (frags ! i)" using enc by metis
    then show ?thesis unfolding n sender_chunks_def by simp
  qed
qed

lemma sender_decodes:
  assumes "fragment_bytes mtu mid msg = Inr frags" "rust_str mid" "mtu \<le> MAX_REASONABLE_BLE_PAYLOAD" "i < length frags"
  shows "decode_fragment (frags ! i) = Inr \<lparr>df_message_id = mid, df_fragment_index = i,
    df_total_fragments = length frags, df_data = sender_chunks mtu mid msg ! i\<rparr>"
proof -
  note fb = fragment_bytes_Inr[OF assms(1)]
  have "sender_chunks mtu mid msg ! i \<in> set (sender_chunks mtu mid msg)" using assms(4) fb(3) by simp
  then have "length (sender_chunks mtu mid msg ! i) \<le> 512" using fb(7) assms(3) by fastforce
  then have "fragment_ok mid i (length frags) (sender_chunks mtu mid msg ! i)"
    using fb assms(2,4) by (simp add: fragment_ok_def)
  from decode_encode_fragment[OF this fb(8)[OF assms(4)], of "[]"] show ?thesis by simp
qed

subsection \<open>Reassembly of one message among others\<close>

text \<open>The buffers hold exactly the fragments \<open>S\<close> of the message, the last of which came at \<open>t\<close>.\<close>

definition holds :: "system_time \<Rightarrow> string \<Rightarrow> bytes list \<Rightarrow> nat set \<Rightarrow> fragment_buffers \<Rightarrow> bool" where
  "holds t mid cs S b \<longleftrightarrow>
     (if S = {} then map_of b mid = None
      else \<exists>a. map_of b mid = Some a \<and> fa_total_fragments a = length cs \<and> fa_last_seen a = t \<and>
             (\<forall>i. map_of (fa_fragments a) i = (if i \<in> S then Some (cs ! i) else None)))"

definition others :: "string \<Rightarrow> fragment_buffers \<Rightarrow> nat" where
  "others mid b = length (hm_remove mid b)"

lemma others_insert_own [simp]: "others mid (hm_insert mid a b) = others mid b"
  by (induction b) (auto simp: others_def hm_remove_def)

lemma others_remove_own [simp]: "others mid (hm_remove mid b) = others mid b"
  by (simp add: others_def hm_remove_def)

lemma others_insert: "others mid (hm_insert k a b) \<le> Suc (others mid b)"
  by (induction b) (auto simp: others_def hm_remove_def)

lemma others_filter: "others mid (filter P b) \<le> others mid b"
  by (induction b) (auto simp: others_def hm_remove_def)

lemma others_len: "hm_inv b \<Longrightarrow> length b \<le> Suc (others mid b)"
  by (auto simp: others_def hm.len_del)

lemma others_absent: "map_of b mid = None \<Longrightarrow> others mid b = length b"
  by (induction b) (auto simp: others_def hm_remove_def split: if_splits)

lemma cleanup_holds:
  assumes "buffers_ok b" "holds t mid cs S b" "S \<noteq> {} \<longrightarrow> now0 - t \<le> int (secs BLE_FRAGMENT_TIMEOUT_SECS)"
  shows "holds t mid cs S (cleanup_fragment_buffers now0 b)" "others mid (cleanup_fragment_buffers now0 b) \<le> others mid b"
    "buffers_ok (cleanup_fragment_buffers now0 b)"
proof -
  have inv: "hm_inv b" using assms(1) by (simp add: buffers_ok_def)
  have "S \<noteq> {} \<Longrightarrow> \<not> secs BLE_FRAGMENT_TIMEOUT_SECS < duration_since now0 t"
    using assms(3) by (simp add: duration_since_def)
  then show "holds t mid cs S (cleanup_fragment_buffers now0 b)"
    using assms(2) by (auto simp: holds_def cleanup_fragment_buffers_def hm_retain_get[OF inv] split: if_splits)
  show "others mid (cleanup_fragment_buffers now0 b) \<le> others mid b"
    by (simp add: cleanup_fragment_buffers_def hm_retain_def others_filter)
  show "buffers_ok (cleanup_fragment_buffers now0 b)"
    using assms(1) by (simp add: cleanup_fragment_buffers_def buffers_ok_retain)
qed

lemma no_eviction: "length b < BLE_MAX_FRAGMENT_ASSEMBLIES \<or> map_of b k \<noteq> None \<Longrightarrow> evict_for now k b = (None, b)"
  by (auto simp: evict_for_def hm_contains_def)

text \<open>A fragment of another message does not touch ours.\<close>

lemma foreign_step:
  assumes ok: "buffers_ok b" and holds: "holds t mid cs S b" and timely: "S \<noteq> {} \<longrightarrow> now0 - t \<le> int (secs BLE_FRAGMENT_TIMEOUT_SECS)"
    and foreign: "is_foreign mid data"
    and room: "Suc (others mid b) < BLE_MAX_FRAGMENT_ASSEMBLIES"
    and out: "b' = bo_buffers (process_fragment W now0 now now2 data b)"
  shows "buffers_ok b'" "holds t mid cs S b'" "others mid b' \<le> Suc (others mid b)"
proof -
  let ?b = "cleanup_fragment_buffers now0 b"
  note clean = cleanup_holds[OF ok holds timely]
  show "buffers_ok b'" unfolding out using ok by (rule process_fragment_ok)
  have frame: "map_of b' mid = map_of ?b mid \<and> others mid b' \<le> Suc (others mid ?b)"
  proof (cases "decode_fragment data")
    case (Inl e)
    then show ?thesis by (simp add: out process_fragment_def Let_def)
  next
    case (Inr f)
    have other: "df_message_id f \<noteq> mid" using foreign Inr by (simp add: is_foreign_def)
    have "length ?b < BLE_MAX_FRAGMENT_ASSEMBLIES"
      using others_len[of ?b mid] clean room by (simp add: buffers_ok_def)
    then have ev: "evict_for now (df_message_id f) ?b = (None, ?b)" by (simp add: no_eviction)
    obtain r b2 where st: "store_fragment now f ?b = (r, b2)" by fastforce
    have "map_of b2 mid = map_of ?b mid \<and> others mid b2 \<le> Suc (others mid ?b)"
      if "df_fragment_index f < df_total_fragments f" "df_total_fragments f \<le> BLE_MAX_FRAGMENT_COUNT"
    proof -
      have "others mid b2 \<le> Suc (others mid ?b)"
        using st others_insert[of mid] others_filter[of mid "\<lambda>p. fst p \<noteq> df_message_id f" ?b]
        unfolding store_fragment_unfold[OF clean(3) that(1) refl] hm_remove_insert
        by (auto simp: hm_remove_def[of "df_message_id f"] split: if_splits intro: le_SucI)
      then show ?thesis
        using store_fragment_ok(2)[OF clean(3) that _ st, of mid] \<open>length ?b < _\<close> other by simp
    qed
    then show ?thesis using Inr ev st
      by (auto simp: out process_fragment_def Let_def split: sum.splits option.splits)
  qed
  then show "holds t mid cs S b'" using clean(1) by (simp add: holds_def)
  show "others mid b' \<le> Suc (others mid b)" using frame clean(2) by simp
qed

lemma stored_bytes_le:
  assumes "hm_inv m" "\<And>i d. map_of m i = Some d \<Longrightarrow> length d \<le> 512" "length m \<le> 512"
  shows "stored_bytes m \<le> DEFAULT_MAX_MESSAGE_SIZE"
proof -
  have "\<forall>p\<in>set m. length (snd p) \<le> 512" using assms(1,2) by (auto simp: hm_get_eq)
  then have "stored_bytes m \<le> length m * 512"
    unfolding stored_bytes_def by (induction m) auto
  then show ?thesis using assms(3) by linarith
qed

lemma concat_len_mult: "\<forall>c\<in>set cs. length c \<le> k \<Longrightarrow> length (concat cs) \<le> length cs * k"
  by (induction cs) (auto intro: add_mono)

lemma concat_len_le: "\<forall>c\<in>set cs. length c \<le> 512 \<Longrightarrow> length cs \<le> 512 \<Longrightarrow> length (concat cs) \<le> DEFAULT_MAX_MESSAGE_SIZE"
proof -
  assume small: "\<forall>c\<in>set cs. length c \<le> 512" and few: "length cs \<le> 512"
  from concat_len_mult[OF small] show ?thesis using few by linarith
qed

text \<open>The assembly after one of our fragments is stored.\<close>

lemma own_target:
  assumes "buffers_ok b" "holds t mid cs S b" "S \<subset> {..<length cs}" "i < length cs"
    and "f = \<lparr>df_message_id = mid, df_fragment_index = i, df_total_fragments = length cs, df_data = cs ! i\<rparr>"
    and "a' = insert_fragment now f (projected_bytes f b) (target_assembly now f b)"
  shows "fa_total_fragments (target_assembly now f b) = length cs" "fa_last_seen a' = now"
    "map_of (fa_fragments a') j = (if j \<in> insert i S then Some (cs ! j) else None)"
    "length (fa_fragments a') = card (insert i S)"
proof -
  show total: "fa_total_fragments (target_assembly now f b) = length cs"
    using assms(2,5) by (auto simp: target_assembly_def holds_def new_assembly_def split: if_splits)
  show "fa_last_seen a' = now" using assms(6) by (simp add: insert_fragment_def)
  have "map_of (fa_fragments (target_assembly now f b)) j = (if j \<in> S then Some (cs ! j) else None)" for j
    using assms(2,5) by (auto simp: target_assembly_def holds_def new_assembly_def split: if_splits)
  then show look: "map_of (fa_fragments a') j = (if j \<in> insert i S then Some (cs ! j) else None)" for j
    using assms(5,6) by (simp add: insert_fragment_def)
  have "dom (map_of (fa_fragments a')) = insert i S" by (auto simp: dom_def look split: if_splits)
  moreover have "hm_inv (fa_fragments a')"
    using target_assembly_ok(1)[OF assms(1) _ _ assms(6)] total assms(4,5) by simp
  ultimately show "length (fa_fragments a') = card (insert i S)" by (simp add: hm.len_card)
qed

lemma own_step:
  assumes ok: "buffers_ok b" and hold: "holds t mid cs S b" and part: "S \<subset> {..<length cs}"
    and n: "2 \<le> length cs" "length cs \<le> BLE_MAX_FRAGMENT_COUNT" "\<forall>c\<in>set cs. length c \<le> 512"
    and timely: "S \<noteq> {} \<longrightarrow> now0 - t \<le> int (secs BLE_FRAGMENT_TIMEOUT_SECS)" and i: "i < length cs"
    and dec: "decode_fragment data = Inr \<lparr>df_message_id = mid, df_fragment_index = i,
      df_total_fragments = length cs, df_data = cs ! i\<rparr>"
    and room: "others mid b < BLE_MAX_FRAGMENT_ASSEMBLIES"
    and out: "out = process_fragment W now0 now now2 data b"
  shows "buffers_ok (bo_buffers out)" "others mid (bo_buffers out) \<le> others mid b"
    "insert i S = {..<length cs} \<Longrightarrow>
       bo_result out = some_message (ble_deserialize W (concat cs)) \<and> map_of (bo_buffers out) mid = None"
    "insert i S \<noteq> {..<length cs} \<Longrightarrow> bo_result out = Inr None \<and> holds now mid cs (insert i S) (bo_buffers out)"
proof -
  let ?b = "cleanup_fragment_buffers now0 b"
  let ?f = "\<lparr>df_message_id = mid, df_fragment_index = i, df_total_fragments = length cs, df_data = cs ! i\<rparr>"
  define a' where "a' = insert_fragment now ?f (projected_bytes ?f ?b) (target_assembly now ?f ?b)"
  note clean = cleanup_holds[OF ok hold timely]
  note own = own_target[OF clean(3,1) part i refl a'_def]
  have idx: "df_fragment_index ?f < df_total_fragments ?f" using i by simp
  have ins: "finite (insert i S)" "insert i S \<subseteq> {..<length cs}"
    using part i by (auto intro: finite_subset)
  have count: "length (fa_fragments a') = length cs \<longleftrightarrow> insert i S = {..<length cs}"
    unfolding own(4) by (metis card_lessThan card_subset_eq finite_lessThan ins(2))
  have few: "length (fa_fragments a') \<le> 512" using own(4) card_mono[OF finite_lessThan ins(2)] n(2) by simp
  have chunk: "length d \<le> 512" if "map_of (fa_fragments a') j = Some d" for j d
  proof -
    have "j \<in> insert i S" "d = cs ! j" using that unfolding own(3) by (simp_all split: if_splits)
    then show ?thesis using ins(2) n(3) by (meson lessThan_iff nth_mem subsetD)
  qed
  note ta = target_assembly_ok[OF clean(3) _ idx a'_def, simplified, OF own(1)]
  have size: "projected_bytes ?f ?b \<le> DEFAULT_MAX_MESSAGE_SIZE"
    using ta(3,4) stored_bytes_le[OF ta(1) chunk few] by simp
  have "length ?b < BLE_MAX_FRAGMENT_ASSEMBLIES \<or> map_of ?b mid \<noteq> None"
    using clean(1,2) room others_absent[of ?b mid] by (auto simp: holds_def split: if_splits)
  then have ev: "evict_for now mid ?b = (None, ?b)" by (rule no_eviction)
  have st: "store_fragment now ?f ?b =
    (if insert i S = {..<length cs}
     then (Inr (Some (concat cs, fa_started_at a')), hm_remove mid ?b)
     else (Inr None, hm_insert mid a' ?b))"
  proof -
    have "concat (map (\<lambda>j. the (map_of (fa_fragments a') j)) [0..<length cs]) = concat cs"
      if "insert i S = {..<length cs}"
    proof -
      have "map (\<lambda>j. the (map_of (fa_fragments a') j)) [0..<length cs] = map ((!) cs) [0..<length cs]"
        using that by (intro map_cong refl) (auto simp: own(3))
      then show ?thesis by (simp only: map_nth)
    qed
    then show ?thesis unfolding store_fragment_unfold[OF clean(3) idx a'_def]
      using own(1) size count by simp
  qed
  have result: "out = (if insert i S = {..<length cs}
     then \<lparr>bo_result = some_message (ble_deserialize W (concat cs)), bo_evicted = None,
           bo_latency_ms = Some (duration_since now2 (fa_started_at a') div 1000000), bo_buffers = hm_remove mid ?b\<rparr>
     else \<lparr>bo_result = Inr None, bo_evicted = None, bo_latency_ms = None, bo_buffers = hm_insert mid a' ?b\<rparr>)"
    using n i concat_len_le[OF n(3,2)] by (simp add: out process_fragment_def Let_def dec ev st)
  show "buffers_ok (bo_buffers out)" unfolding out using ok by (rule process_fragment_ok)
  show "others mid (bo_buffers out) \<le> others mid b" using clean(2) by (simp add: result)
  show "insert i S = {..<length cs} \<Longrightarrow>
       bo_result out = some_message (ble_deserialize W (concat cs)) \<and> map_of (bo_buffers out) mid = None"
    by (simp add: result)
  show "insert i S \<noteq> {..<length cs} \<Longrightarrow> bo_result out = Inr None \<and> holds now mid cs (insert i S) (bo_buffers out)"
    using own(1,2,3) by (simp add: result holds_def a'_def insert_fragment_def)
qed

lemma single_step:
  assumes "decode_fragment data = Inr \<lparr>df_message_id = mid, df_fragment_index = 0, df_total_fragments = 1, df_data = c\<rparr>"
    and "length c \<le> 512" "map_of b mid = None" "hm_inv b"
    and "out = process_fragment W now0 now now2 data b"
  shows "bo_result out = some_message (ble_deserialize W c)" "map_of (bo_buffers out) mid = None"
proof -
  have "\<not> DEFAULT_MAX_MESSAGE_SIZE < length c" using assms(2) by simp
  then show "bo_result out = some_message (ble_deserialize W c)" "map_of (bo_buffers out) mid = None"
    using assms(3,4) by (simp_all add: assms(1,5) process_fragment_def cleanup_fragment_buffers_def hm_retain_get)
qed

text \<open>The run over any deliveries of the fragments, in any order and repeated, among those of other
  messages, up to the one that completes it.\<close>

lemma run_reassembles:
  assumes dec: "\<And>i. i < length cs \<Longrightarrow> decode_fragment (fs ! i) = Inr \<lparr>df_message_id = mid, df_fragment_index = i,
      df_total_fragments = length cs, df_data = cs ! i\<rparr>"
    and n: "length fs = length cs" "length cs \<le> BLE_MAX_FRAGMENT_COUNT" "\<forall>c\<in>set cs. length c \<le> 512"
    and l: "l < length cs"
  shows "buffers_ok b \<Longrightarrow> holds t mid cs S b \<Longrightarrow> S \<union> {i. i < length cs \<and> fs ! i \<in> data_of ` set pre} \<union> {l} = {..<length cs} \<Longrightarrow>
    l \<notin> S \<Longrightarrow> fs ! l \<notin> data_of ` set pre \<Longrightarrow>
    timely fs (if S = {} then None else Some t) (pre @ [(now0, now, now2, fs ! l)]) \<Longrightarrow>
    others mid b + length (filter (\<lambda>d. data_of d \<notin> set fs) pre) < BLE_MAX_FRAGMENT_ASSEMBLIES \<Longrightarrow>
    \<forall>d\<in>set pre. data_of d \<in> set fs \<or> is_foreign mid (data_of d) \<Longrightarrow>
    \<exists>rs b'. ble_run W (pre @ [(now0, now, now2, fs ! l)]) b = (rs @ [some_message (ble_deserialize W (concat cs))], b') \<and>
      length rs = length pre \<and> (\<forall>k<length pre. data_of (pre ! k) \<in> set fs \<longrightarrow> rs ! k = Inr None) \<and>
      map_of b' mid = None \<and> buffers_ok b'"
proof (induction pre arbitrary: b S t)
  case Nil
  define out where "out = process_fragment W now0 now now2 (fs ! l) b"
  have S: "insert l S = {..<length cs}" using Nil.prems(3) by simp
  have "bo_result out = some_message (ble_deserialize W (concat cs)) \<and> map_of (bo_buffers out) mid = None"
  proof (cases "length cs = 1")
    case True
    then obtain c where c: "cs = [c]" by (metis One_nat_def length_0_conv length_Suc_conv)
    have l0: "l = 0" using l True by simp
    have "insert 0 S = {0}" using S True by (simp add: l0 lessThan_Suc)
    then have "S = {}" using Nil.prems(4) l0 by blast
    then have "map_of b mid = None" using Nil.prems(2) by (simp add: holds_def)
    moreover have "hm_inv b" using Nil.prems(1) by (simp add: buffers_ok_def)
    moreover have "decode_fragment (fs ! l) =
        Inr \<lparr>df_message_id = mid, df_fragment_index = 0, df_total_fragments = 1, df_data = c\<rparr>"
      using dec[OF l] unfolding c l0 by simp
    moreover have "length c \<le> 512" using n(3) c by simp
    ultimately have "bo_result out = some_message (ble_deserialize W c) \<and> map_of (bo_buffers out) mid = None"
      using single_step[OF _ _ _ _ out_def] by blast
    then show ?thesis by (simp add: c)
  next
    case False
    then have "2 \<le> length cs" using l by simp
    moreover have "S \<subset> {..<length cs}" using S Nil.prems(4) by auto
    moreover have "S \<noteq> {} \<longrightarrow> now0 - t \<le> int (secs BLE_FRAGMENT_TIMEOUT_SECS)"
      using Nil.prems(6) by (cases "S = {}") simp_all
    ultimately show ?thesis
      using own_step(3)[OF Nil.prems(1,2) _ _ n(2,3) _ l dec[OF l] _ out_def] Nil.prems(7) S by simp
  qed
  moreover have "buffers_ok (bo_buffers out)" unfolding out_def using Nil.prems(1) by (rule process_fragment_ok)
  ultimately show ?case
    by (intro exI[of _ "[]"] exI[of _ "bo_buffers out"]) (simp add: out_def Let_def)
next
  case (Cons d pre)
  obtain m0 m m2 data where d: "d = (m0, m, m2, data)" by (cases d) auto
  define out where "out = process_fragment W m0 m m2 data b"
  have late: "S \<noteq> {} \<longrightarrow> m0 - t \<le> int (secs BLE_FRAGMENT_TIMEOUT_SECS)"
    using Cons.prems(6) by (cases "S = {}") (simp_all add: d)
  have step: ?case
    if hyp: "buffers_ok (bo_buffers out)" "holds t' mid cs S' (bo_buffers out)"
      "S' \<union> {i. i < length cs \<and> fs ! i \<in> data_of ` set pre} \<union> {l} = {..<length cs}" "l \<notin> S'"
      "timely fs (if S' = {} then None else Some t') (pre @ [(now0, now, now2, fs ! l)])"
      "others mid (bo_buffers out) + length (filter (\<lambda>d. data_of d \<notin> set fs) pre) < BLE_MAX_FRAGMENT_ASSEMBLIES"
      "data \<in> set fs \<Longrightarrow> bo_result out = Inr None" for S' t'
  proof -
    obtain rs b' where rest: "ble_run W (pre @ [(now0, now, now2, fs ! l)]) (bo_buffers out) =
        (rs @ [some_message (ble_deserialize W (concat cs))], b')"
      "length rs = length pre" "\<forall>k<length pre. data_of (pre ! k) \<in> set fs \<longrightarrow> rs ! k = Inr None"
      "map_of b' mid = None" "buffers_ok b'"
      using Cons.IH[OF hyp(1-4) _ hyp(5,6)] Cons.prems(5,8) by auto
    have "(bo_result out # rs) ! k = Inr None" if "k < length (d # pre)" "data_of ((d # pre) ! k) \<in> set fs" for k
      using that hyp(7) rest(3) by (cases k) (auto simp: d data_of_def)
    then show ?case using rest
      by (intro exI[of _ "bo_result out # rs"] exI[of _ b']) (simp add: d out_def[symmetric])
  qed
  show ?case
  proof (cases "data \<in> set fs")
    case False
    then have foreign: "is_foreign mid data" using Cons.prems(8) by (auto simp: d data_of_def)
    have "Suc (others mid b) < BLE_MAX_FRAGMENT_ASSEMBLIES" using Cons.prems(7) False by (simp add: d data_of_def)
    note fs = foreign_step[OF Cons.prems(1,2) late foreign this arg_cong[OF out_def[symmetric], of bo_buffers, symmetric]]
    have "{i. i < length cs \<and> fs ! i \<in> data_of ` set (d # pre)} = {i. i < length cs \<and> fs ! i \<in> data_of ` set pre}"
      using False n(1) by (auto simp: d data_of_def)
    then show ?thesis
      using step[OF fs(1,2)] Cons.prems(3,4,6,7) fs(3) False by (simp add: d data_of_def)
  next
    case True
    then obtain i where i: "i < length cs" "data = fs ! i" using n(1) by (auto simp: in_set_conv_nth)
    have ne: "i \<noteq> l" using Cons.prems(5) i by (auto simp: d data_of_def)
    have two: "2 \<le> length cs" using ne i(1) l by linarith
    have "S \<subseteq> {..<length cs}" unfolding Cons.prems(3)[symmetric] by (intro le_supI1 order_refl)
    moreover have "S \<noteq> {..<length cs}" using Cons.prems(4) l by auto
    ultimately have part: "S \<subset> {..<length cs}" by (rule psubsetI)
    have room: "others mid b < BLE_MAX_FRAGMENT_ASSEMBLIES" using Cons.prems(7) by simp
    have open_: "insert i S \<noteq> {..<length cs}" using ne Cons.prems(4) l by (metis insertE lessThan_iff)
    have dec_i: "decode_fragment data = Inr \<lparr>df_message_id = mid, df_fragment_index = i,
        df_total_fragments = length cs, df_data = cs ! i\<rparr>" using dec[OF i(1)] i(2) by simp
    note own = own_step[OF Cons.prems(1,2) part two n(2,3) late i(1) dec_i room out_def]
    have same: "j = i" if "fs ! j = fs ! i" "j < length cs" for j
    proof -
      have "map_sum id df_fragment_index (decode_fragment (fs ! j)) = Inr j" using dec[OF that(2)] by simp
      moreover have "map_sum id df_fragment_index (decode_fragment (fs ! i)) = Inr i" using dec[OF i(1)] by simp
      ultimately show ?thesis unfolding that(1) by simp
    qed
    have "insert i S \<union> {j. j < length cs \<and> fs ! j \<in> data_of ` set pre} \<union> {l} =
        S \<union> {j. j < length cs \<and> fs ! j \<in> data_of ` set (d # pre)} \<union> {l}"
      using same i by (auto simp: d data_of_def)
    then show ?thesis
      using step[OF own(1) own(4)[OF open_, THEN conjunct2]] own(4)[OF open_] Cons.prems(3,4,6,7) own(2) ne True
      by (simp add: d data_of_def)
  qed
qed

subsection \<open>Properties\<close>

interpretation bfm: machine "ble_step W" "\<lambda>_ _. True" buffers_ok for W
  by unfold_locales (auto simp: ble_step_def process_fragment_ok split: prod.splits)

lemma ble_run_fold: "snd (ble_run W ds b) = fold (ble_step W) ds b"
  by (induction W ds b rule: ble_run.induct) (simp_all add: ble_step_def Let_def case_prod_beta)

lemma example_fragments:
  "fragment_bytes 14 ''ab'' [1, 2, 3] = Inr [[0x4F, 0x50, 1, 2, 97, 98, 0, 0, 2, 0, 2, 0, 1, 2], [0x4F, 0x50, 1, 2, 97, 98, 1, 0, 2, 0, 1, 0, 3]]"
  by code_simp

lemma reassembles:
  assumes "fragment_bytes mtu mid msg = Inr fs" "mtu \<le> MAX_REASONABLE_BLE_PAYLOAD" "rust_str mid"
    and "buffers_ok b" "map_of b mid = None"
    and "last_data \<in> set fs" "last_data \<notin> data_of ` set pre" "set fs \<subseteq> insert last_data (data_of ` set pre)"
    and "\<forall>d\<in>set pre. data_of d \<in> set fs \<or> is_foreign mid (data_of d)"
    and "timely fs None (pre @ [(now0, now, now2, last_data)])"
    and "length b + length (filter (\<lambda>d. data_of d \<notin> set fs) pre) < BLE_MAX_FRAGMENT_ASSEMBLIES"
  shows "\<exists>rs b'. ble_run W (pre @ [(now0, now, now2, last_data)]) b = (rs @ [some_message (ble_deserialize W msg)], b') \<and>
    length rs = length pre \<and> (\<forall>k<length pre. data_of (pre ! k) \<in> set fs \<longrightarrow> rs ! k = Inr None) \<and>
    map_of b' mid = None \<and> buffers_ok b'"
proof -
  let ?cs = "sender_chunks mtu mid msg"
  note fb = fragment_bytes_Inr[OF assms(1)]
  obtain l where l: "l < length ?cs" "last_data = fs ! l" using assms(6) fb(3) by (auto simp: in_set_conv_nth)
  have dec: "decode_fragment (fs ! i) = Inr \<lparr>df_message_id = mid, df_fragment_index = i,
      df_total_fragments = length ?cs, df_data = ?cs ! i\<rparr>" if "i < length ?cs" for i
    using sender_decodes[OF assms(1,3,2), of i] that fb(3) by simp
  have small: "\<forall>c\<in>set ?cs. length c \<le> 512" using fb(7) assms(2) by fastforce
  have nth: "fs ! i = fs ! l \<or> fs ! i \<in> data_of ` set pre" if "i < length ?cs" for i
  proof -
    have "fs ! i \<in> set fs" using that fb(3) by simp
    then have "fs ! i \<in> insert last_data (data_of ` set pre)" using assms(8) by (rule subsetD[rotated])
    then show ?thesis unfolding l(2) by (rule insertE) simp_all
  qed
  have inj: "i = l" if "fs ! i = fs ! l" "i < length ?cs" for i
  proof -
    have "map_sum id df_fragment_index (decode_fragment (fs ! i)) = Inr i" using dec[OF that(2)] by simp
    moreover have "map_sum id df_fragment_index (decode_fragment (fs ! l)) = Inr l" using dec[OF l(1)] by simp
    ultimately show ?thesis unfolding that(1) by simp
  qed
  have cover: "{} \<union> {i. i < length ?cs \<and> fs ! i \<in> data_of ` set pre} \<union> {l} = {..<length ?cs}" (is "?L = _")
  proof (intro equalityI subsetI)
    show "i \<in> {..<length ?cs}" if "i \<in> ?L" for i using that l(1) by auto
    show "i \<in> ?L" if "i \<in> {..<length ?cs}" for i using that nth[of i] inj[of i] by auto
  qed
  have others: "others mid b + length (filter (\<lambda>d. data_of d \<notin> set fs) pre) < BLE_MAX_FRAGMENT_ASSEMBLIES"
    using assms(11) others_absent[OF assms(5)] by simp
  have few: "length ?cs \<le> BLE_MAX_FRAGMENT_COUNT" using fb(3,5) by simp
  have none: "holds 0 mid ?cs {} b" using assms(5) by (simp add: holds_def)
  have time: "timely fs (if {} = ({} :: nat set) then None else Some 0) (pre @ [(now0, now, now2, fs ! l)])"
    using assms(10) l(2) by simp
  show ?thesis
    using run_reassembles[OF dec fb(3) few small l(1) assms(4) none cover _ _ time others assms(9), of W]
      assms(7) unfolding l(2) fb(6) by simp
qed

text \<open>Reassembly: the fragments a sender cut from a message give the receiver that message back.  They
  may arrive in any order, repeated, between fragments of other messages and garbage, as long as
  the gaps between them stay within the idle timeout and the other messages leave a free place; no
  fragment before the last missing one yields anything, that one yields the message, and nothing of
  it stays in the buffers.\<close>

lemma ble_reassembly:
  assumes "fragment_bytes mtu mid msg = Inr fs" "mtu \<le> MAX_REASONABLE_BLE_PAYLOAD" "rust_str mid"
    and "buffers_ok b" "map_of b mid = None"
    and "last_data \<in> set fs" "last_data \<notin> data_of ` set pre" "set fs \<subseteq> insert last_data (data_of ` set pre)"
    and "\<forall>d\<in>set pre. data_of d \<in> set fs \<or> is_foreign mid (data_of d)"
    and "timely fs None (pre @ [(now0, now, now2, last_data)])"
    and "length b + length (filter (\<lambda>d. data_of d \<notin> set fs) pre) < BLE_MAX_FRAGMENT_ASSEMBLIES"
  shows "\<exists>rs b'. ble_run W (pre @ [(now0, now, now2, last_data)]) b = (rs @ [some_message (ble_deserialize W msg)], b') \<and>
    length rs = length pre \<and> (\<forall>k<length pre. data_of (pre ! k) \<in> set fs \<longrightarrow> rs ! k = Inr None) \<and>
    map_of b' mid = None \<and> buffers_ok b'"
  by (rule reassembles[OF assms])

lemma ble_reassembly_witness:
  "\<exists>rs b'. ble_run no_deps
     [(0, 0, 0, [0x4F, 0x50, 1, 2, 97, 98, 1, 0, 2, 0, 1, 0, 3]), (1, 1, 1, [9, 9]),
      (2, 2, 2, [0x4F, 0x50, 1, 2, 97, 98, 1, 0, 2, 0, 1, 0, 3]),
      (20000000000, 20000000000, 20000000000, [0x4F, 0x50, 1, 2, 97, 98, 0, 0, 2, 0, 2, 0, 1, 2])] []
     = (rs @ [some_message (ble_deserialize no_deps [1, 2, 3])], b') \<and> rs ! 0 = Inr None \<and> rs ! 2 = Inr None"
proof -
  let ?f0 = "[0x4F, 0x50, 1, 2, 97, 98, 0, 0, 2, 0, 2, 0, 1, 2] :: bytes"
  let ?f1 = "[0x4F, 0x50, 1, 2, 97, 98, 1, 0, 2, 0, 1, 0, 3] :: bytes"
  let ?pre = "[(0, 0, 0, ?f1), (1, 1, 1, [9, 9]), (2, 2, 2, ?f1)] :: delivery list"
  have str: "rust_str ''ab''" and foreign: "is_foreign ''ab'' [9, 9]" by code_simp+
  have time: "timely [?f0, ?f1] None (?pre @ [(20000000000, 20000000000, 20000000000, ?f0)])" by code_simp
  have ok: "buffers_ok []" by (simp add: buffers_ok_def)
  have data: "data_of ` set ?pre = {?f1, [9, 9]}" by (auto simp: data_of_def)
  have ne: "?f0 \<notin> {?f1, [9, 9]}" by simp
  have "\<exists>rs b'. ble_run no_deps (?pre @ [(20000000000, 20000000000, 20000000000, ?f0)]) [] =
      (rs @ [some_message (ble_deserialize no_deps [1, 2, 3])], b') \<and> length rs = length ?pre \<and>
      (\<forall>k<length ?pre. data_of (?pre ! k) \<in> set [?f0, ?f1] \<longrightarrow> rs ! k = Inr None) \<and>
      map_of b' ''ab'' = None \<and> buffers_ok b'"
  proof (rule ble_reassembly[OF example_fragments _ str ok _ _ _ _ _ time])
    show "\<forall>d\<in>set ?pre. data_of d \<in> set [?f0, ?f1] \<or> is_foreign ''ab'' (data_of d)"
      using foreign by (simp add: data_of_def)
  qed (use ne in \<open>simp_all only: data, simp_all add: data_of_def\<close>)
  then obtain rs b' where "ble_run no_deps (?pre @ [(20000000000, 20000000000, 20000000000, ?f0)]) [] =
      (rs @ [some_message (ble_deserialize no_deps [1, 2, 3])], b')"
    and none: "\<forall>k<length ?pre. data_of (?pre ! k) \<in> set [?f0, ?f1] \<longrightarrow> rs ! k = Inr None" by blast
  moreover have "rs ! 0 = Inr None" "rs ! 2 = Inr None"
    using none[rule_format, of 0] none[rule_format, of 2] by (simp_all add: data_of_def)
  ultimately show ?thesis by auto
qed

lemma encode_fragment_length:
  "encode_fragment mid i n d = Inr f \<Longrightarrow> length f = FRAGMENT_HEADER_FIXED + length mid + length d"
  by (auto simp: encode_fragment_def split: if_splits)

lemma encode_all_Inl: "encode_all mid n i cs = Inl e \<Longrightarrow> \<exists>c\<in>set cs. 65535 < length c"
proof (induction cs arbitrary: i)
  case (Cons c cs)
  then show ?case
    by (cases "encode_fragment mid i n c"; cases "encode_all mid n (i + 1) cs")
       (auto simp: encode_fragment_def split: if_splits)
qed simp

lemma div_ceil_gt: "0 < b \<Longrightarrow> k < div_ceil a b \<Longrightarrow> k * b < a"
proof -
  assume b: "0 < b" and "k < div_ceil a b"
  then have "Suc k * b \<le> a + b - 1" unfolding div_ceil_def by (metis Suc_leI less_eq_div_iff_mult_less_eq)
  then show ?thesis using b by simp
qed

lemma div_ceil_zero: "0 < b \<Longrightarrow> div_ceil a b = 0 \<longleftrightarrow> a = 0"
  unfolding div_ceil_def by (cases a) (auto simp: div_eq_0_iff)

lemma fragments_fit:
  assumes "mtu \<le> MAX_REASONABLE_BLE_PAYLOAD"
  shows "case fragment_bytes mtu mid msg of
      Inr fs \<Rightarrow> 0 < length fs \<and> length fs \<le> BLE_MAX_FRAGMENT_COUNT \<and> list_all (\<lambda>f. length f \<le> mtu) fs \<and>
        length msg \<le> length fs * (mtu - (FRAGMENT_HEADER_FIXED + length mid))
    | Inl e \<Rightarrow> 255 < length mid \<or> mtu \<le> FRAGMENT_HEADER_FIXED + length mid \<or> msg = [] \<or>
        BLE_MAX_FRAGMENT_COUNT * (mtu - (FRAGMENT_HEADER_FIXED + length mid)) < length msg"
proof (cases "fragment_bytes mtu mid msg")
  case (Inr fs)
  note fb = fragment_bytes_Inr[OF Inr]
  let ?cs = "sender_chunks mtu mid msg"
  have "length (fs ! i) \<le> mtu" if "i < length fs" for i
  proof -
    have "length (fs ! i) = FRAGMENT_HEADER_FIXED + length mid + length (?cs ! i)"
      using encode_fragment_length[OF fb(8)[OF that]] by simp
    moreover have "length (?cs ! i) \<le> mtu - (FRAGMENT_HEADER_FIXED + length mid)"
      using fb(7)[of "?cs ! i"] that fb(3) by simp
    ultimately show ?thesis using fb(2) by simp
  qed
  moreover have "length (concat ?cs) \<le> length ?cs * (mtu - (FRAGMENT_HEADER_FIXED + length mid))"
    using fb(7) by (intro concat_len_mult) blast
  ultimately show ?thesis using fb Inr by (simp add: list_all_length)
next
  case (Inl e)
  let ?p = "mtu - (FRAGMENT_HEADER_FIXED + length mid)"
  have "length c \<le> 512" if "c \<in> set (chunks ?p msg)" for c using chunks_small[OF that] assms by linarith
  then have "encode_all (str_bytes mid) n 0 (chunks ?p msg) \<noteq> Inl e" for n
    using encode_all_Inl[of "str_bytes mid" n 0 "chunks ?p msg" e] by fastforce
  moreover have "BLE_MAX_FRAGMENT_COUNT * ?p < length msg"
    if "FRAGMENT_HEADER_FIXED + length mid < mtu" "BLE_MAX_FRAGMENT_COUNT < div_ceil (length msg) ?p"
    using div_ceil_gt[OF _ that(2)] that(1) by simp
  moreover have "msg = []" if "FRAGMENT_HEADER_FIXED + length mid < mtu" "div_ceil (length msg) ?p = 0"
    using that div_ceil_zero[of ?p "length msg"] by simp
  ultimately show ?thesis using Inl
    by (auto simp: fragment_bytes_def Let_def not_le split: if_splits)
qed

text \<open>Every fragment the sender produces fits the link: it is no longer than the MTU, there are at least
  one and at most \<open>BLE_MAX_FRAGMENT_COUNT\<close> of them, and together they carry the message.  Cutting fails
  exactly when the id does not fit its length byte, the header alone fills the MTU, or the message is
  empty or needs too many fragments.\<close>

lemma ble_fragments_fit:
  assumes "mtu \<le> MAX_REASONABLE_BLE_PAYLOAD"
  shows "case fragment_bytes mtu mid msg of
      Inr fs \<Rightarrow> 0 < length fs \<and> length fs \<le> BLE_MAX_FRAGMENT_COUNT \<and> list_all (\<lambda>f. length f \<le> mtu) fs \<and>
        length msg \<le> length fs * (mtu - (FRAGMENT_HEADER_FIXED + length mid))
    | Inl e \<Rightarrow> 255 < length mid \<or> mtu \<le> FRAGMENT_HEADER_FIXED + length mid \<or> msg = [] \<or>
        BLE_MAX_FRAGMENT_COUNT * (mtu - (FRAGMENT_HEADER_FIXED + length mid)) < length msg"
  by (rule fragments_fit[OF assms])

lemma ble_fragments_fit_witness:
  "list_all (\<lambda>f. length f \<le> 14) [[0x4F, 0x50, 1, 2, 97, 98, 0, 0, 2, 0, 2, 0, 1, 2 :: u8], [0x4F, 0x50, 1, 2, 97, 98, 1, 0, 2, 0, 1, 0, 3]]"
proof -
  have "(14 :: nat) \<le> MAX_REASONABLE_BLE_PAYLOAD" by simp
  from ble_fragments_fit[OF this, of "''ab''" "[1, 2, 3]", unfolded example_fragments sum.case]
  show ?thesis by (elim conjE)
qed

lemma process_no_missing:
  assumes "buffers_ok b"
  shows "bo_result (process_fragment W now0 now now2 data b) \<noteq> Inl (BleMissing i)"
proof (cases "decode_fragment data")
  case (Inl e)
  then have "e \<noteq> BleMissing i" by (auto simp: decode_fragment_def Let_def split: if_splits option.splits)
  then show ?thesis using Inl by (simp add: process_fragment_def Let_def)
next
  case (Inr f)
  let ?b = "cleanup_fragment_buffers now0 b"
  have clean: "buffers_ok ?b" using assms by (simp add: cleanup_fragment_buffers_def buffers_ok_retain)
  obtain ev b1 where ev: "evict_for now (df_message_id f) ?b = (ev, b1)" by fastforce
  obtain r b2 where st: "store_fragment now f b1 = (r, b2)" by fastforce
  have "r \<noteq> Inl (BleMissing i)" if "df_fragment_index f < df_total_fragments f"
    using st unfolding store_fragment_unfold[OF evict_for_ok(1)[OF clean ev] that refl] by (auto split: if_splits)
  then show ?thesis using Inr ev st
    by (auto simp: process_fragment_def Let_def some_message_def ble_deserialize_def split: sum.splits option.splits)
qed

text \<open>C12. Whatever bytes peers write, the reassembly buffers stay bounded: at most
  \<open>BLE_MAX_FRAGMENT_ASSEMBLIES\<close> assemblies, each missing at least one of at most
  \<open>BLE_MAX_FRAGMENT_COUNT\<close> fragments with indices in range and at most \<open>DEFAULT_MAX_MESSAGE_SIZE\<close>
  bytes, which its counter states exactly; so an assembly never completes with a fragment missing.\<close>

theorem ble_buffers_bounded:
  "let b = snd (ble_run W ds []) in
     length b \<le> BLE_MAX_FRAGMENT_ASSEMBLIES \<and>
     list_all (\<lambda>p. length (fa_fragments (snd p)) < fa_total_fragments (snd p) \<and>
       fa_total_fragments (snd p) \<le> BLE_MAX_FRAGMENT_COUNT \<and>
       fa_buffered_bytes (snd p) = stored_bytes (fa_fragments (snd p)) \<and>
       fa_buffered_bytes (snd p) \<le> DEFAULT_MAX_MESSAGE_SIZE) b \<and>
     (\<forall>i. Inl (BleMissing i) \<notin> set (fst (ble_run W ds [])))"
proof -
  have ok: "buffers_ok (snd (ble_run W ds []))"
    unfolding ble_run_fold by (rule bfm.run_inv) (simp_all add: buffers_ok_def)
  have "buffers_ok b \<Longrightarrow> Inl (BleMissing i) \<notin> set (fst (ble_run W ds b))" for i b
    by (induction W ds b rule: ble_run.induct)
       (simp_all add: Let_def case_prod_beta process_fragment_ok process_no_missing[THEN not_sym])
  moreover have "buffers_ok []" by (simp add: buffers_ok_def)
  ultimately show ?thesis using ok by (auto simp: Let_def buffers_ok_def assembly_ok_def list_all_iff)
qed

end
