(* ===== verification/Transport_Types.thy ===== *)
theory Transport_Types
  imports Floats
begin

text \<open>
  Shared types of the transports (\<open>offline-protocol-transport/src/traits.rs\<close>, \<open>types.rs\<close> and the
  metric helpers of \<open>common.rs\<close>): status, metrics, links and the link quality derived from a signal
  reading.  An \<open>i16\<close> is an integer in its range.
\<close>

datatype transport_type = TtInternet | TtBLE | TtWiFiDirect | TtReticulum | TtNostr

fun transport_label :: "transport_type \<Rightarrow> string" where
  "transport_label TtInternet = ''internet''"
| "transport_label TtBLE = ''ble''"
| "transport_label TtWiFiDirect = ''wifiDirect''"
| "transport_label TtReticulum = ''reticulum''"
| "transport_label TtNostr = ''nostr''"

definition to_ascii_lowercase :: "string \<Rightarrow> string" where
  "to_ascii_lowercase s = map (\<lambda>c. let n = of_char c :: nat in if 65 \<le> n \<and> n \<le> 90 then char_of (n + 32) else c) s"

definition transport_from_label :: "string \<Rightarrow> transport_type" where
  "transport_from_label label = (let normalized = to_ascii_lowercase label in
     if normalized = ''internet'' then TtInternet
     else if normalized = ''wifidirect'' \<or> normalized = ''wifi_direct'' \<or> normalized = ''wifi-direct'' then TtWiFiDirect
     else if normalized = ''reticulum'' then TtReticulum
     else if normalized = ''nostr'' then TtNostr
     else TtBLE)"

datatype transport_status = Available | Unavailable | Connecting | Disconnected | StatusError

record transport_metrics =
  tm_rssi :: "int option"
  tm_latency_ms :: "nat option"
  tm_bandwidth_bps :: "nat option"
  tm_congestion :: rat
  tm_queue_depth :: nat
  tm_success_count :: nat
  tm_failure_count :: nat
  tm_battery_level :: "nat option"
  tm_is_charging :: bool
  tm_relay_connection_count :: nat
  tm_is_active_relay :: bool
  tm_delivery_ratio :: "rat option"
  tm_drop_rate :: "rat option"
  tm_average_hop_count :: "rat option"
  tm_energy_cost :: "rat option"

definition transport_metrics_default :: transport_metrics where
  "transport_metrics_default = \<lparr>
     tm_rssi = None, tm_latency_ms = None, tm_bandwidth_bps = None, tm_congestion = 0,
     tm_queue_depth = 0, tm_success_count = 0, tm_failure_count = 0, tm_battery_level = None,
     tm_is_charging = False, tm_relay_connection_count = 0, tm_is_active_relay = False,
     tm_delivery_ratio = None, tm_drop_rate = None, tm_average_hop_count = None, tm_energy_cost = None\<rparr>"

definition clamp01 :: "rat \<Rightarrow> rat" where
  "clamp01 x = max 0 (min 1 x)"

text \<open>The sum of the two \<open>u32\<close> counters panics on overflow, which is \<open>None\<close> here.\<close>

definition sample_count :: "transport_metrics \<Rightarrow> nat option" where
  "sample_count m = (let n = tm_success_count m + tm_failure_count m in if n < 2 ^ 32 then Some n else None)"

definition effective_delivery_ratio :: "transport_metrics \<Rightarrow> rat option option" where
  "effective_delivery_ratio m = (case tm_delivery_ratio m of
       Some ratio \<Rightarrow> Some (Some (clamp01 ratio))
     | None \<Rightarrow> map_option (\<lambda>n. if n = 0 then None
         else Some (clamp01 (f32 (f32 (of_nat (tm_success_count m)) / f32 (of_nat n))))) (sample_count m))"

definition effective_drop_ratio :: "transport_metrics \<Rightarrow> rat option option" where
  "effective_drop_ratio m = (case tm_drop_rate m of
       Some rate \<Rightarrow> Some (Some (clamp01 rate))
     | None \<Rightarrow> map_option (\<lambda>n. if n = 0 then None
         else Some (clamp01 (f32 (f32 (of_nat (tm_failure_count m)) / f32 (of_nat n))))) (sample_count m))"

definition recalculate_delivery_ratios :: "transport_metrics \<Rightarrow> transport_metrics option" where
  "recalculate_delivery_ratios m = map_option (\<lambda>n.
     if 0 < n
     then let ratio = f32 (f32 (of_nat (tm_success_count m)) / f32 (of_nat n)) in
          m\<lparr>tm_delivery_ratio := Some (clamp01 ratio), tm_drop_rate := Some (clamp01 (f32 (1 - ratio)))\<rparr>
     else m) (sample_count m)"

subsection \<open>Links\<close>

record peer_link =
  pl_peer_id :: string
  pl_rssi :: "int option"

type_synonym link_quality = nat

definition LinkQuality_new :: "nat \<Rightarrow> link_quality" where
  "LinkQuality_new v = min v 100"

text \<open>Rust's integer division cuts towards zero; \<open>as u8\<close> keeps the low byte.\<close>

definition quot :: "int \<Rightarrow> int \<Rightarrow> int" where
  "quot a b = (if 0 \<le> a then a div b else - ((- a) div b))"

definition as_u8 :: "int \<Rightarrow> nat" where
  "as_u8 n = nat (n mod 256)"

definition LinkQuality_from_rssi :: "int \<Rightarrow> link_quality" where
  "LinkQuality_from_rssi rssi = LinkQuality_new
     (if - 50 \<le> rssi then 100
      else if - 70 \<le> rssi then 70 + as_u8 (quot ((rssi + 70) * 30) 20)
      else if - 85 \<le> rssi then 40 + as_u8 (quot ((rssi + 85) * 30) 15)
      else as_u8 (quot (max (rssi + 100) 0 * 40) 15))"

abbreviation DEFAULT_LINK_QUALITY_WITHOUT_RSSI :: nat where
  "DEFAULT_LINK_QUALITY_WITHOUT_RSSI \<equiv> 50"

definition peer_link_quality :: "peer_link \<Rightarrow> link_quality" where
  "peer_link_quality l = (case pl_rssi l of
       Some rssi \<Rightarrow> LinkQuality_from_rssi rssi
     | None \<Rightarrow> LinkQuality_new DEFAULT_LINK_QUALITY_WITHOUT_RSSI)"

definition link_is_good :: "link_quality \<Rightarrow> bool" where
  "link_is_good q = (70 \<le> q)"

definition link_is_poor :: "link_quality \<Rightarrow> bool" where
  "link_is_poor q = (q \<le> 40)"

subsection \<open>Lemmas\<close>

lemma transport_label_roundtrip: "transport_from_label (transport_label t) = t"
  by (cases t) (simp_all add: transport_from_label_def to_ascii_lowercase_def char_of_def bit_0)

lemma clamp01_range [simp]: "0 \<le> clamp01 x" "clamp01 x \<le> 1"
  by (simp_all add: clamp01_def)

lemma clamp01_id: "0 \<le> x \<Longrightarrow> x \<le> 1 \<Longrightarrow> clamp01 x = x"
  by (simp add: clamp01_def)

lemma link_quality_bound: "peer_link_quality l \<le> 100"
  by (simp add: peer_link_quality_def LinkQuality_from_rssi_def LinkQuality_new_def split: option.splits)

text \<open>The value of each band, without the casts: no band leaves the range of a byte.\<close>

lemma band_good: "- 70 \<le> r \<Longrightarrow> r < - 50 \<Longrightarrow> 0 \<le> (r + 70) * 3 div 2 \<and> (r + 70) * 3 div 2 \<le> (28 :: int)"
  using zdiv_mono1[of "(r + 70) * 3" 57 2] by (simp add: pos_imp_zdiv_nonneg_iff)

lemma band_low: "r < - 85 \<Longrightarrow> 0 \<le> max (r + 100) 0 * 40 div 15 \<and> max (r + 100) 0 * 40 div 15 \<le> (37 :: int)"
  using zdiv_mono1[of "max (r + 100) 0 * 40" 560 15] by (simp add: pos_imp_zdiv_nonneg_iff)

lemma link_quality_bands:
  "- 50 \<le> r \<Longrightarrow> int (LinkQuality_from_rssi r) = 100"
  "- 70 \<le> r \<Longrightarrow> r < - 50 \<Longrightarrow> int (LinkQuality_from_rssi r) = 70 + (r + 70) * 3 div 2"
  "- 85 \<le> r \<Longrightarrow> r < - 70 \<Longrightarrow> int (LinkQuality_from_rssi r) = 40 + (r + 85) * 2"
  "r < - 85 \<Longrightarrow> int (LinkQuality_from_rssi r) = max (r + 100) 0 * 40 div 15"
proof -
  show "- 50 \<le> r \<Longrightarrow> int (LinkQuality_from_rssi r) = 100"
    by (simp add: LinkQuality_from_rssi_def LinkQuality_new_def)
  show "int (LinkQuality_from_rssi r) = 70 + (r + 70) * 3 div 2" if r: "- 70 \<le> r" "r < - 50"
  proof -
    have "(r + 70) * 30 div 20 = (r + 70) * 3 div 2" by simp
    then have "as_u8 (quot ((r + 70) * 30) 20) = nat ((r + 70) * 3 div 2)"
      using band_good[OF r] r by (simp add: as_u8_def quot_def)
    then show ?thesis using band_good[OF r] r by (simp add: LinkQuality_from_rssi_def LinkQuality_new_def)
  qed
  show "int (LinkQuality_from_rssi r) = 40 + (r + 85) * 2" if r: "- 85 \<le> r" "r < - 70"
  proof -
    have "(r + 85) * 30 div 15 = (r + 85) * 2" by simp
    then have "as_u8 (quot ((r + 85) * 30) 15) = nat ((r + 85) * 2)"
      using r by (simp add: as_u8_def quot_def)
    then show ?thesis using r by (simp add: LinkQuality_from_rssi_def LinkQuality_new_def)
  qed
  show "int (LinkQuality_from_rssi r) = max (r + 100) 0 * 40 div 15" if r: "r < - 85"
  proof -
    have "as_u8 (quot (max (r + 100) 0 * 40) 15) = nat (max (r + 100) 0 * 40 div 15)"
      using band_low[OF r] by (simp add: as_u8_def quot_def)
    then have "LinkQuality_from_rssi r = min (nat (max (r + 100) 0 * 40 div 15)) 100"
      using r by (simp add: LinkQuality_from_rssi_def LinkQuality_new_def)
    moreover have "int (min (nat q) 100) = q" if "0 \<le> q \<and> q \<le> 37" for q
      using that by (simp add: min_def nat_le_iff)
    ultimately show ?thesis using band_low[OF r] by (simp only:)
  qed
qed

lemma link_quality_step: "LinkQuality_from_rssi r \<le> LinkQuality_from_rssi (r + 1)"
proof -
  consider "- 50 \<le> r" | "r = - 51" | "- 70 \<le> r" "r < - 51" | "r = - 71" | "- 85 \<le> r" "r < - 71" | "r = - 86" | "r < - 86"
    by linarith
  then have "int (LinkQuality_from_rssi r) \<le> int (LinkQuality_from_rssi (r + 1))"
  proof cases
    case 3
    then show ?thesis using zdiv_mono1[of "(r + 70) * 3" "(r + 1 + 70) * 3" 2] by (simp add: link_quality_bands)
  next
    case 7
    then show ?thesis using zdiv_mono1[of "max (r + 100) 0 * 40" "max (r + 1 + 100) 0 * 40" 15]
      by (simp add: link_quality_bands)
  qed (simp_all add: link_quality_bands)
  then show ?thesis by simp
qed

lemma link_quality_mono: "r \<le> s \<Longrightarrow> LinkQuality_from_rssi r \<le> LinkQuality_from_rssi s"
proof (induction s rule: int_ge_induct)
  case (step s)
  then show ?case using link_quality_step[of s] by simp
qed simp

end
