(* ===== verification/Ble_Transport.thy ===== *)
theory Ble_Transport
  imports Ble_Fragments Transport_Types
begin

text \<open>
  The queue engine of the Bluetooth transport (\<open>offline-protocol-transport/src/ble.rs\<close>): peers and their
  MTUs, the send queue that lets acknowledgements overtake data, the fragments waiting for the
  radio, the receive queue, and the drains on teardown.

  One call is one step: the locks of the code are held for parts of a call only, and the model has no
  interleaving of calls.  \<open>idstr\<close> renders a message id, \<open>W\<close> carries the third-party encodings, a clock
  reading is an argument.  The platform callbacks carry no state; the wake-up of \<open>send\<close> fires
  exactly when it succeeds.
\<close>

subsection \<open>State\<close>

record peer_device =
  pd_device_id :: string
  pd_address :: string
  pd_rssi :: int
  pd_last_seen :: system_time
  pd_connected :: bool

record ble_transport =
  bt_device_id :: string
  bt_status :: transport_status
  bt_peers :: "(string, peer_device) hashmap"
  bt_receive_queue :: "message list"
  bt_send_queue :: "(string \<times> message) list"
  bt_pending_fragments :: "(string \<times> bytes) list"
  bt_metrics :: transport_metrics
  bt_fragment_buffers :: fragment_buffers
  bt_peer_mtus :: "(string, nat) hashmap"
  bt_undersized_mtu_reports :: u64
  bt_fragment_fallback_count :: u64
  bt_recipient_not_among_peers_count :: u64

definition bt_new :: "string \<Rightarrow> ble_transport" where
  "bt_new device_id = \<lparr>
     bt_device_id = device_id, bt_status = Unavailable, bt_peers = [], bt_receive_queue = [],
     bt_send_queue = [], bt_pending_fragments = [], bt_metrics = transport_metrics_default,
     bt_fragment_buffers = [], bt_peer_mtus = [], bt_undersized_mtu_reports = 0,
     bt_fragment_fallback_count = 0, bt_recipient_not_among_peers_count = 0\<rparr>"

datatype bt_error =
    BtNotAvailable transport_status
  | BtPeerNotReachable string
  | BtFragment ble_error
  | BtCore core_error

subsection \<open>Peers and metrics\<close>

definition peer_mtu :: "string \<Rightarrow> ble_transport \<Rightarrow> nat" where
  "peer_mtu peer_id t = (case map_of (bt_peer_mtus t) peer_id of Some m \<Rightarrow> m | None \<Rightarrow> BLE_MAX_FRAGMENT_SIZE)"

definition on_peer_discovered :: "peer_device \<Rightarrow> ble_transport \<Rightarrow> ble_transport" where
  "on_peer_discovered peer t = t\<lparr>bt_peers := hm_insert (pd_device_id peer) peer (bt_peers t)\<rparr>"

definition on_peer_lost :: "string \<Rightarrow> ble_transport \<Rightarrow> ble_transport" where
  "on_peer_lost device_id t = t\<lparr>bt_peers := hm_remove device_id (bt_peers t),
     bt_peer_mtus := hm_remove device_id (bt_peer_mtus t)\<rparr>"

definition smooth_rssi :: "int \<Rightarrow> int \<Rightarrow> int" where
  "smooth_rssi stored reading =
     as_sint 16 (of_int (round_away (f32 (f32 (of_int (7 * stored + 3 * reading)) / 10))))"

definition on_peer_rssi :: "system_time \<Rightarrow> string \<Rightarrow> int \<Rightarrow> ble_transport \<Rightarrow> bool \<times> ble_transport" where
  "on_peer_rssi now peer_id rssi t = (case map_of (bt_peers t) peer_id of
       None \<Rightarrow> (False, t)
     | Some peer \<Rightarrow> (True, t\<lparr>bt_peers := hm_insert peer_id
         (peer\<lparr>pd_rssi := smooth_rssi (pd_rssi peer) rssi, pd_last_seen := now\<rparr>) (bt_peers t)\<rparr>))"

definition bt_on_message_received :: "message \<Rightarrow> ble_transport \<Rightarrow> ble_transport" where
  "bt_on_message_received m t = t\<lparr>bt_receive_queue := bt_receive_queue t @ [m]\<rparr>"

definition bt_on_message_received_from :: "message \<Rightarrow> string \<Rightarrow> ble_transport \<Rightarrow> ble_transport" where
  "bt_on_message_received_from m peer_id t =
     t\<lparr>bt_receive_queue := on_message_received_from m peer_id (bt_receive_queue t)\<rparr>"

definition bt_update_metrics :: "transport_metrics \<Rightarrow> ble_transport \<Rightarrow> ble_transport" where
  "bt_update_metrics m t = t\<lparr>bt_metrics := m\<rparr>"

definition get_queue_depth :: "ble_transport \<Rightarrow> nat" where
  "get_queue_depth t = length (bt_send_queue t) + length (bt_pending_fragments t)"

definition update_queue_metric :: "ble_transport \<Rightarrow> ble_transport" where
  "update_queue_metric t =
     (let depth = length (bt_send_queue t) + length (bt_pending_fragments t) in
      t\<lparr>bt_metrics := (bt_metrics t)\<lparr>tm_queue_depth := depth,
         tm_congestion := clamp01 (f32 (f32 (of_nat depth) / 50))\<rparr>\<rparr>)"

definition record_latency :: "nat \<Rightarrow> ble_transport \<Rightarrow> ble_transport" where
  "record_latency latency_ms t =
     (let v = min latency_ms (2 ^ 32 - 1) in
      t\<lparr>bt_metrics := (bt_metrics t)\<lparr>tm_latency_ms := Some (case tm_latency_ms (bt_metrics t) of
          Some existing \<Rightarrow> as_uint 32 (f32 (f32 (f32 (of_nat existing) * f32 (7 / 10)) + f32 (f32 (of_nat v) * f32 (3 / 10))))
        | None \<Rightarrow> v)\<rparr>\<rparr>)"

subsection \<open>MTUs\<close>

definition set_peer_mtu :: "string \<Rightarrow> nat \<Rightarrow> ble_transport \<Rightarrow> ble_transport" where
  "set_peer_mtu peer_id max_payload t =
     (if max_payload < BLE_MAX_FRAGMENT_SIZE
      then t\<lparr>bt_undersized_mtu_reports := bt_undersized_mtu_reports t + 1,
             bt_peer_mtus := hm_remove peer_id (bt_peer_mtus t)\<rparr>
      else t\<lparr>bt_peer_mtus := hm_insert peer_id (min max_payload MAX_REASONABLE_BLE_PAYLOAD) (bt_peer_mtus t)\<rparr>)"

definition clear_peer_mtu :: "string \<Rightarrow> ble_transport \<Rightarrow> ble_transport" where
  "clear_peer_mtu peer_id t = t\<lparr>bt_peer_mtus := hm_remove peer_id (bt_peer_mtus t)\<rparr>"

subsection \<open>Sending\<close>

abbreviation ACK_FOR_KEY :: string where
  "ACK_FOR_KEY \<equiv> ''ack_for''"

definition is_ack :: "message \<Rightarrow> bool" where
  "is_ack m = hm_contains ACK_FOR_KEY (msg_metadata m)"

definition enqueue_send :: "string \<times> message \<Rightarrow> (string \<times> message) list \<Rightarrow> (string \<times> message) list" where
  "enqueue_send entry queue =
     (if is_ack (snd entry)
      then let n = length (takeWhile (\<lambda>e. is_ack (snd e)) queue) in take n queue @ [entry] @ drop n queue
      else queue @ [entry])"

definition bt_send :: "message \<Rightarrow> ble_transport \<Rightarrow> (bt_error + unit) \<times> ble_transport" where
  "bt_send m t =
     (if bt_status t \<noteq> Available then (Inl (BtNotAvailable (bt_status t)), t)
      else let recipient = msg_recipient m in
        if \<not> hm_contains recipient (bt_peers t)
        then (Inl (BtPeerNotReachable recipient),
              if bt_peers t \<noteq> []
              then t\<lparr>bt_recipient_not_among_peers_count := bt_recipient_not_among_peers_count t + 1\<rparr> else t)
        else (Inr (), update_queue_metric (t\<lparr>bt_send_queue := enqueue_send (recipient, m) (bt_send_queue t)\<rparr>)))"

definition bt_send_to_peer :: "string \<Rightarrow> message \<Rightarrow> ble_transport \<Rightarrow> (bt_error + unit) \<times> ble_transport" where
  "bt_send_to_peer peer_id m t =
     (if bt_status t \<noteq> Available then (Inl (BtNotAvailable (bt_status t)), t)
      else if \<not> hm_contains peer_id (bt_peers t) then (Inl (BtPeerNotReachable peer_id), t)
      else (Inr (), update_queue_metric (t\<lparr>bt_send_queue := enqueue_send (peer_id, m) (bt_send_queue t)\<rparr>)))"

definition queued_message_ids :: "(message_id \<Rightarrow> string) \<Rightarrow> ble_transport \<Rightarrow> string list" where
  "queued_message_ids idstr t = map (\<lambda>e. idstr (msg_id (snd e))) (bt_send_queue t)"

definition connected_peers :: "ble_transport \<Rightarrow> peer_link list" where
  "connected_peers t =
     (if bt_status t \<noteq> Available then []
      else map (\<lambda>p. \<lparr>pl_peer_id = pd_device_id (snd p), pl_rssi = Some (pd_rssi (snd p))\<rparr>) (bt_peers t))"

definition dequeue_send :: "ble_transport \<Rightarrow> (string \<times> message) option \<times> ble_transport" where
  "dequeue_send t = (case bt_send_queue t of
       [] \<Rightarrow> (None, t)
     | e # rest \<Rightarrow> (Some e, update_queue_metric (t\<lparr>bt_send_queue := rest\<rparr>)))"

definition has_pending_sends :: "ble_transport \<Rightarrow> bool" where
  "has_pending_sends t = (bt_send_queue t \<noteq> [])"

definition fragment_message_for ::
  "wire_deps \<Rightarrow> (message_id \<Rightarrow> string) \<Rightarrow> string \<Rightarrow> message \<Rightarrow> ble_transport \<Rightarrow> (bt_error + bytes list) \<times> ble_transport" where
  "fragment_message_for W idstr peer_id m t = (case serialize_message_with W m of
       Inl e \<Rightarrow> (Inl (BtFragment (BleWire e)), t)
     | Inr message_bytes \<Rightarrow>
         (let (mtu, t') = (case map_of (bt_peer_mtus t) peer_id of
                Some mtu \<Rightarrow> (mtu, t)
              | None \<Rightarrow> (BLE_MAX_FRAGMENT_SIZE,
                  if hm_contains peer_id (bt_peers t)
                  then t\<lparr>bt_fragment_fallback_count := bt_fragment_fallback_count t + 1\<rparr> else t))
          in case fragment_bytes mtu (idstr (msg_id m)) message_bytes of
               Inl e \<Rightarrow> (Inl (BtFragment e), t')
             | Inr fragments \<Rightarrow> (Inr fragments, t')))"

definition fragment_message ::
  "wire_deps \<Rightarrow> (message_id \<Rightarrow> string) \<Rightarrow> message \<Rightarrow> ble_transport \<Rightarrow> (bt_error + bytes list) \<times> ble_transport" where
  "fragment_message W idstr m t = fragment_message_for W idstr (msg_recipient m) m t"

definition get_next_fragment ::
  "wire_deps \<Rightarrow> (message_id \<Rightarrow> string) \<Rightarrow> ble_transport \<Rightarrow> (bt_error + (string \<times> bytes) option) \<times> ble_transport" where
  "get_next_fragment W idstr t = (case bt_pending_fragments t of
       fragment # rest \<Rightarrow> (Inr (Some fragment), update_queue_metric (t\<lparr>bt_pending_fragments := rest\<rparr>))
     | [] \<Rightarrow> (case bt_send_queue t of
           [] \<Rightarrow> (Inr None, update_queue_metric t)
         | (recipient, m) # rest \<Rightarrow>
             (case fragment_message_for W idstr recipient m (t\<lparr>bt_send_queue := rest\<rparr>) of
                (Inl e, t') \<Rightarrow> (Inl e, t')
              | (Inr [], t') \<Rightarrow> (Inr None, update_queue_metric t')
              | (Inr (f # fs), t') \<Rightarrow>
                  (Inr (Some (recipient, f)),
                   update_queue_metric (t'\<lparr>bt_pending_fragments := map (\<lambda>g. (recipient, g)) fs\<rparr>)))))"

definition requeue_fragment :: "string \<Rightarrow> bytes \<Rightarrow> ble_transport \<Rightarrow> ble_transport" where
  "requeue_fragment recipient data t =
     update_queue_metric (t\<lparr>bt_pending_fragments := (recipient, data) # bt_pending_fragments t\<rparr>)"

subsection \<open>Receiving\<close>

definition bt_receive :: "ble_transport \<Rightarrow> message option \<times> ble_transport" where
  "bt_receive t = (case bt_receive_queue t of
       [] \<Rightarrow> (None, t)
     | m # rest \<Rightarrow> (Some m, t\<lparr>bt_receive_queue := rest\<rparr>))"

text \<open>\<open>process_fragment\<close> on the transport: the buffers change, and a completed assembly records its latency.\<close>

definition bt_process_fragment ::
  "wire_deps \<Rightarrow> system_time \<Rightarrow> system_time \<Rightarrow> system_time \<Rightarrow> bytes \<Rightarrow> ble_transport \<Rightarrow>
     (ble_error + message option) \<times> ble_transport" where
  "bt_process_fragment W now0 now now2 data t =
     (let out = process_fragment W now0 now now2 data (bt_fragment_buffers t);
          t' = t\<lparr>bt_fragment_buffers := bo_buffers out\<rparr>
      in (bo_result out, case bo_latency_ms out of Some ms \<Rightarrow> record_latency ms t' | None \<Rightarrow> t'))"

definition on_fragment_received ::
  "wire_deps \<Rightarrow> system_time \<Rightarrow> system_time \<Rightarrow> system_time \<Rightarrow> bytes \<Rightarrow> ble_transport \<Rightarrow> ble_transport" where
  "on_fragment_received W now0 now now2 data t = (case bt_process_fragment W now0 now now2 data t of
       (Inr (Some m), t') \<Rightarrow> t'\<lparr>bt_receive_queue := bt_receive_queue t' @ [m]\<rparr>
     | (Inr None, t') \<Rightarrow> t'
     | (Inl _, t') \<Rightarrow> t')"

definition ble_on_fragment_received_from ::
  "wire_deps \<Rightarrow> system_time \<Rightarrow> system_time \<Rightarrow> system_time \<Rightarrow> bytes \<Rightarrow> string \<Rightarrow> ble_transport \<Rightarrow>
     (bt_error + unit) \<times> ble_transport" where
  "ble_on_fragment_received_from W now0 now now2 data peer_id t =
     (case bt_process_fragment W now0 now now2 data t of
        (Inr (Some m), t') \<Rightarrow> (case set_transport_peer_id peer_id m of
            Inl e \<Rightarrow> (Inl (BtCore e), t')
          | Inr m' \<Rightarrow> (Inr (), t'\<lparr>bt_receive_queue := bt_receive_queue t' @ [m']\<rparr>))
      | (Inr None, t') \<Rightarrow> (Inr (), t')
      | (Inl _, t') \<Rightarrow> (Inr (), t'))"

definition on_fragment_received_from ::
  "wire_deps \<Rightarrow> system_time \<Rightarrow> system_time \<Rightarrow> system_time \<Rightarrow> bytes \<Rightarrow> string \<Rightarrow> ble_transport \<Rightarrow>
     (bt_error + unit) \<times> ble_transport" where
  "on_fragment_received_from W now0 now now2 data peer_id t =
     (if peer_id = [] then (Inr (), on_fragment_received W now0 now now2 data t)
      else ble_on_fragment_received_from W now0 now now2 data peer_id t)"

subsection \<open>Lifecycle\<close>

definition drain_session :: "ble_transport \<Rightarrow> ble_transport" where
  "drain_session t = update_queue_metric (t\<lparr>bt_peers := [], bt_peer_mtus := [], bt_fragment_buffers := [],
     bt_send_queue := [], bt_pending_fragments := [], bt_receive_queue := []\<rparr>)"

definition bt_start :: "ble_transport \<Rightarrow> ble_transport" where
  "bt_start t = t\<lparr>bt_status := Available\<rparr>"

definition bt_stop :: "ble_transport \<Rightarrow> ble_transport" where
  "bt_stop t = drain_session (t\<lparr>bt_status := Disconnected\<rparr>)"

definition on_status_changed :: "transport_status \<Rightarrow> ble_transport \<Rightarrow> ble_transport" where
  "on_status_changed status t =
     (let t' = t\<lparr>bt_status := status\<rparr> in
      if bt_status t = Available \<and> status \<noteq> Available then drain_session t' else t')"

subsection \<open>The transport as a machine\<close>

datatype bt_op =
    BtDiscovered peer_device
  | BtLost string
  | BtRssi system_time string int
  | BtMessage message
  | BtMessageFrom message string
  | BtMetrics transport_metrics
  | BtSetMtu string nat
  | BtClearMtu string
  | BtSend message
  | BtSendTo string message
  | BtDequeue
  | BtNext
  | BtRequeue string bytes
  | BtReceive
  | BtFragment system_time system_time system_time bytes
  | BtFragmentFrom system_time system_time system_time bytes string
  | BtStart
  | BtStop
  | BtStatus transport_status

fun bt_step :: "wire_deps \<Rightarrow> (message_id \<Rightarrow> string) \<Rightarrow> bt_op \<Rightarrow> ble_transport \<Rightarrow> ble_transport" where
  "bt_step W idstr (BtDiscovered p) t = on_peer_discovered p t"
| "bt_step W idstr (BtLost i) t = on_peer_lost i t"
| "bt_step W idstr (BtRssi now i r) t = snd (on_peer_rssi now i r t)"
| "bt_step W idstr (BtMessage m) t = bt_on_message_received m t"
| "bt_step W idstr (BtMessageFrom m p) t = bt_on_message_received_from m p t"
| "bt_step W idstr (BtMetrics m) t = bt_update_metrics m t"
| "bt_step W idstr (BtSetMtu p n) t = set_peer_mtu p n t"
| "bt_step W idstr (BtClearMtu p) t = clear_peer_mtu p t"
| "bt_step W idstr (BtSend m) t = snd (bt_send m t)"
| "bt_step W idstr (BtSendTo p m) t = snd (bt_send_to_peer p m t)"
| "bt_step W idstr BtDequeue t = snd (dequeue_send t)"
| "bt_step W idstr BtNext t = snd (get_next_fragment W idstr t)"
| "bt_step W idstr (BtRequeue p d) t = requeue_fragment p d t"
| "bt_step W idstr BtReceive t = snd (bt_receive t)"
| "bt_step W idstr (BtFragment a b c d) t = on_fragment_received W a b c d t"
| "bt_step W idstr (BtFragmentFrom a b c d p) t = snd (on_fragment_received_from W a b c d p t)"
| "bt_step W idstr BtStart t = bt_start t"
| "bt_step W idstr BtStop t = bt_stop t"
| "bt_step W idstr (BtStatus s) t = on_status_changed s t"

definition acks_first :: "(string \<times> message) list \<Rightarrow> bool" where
  "acks_first q \<longleftrightarrow> q = filter (\<lambda>e. is_ack (snd e)) q @ filter (\<lambda>e. \<not> is_ack (snd e)) q"

definition mtu_ok :: "nat \<Rightarrow> bool" where
  "mtu_ok n \<longleftrightarrow> BLE_MAX_FRAGMENT_SIZE \<le> n \<and> n \<le> MAX_REASONABLE_BLE_PAYLOAD"

definition keyed :: "('v \<Rightarrow> 'k) \<Rightarrow> ('k, 'v) hashmap \<Rightarrow> bool" where
  "keyed f m \<longleftrightarrow> (\<forall>(k, v)\<in>set m. f v = k)"

definition hm_all :: "('v \<Rightarrow> bool) \<Rightarrow> ('k, 'v) hashmap \<Rightarrow> bool" where
  "hm_all P m \<longleftrightarrow> (\<forall>v\<in>snd ` set m. P v)"

definition bt_inv :: "ble_transport \<Rightarrow> bool" where
  "bt_inv t \<longleftrightarrow> hm_inv (bt_peers t) \<and> keyed pd_device_id (bt_peers t) \<and>
     hm_inv (bt_peer_mtus t) \<and> hm_all mtu_ok (bt_peer_mtus t) \<and>
     buffers_ok (bt_fragment_buffers t) \<and> acks_first (bt_send_queue t)"

text \<open>The specification of the outbound side: whether the transport is up, which peers it reaches, and two
  FIFO queues, one for acknowledgements, which is served first, and one for data.\<close>

record outbox =
  ob_status :: transport_status
  ob_peers :: "string set"
  ob_acks :: "(string \<times> message) list"
  ob_data :: "(string \<times> message) list"

definition outbox_put :: "string \<times> message \<Rightarrow> outbox \<Rightarrow> outbox" where
  "outbox_put e s = (if is_ack (snd e) then s\<lparr>ob_acks := ob_acks s @ [e]\<rparr> else s\<lparr>ob_data := ob_data s @ [e]\<rparr>)"

definition outbox_take :: "outbox \<Rightarrow> (string \<times> message) option \<times> outbox" where
  "outbox_take s = (case ob_acks s of
       e # rest \<Rightarrow> (Some e, s\<lparr>ob_acks := rest\<rparr>)
     | [] \<Rightarrow> (case ob_data s of e # rest \<Rightarrow> (Some e, s\<lparr>ob_data := rest\<rparr>) | [] \<Rightarrow> (None, s)))"

datatype out_op = OSend message | OSendTo string message | OTake | OFound peer_device | OLost string | OStatus transport_status

datatype out_result = OSent "bt_error + unit" | OTaken "(string \<times> message) option" | ODone

fun bt_out :: "out_op \<Rightarrow> ble_transport \<Rightarrow> out_result \<times> ble_transport" where
  "bt_out (OSend m) t = map_prod OSent id (bt_send m t)"
| "bt_out (OSendTo p m) t = map_prod OSent id (bt_send_to_peer p m t)"
| "bt_out OTake t = map_prod OTaken id (dequeue_send t)"
| "bt_out (OFound p) t = (ODone, on_peer_discovered p t)"
| "bt_out (OLost i) t = (ODone, on_peer_lost i t)"
| "bt_out (OStatus s) t = (ODone, on_status_changed s t)"

definition outbox_send :: "string \<Rightarrow> message \<Rightarrow> outbox \<Rightarrow> (bt_error + unit) \<times> outbox" where
  "outbox_send p m s =
     (if ob_status s \<noteq> Available then (Inl (BtNotAvailable (ob_status s)), s)
      else if p \<notin> ob_peers s then (Inl (BtPeerNotReachable p), s)
      else (Inr (), outbox_put (p, m) s))"

fun outbox_spec :: "out_op \<Rightarrow> outbox \<Rightarrow> out_result \<times> outbox" where
  "outbox_spec (OSend m) s = map_prod OSent id (outbox_send (msg_recipient m) m s)"
| "outbox_spec (OSendTo p m) s = map_prod OSent id (outbox_send p m s)"
| "outbox_spec OTake s = map_prod OTaken id (outbox_take s)"
| "outbox_spec (OFound p) s = (ODone, s\<lparr>ob_peers := insert (pd_device_id p) (ob_peers s)\<rparr>)"
| "outbox_spec (OLost i) s = (ODone, s\<lparr>ob_peers := ob_peers s - {i}\<rparr>)"
| "outbox_spec (OStatus st) s = (ODone,
     if ob_status s = Available \<and> st \<noteq> Available
     then \<lparr>ob_status = st, ob_peers = {}, ob_acks = [], ob_data = []\<rparr> else s\<lparr>ob_status := st\<rparr>)"

definition outbox_of :: "ble_transport \<Rightarrow> outbox" where
  "outbox_of t = \<lparr>ob_status = bt_status t, ob_peers = fst ` set (bt_peers t),
     ob_acks = filter (\<lambda>e. is_ack (snd e)) (bt_send_queue t),
     ob_data = filter (\<lambda>e. \<not> is_ack (snd e)) (bt_send_queue t)\<rparr>"

text \<open>The platform's pump: up to \<open>n\<close> fragments pulled from a sender, and fragments arriving from an
  identified peer at a receiver.\<close>

fun pull :: "wire_deps \<Rightarrow> (message_id \<Rightarrow> string) \<Rightarrow> nat \<Rightarrow> ble_transport \<Rightarrow> (string \<times> bytes) list \<times> ble_transport" where
  "pull W idstr 0 t = ([], t)"
| "pull W idstr (Suc n) t = (case get_next_fragment W idstr t of
       (Inr (Some f), t') \<Rightarrow> (case pull W idstr n t' of (fs, t'') \<Rightarrow> (f # fs, t''))
     | (_, t') \<Rightarrow> ([], t'))"

definition deliver :: "wire_deps \<Rightarrow> string \<Rightarrow> delivery list \<Rightarrow> ble_transport \<Rightarrow> ble_transport" where
  "deliver W peer = fold (\<lambda>(now0, now, now2, data) t. snd (on_fragment_received_from W now0 now now2 data peer t))"

subsection \<open>Lemmas\<close>

lemma acks_first_enqueue:
  assumes "acks_first q"
  shows "acks_first (enqueue_send e q)"
    and "filter (\<lambda>e. is_ack (snd e)) (enqueue_send e q) =
      (if is_ack (snd e) then filter (\<lambda>e. is_ack (snd e)) q @ [e] else filter (\<lambda>e. is_ack (snd e)) q)"
    and "filter (\<lambda>e. \<not> is_ack (snd e)) (enqueue_send e q) =
      (if is_ack (snd e) then filter (\<lambda>e. \<not> is_ack (snd e)) q else filter (\<lambda>e. \<not> is_ack (snd e)) q @ [e])"
proof -
  let ?A = "filter (\<lambda>e. is_ack (snd e)) q" and ?D = "filter (\<lambda>e. \<not> is_ack (snd e)) q"
  have q: "q = ?A @ ?D" using assms by (simp add: acks_first_def)
  have A: "\<forall>x\<in>set ?A. is_ack (snd x)" and D: "\<forall>x\<in>set ?D. \<not> is_ack (snd x)" by simp_all
  have "takeWhile (\<lambda>e. is_ack (snd e)) (?A @ ?D) = ?A"
    using A D by (cases ?D) (simp_all add: takeWhile_append)
  then have tw: "takeWhile (\<lambda>e. is_ack (snd e)) q = ?A" using q by simp
  have "take (length ?A) q = ?A" "drop (length ?A) q = ?D" using q by (metis append_eq_conv_conj)+
  then have enq: "enqueue_send e q = (if is_ack (snd e) then ?A @ [e] @ ?D else ?A @ ?D @ [e])"
    using q tw by (simp add: enqueue_send_def Let_def)
  show *: "filter (\<lambda>e. is_ack (snd e)) (enqueue_send e q) = (if is_ack (snd e) then ?A @ [e] else ?A)"
    "filter (\<lambda>e. \<not> is_ack (snd e)) (enqueue_send e q) = (if is_ack (snd e) then ?D else ?D @ [e])"
    unfolding enq by (simp_all add: filter_empty_conv)
  show "acks_first (enqueue_send e q)" unfolding acks_first_def * unfolding enq by simp
qed

lemma acks_first_Cons:
  assumes "acks_first (e # q)"
  shows "acks_first q" "\<not> is_ack (snd e) \<Longrightarrow> filter (\<lambda>e. is_ack (snd e)) q = []"
proof -
  show no: "filter (\<lambda>e. is_ack (snd e)) q = []" if "\<not> is_ack (snd e)"
  proof (rule ccontr)
    assume "filter (\<lambda>e. is_ack (snd e)) q \<noteq> []"
    then obtain x xs where x: "filter (\<lambda>e. is_ack (snd e)) q = x # xs" by (cases "filter (\<lambda>e. is_ack (snd e)) q") auto
    then have "is_ack (snd x)" by (metis filter_eq_ConsD)
    moreover have "x = e" using assms x that unfolding acks_first_def by simp
    ultimately show False using that by simp
  qed
  show "acks_first q"
    using assms no unfolding acks_first_def by (cases "is_ack (snd e)") simp_all
qed

lemma acks_first_Nil [simp]: "acks_first []"
  by (simp add: acks_first_def)

lemma update_queue_metric_keeps [simp]:
  "bt_status (update_queue_metric t) = bt_status t" "bt_peers (update_queue_metric t) = bt_peers t"
  "bt_send_queue (update_queue_metric t) = bt_send_queue t"
  "bt_pending_fragments (update_queue_metric t) = bt_pending_fragments t"
  "bt_receive_queue (update_queue_metric t) = bt_receive_queue t"
  "bt_peer_mtus (update_queue_metric t) = bt_peer_mtus t"
  "bt_fragment_buffers (update_queue_metric t) = bt_fragment_buffers t"
  by (simp_all add: update_queue_metric_def Let_def)

lemma record_latency_keeps [simp]:
  "bt_status (record_latency n t) = bt_status t" "bt_peers (record_latency n t) = bt_peers t"
  "bt_send_queue (record_latency n t) = bt_send_queue t"
  "bt_pending_fragments (record_latency n t) = bt_pending_fragments t"
  "bt_receive_queue (record_latency n t) = bt_receive_queue t"
  "bt_peer_mtus (record_latency n t) = bt_peer_mtus t"
  "bt_fragment_buffers (record_latency n t) = bt_fragment_buffers t"
  by (simp_all add: record_latency_def Let_def)

lemma bt_process_fragment_keeps:
  assumes "bt_process_fragment W a b c data t = (r, t')"
  shows "r = bo_result (process_fragment W a b c data (bt_fragment_buffers t))"
    "bt_fragment_buffers t' = bo_buffers (process_fragment W a b c data (bt_fragment_buffers t))"
    "bt_receive_queue t' = bt_receive_queue t" "bt_peers t' = bt_peers t" "bt_peer_mtus t' = bt_peer_mtus t"
    "bt_send_queue t' = bt_send_queue t" "bt_status t' = bt_status t"
    "bt_pending_fragments t' = bt_pending_fragments t"
  using assms by (auto simp: bt_process_fragment_def Let_def split: option.splits)

lemma fragment_message_for_keeps:
  assumes "fragment_message_for W idstr p m t = (r, t')"
  shows "bt_fragment_buffers t' = bt_fragment_buffers t"
    "bt_receive_queue t' = bt_receive_queue t" "bt_peers t' = bt_peers t" "bt_peer_mtus t' = bt_peer_mtus t"
    "bt_send_queue t' = bt_send_queue t" "bt_status t' = bt_status t"
    "bt_pending_fragments t' = bt_pending_fragments t"
  using assms by (auto simp: fragment_message_for_def Let_def split: option.splits sum.splits if_splits)

lemma hm_insert_set: "set (hm_insert k v m) \<subseteq> insert (k, v) (set m)"
  by (induction m) auto

lemma hm_remove_set: "set (hm_remove k m) \<subseteq> set m"
  by (auto simp: hm_remove_def)

lemma keyed_ops [simp]:
  "keyed f []" "keyed f m \<Longrightarrow> f v = i \<Longrightarrow> keyed f (hm_insert i v m)" "keyed f m \<Longrightarrow> keyed f (hm_remove i m)"
  using hm_insert_set[of i v m] hm_remove_set[of i m] by (auto simp: keyed_def)

lemma keyed_get: "keyed f m \<Longrightarrow> map_of m i = Some v \<Longrightarrow> f v = i"
  by (auto simp: keyed_def dest: map_of_SomeD)

lemma hm_all_ops [simp]:
  "hm_all P []" "hm_all P m \<Longrightarrow> P v \<Longrightarrow> hm_all P (hm_insert i v m)" "hm_all P m \<Longrightarrow> hm_all P (hm_remove i m)"
  using hm_insert_set[of i v m] hm_remove_set[of i m] by (auto simp: hm_all_def)

lemma hm_all_get: "hm_all P m \<Longrightarrow> map_of m i = Some v \<Longrightarrow> P v"
  by (force simp: hm_all_def dest: map_of_SomeD)

lemma bt_inv_new: "bt_inv (bt_new i)"
  by (simp add: bt_inv_def bt_new_def hm_inv_def buffers_ok_def)

lemma bt_inv_irrelevant [simp]:
  "bt_inv (t\<lparr>bt_receive_queue := q\<rparr>) = bt_inv t" "bt_inv (t\<lparr>bt_pending_fragments := fs\<rparr>) = bt_inv t"
  "bt_inv (t\<lparr>bt_metrics := m\<rparr>) = bt_inv t" "bt_inv (t\<lparr>bt_status := st\<rparr>) = bt_inv t"
  "bt_inv (t\<lparr>bt_undersized_mtu_reports := n\<rparr>) = bt_inv t" "bt_inv (t\<lparr>bt_fragment_fallback_count := n\<rparr>) = bt_inv t"
  "bt_inv (t\<lparr>bt_recipient_not_among_peers_count := n\<rparr>) = bt_inv t"
  "bt_inv (update_queue_metric t) = bt_inv t" "bt_inv (record_latency k t) = bt_inv t"
  by (simp_all add: bt_inv_def)

lemma bt_inv_parts:
  "bt_inv t \<Longrightarrow> buffers_ok (bt_fragment_buffers t)" "bt_inv t \<Longrightarrow> acks_first (bt_send_queue t)"
  "bt_inv t \<Longrightarrow> hm_inv (bt_peers t)" "bt_inv t \<Longrightarrow> hm_inv (bt_peer_mtus t)"
  by (simp_all add: bt_inv_def)

lemma bt_inv_set_queue: "bt_inv t \<Longrightarrow> acks_first q \<Longrightarrow> bt_inv (t\<lparr>bt_send_queue := q\<rparr>)"
  and bt_inv_set_buffers: "bt_inv t \<Longrightarrow> buffers_ok b \<Longrightarrow> bt_inv (t\<lparr>bt_fragment_buffers := b\<rparr>)"
  by (simp_all add: bt_inv_def)

lemma bt_inv_insert_peer: "bt_inv t \<Longrightarrow> pd_device_id p = i \<Longrightarrow> bt_inv (t\<lparr>bt_peers := hm_insert i p (bt_peers t)\<rparr>)"
  by (simp add: bt_inv_def)

lemma set_peer_mtu_inv: "bt_inv t \<Longrightarrow> bt_inv (set_peer_mtu i n t)"
  by (simp add: bt_inv_def set_peer_mtu_def mtu_ok_def)

lemma clear_peer_mtu_inv: "bt_inv t \<Longrightarrow> bt_inv (clear_peer_mtu i t)"
  by (simp add: bt_inv_def clear_peer_mtu_def)

lemma drain_session_inv [simp]: "bt_inv (drain_session t)"
  by (simp add: drain_session_def) (simp add: bt_inv_def hm_inv_def buffers_ok_def)

lemma on_peer_lost_inv: "bt_inv t \<Longrightarrow> bt_inv (on_peer_lost i t)"
  by (simp add: on_peer_lost_def bt_inv_def)

lemma on_peer_rssi_inv: "bt_inv t \<Longrightarrow> bt_inv (snd (on_peer_rssi now i r t))"
  using keyed_get[of pd_device_id "bt_peers t" i] by (auto simp: on_peer_rssi_def bt_inv_def split: option.splits)

lemma bt_process_fragment_inv: "bt_inv t \<Longrightarrow> bt_process_fragment W a b c d t = (r, t') \<Longrightarrow> bt_inv t'"
  by (auto simp: bt_process_fragment_def Let_def bt_inv_set_buffers bt_inv_parts process_fragment_ok split: option.splits)

lemma on_fragment_received_inv: "bt_inv t \<Longrightarrow> bt_inv (on_fragment_received W a b c d t)"
  by (auto simp: on_fragment_received_def dest: bt_process_fragment_inv split: prod.splits sum.splits option.splits)

lemma on_fragment_received_from_inv: "bt_inv t \<Longrightarrow> bt_inv (snd (on_fragment_received_from W a b c d p t))"
  by (auto simp: on_fragment_received_from_def ble_on_fragment_received_from_def on_fragment_received_inv
      dest: bt_process_fragment_inv split: prod.splits sum.splits option.splits)

lemma fragment_message_for_inv: "bt_inv t \<Longrightarrow> fragment_message_for W idstr p m t = (r, t') \<Longrightarrow> bt_inv t'"
  by (auto simp: fragment_message_for_def Let_def split: option.splits sum.splits if_splits)

lemma get_next_fragment_inv:
  assumes "bt_inv t"
  shows "bt_inv (snd (get_next_fragment W idstr t))"
proof (cases "bt_pending_fragments t")
  case Nil
  show ?thesis
  proof (cases "bt_send_queue t")
    case (Cons e rest)
    then have inv: "bt_inv (t\<lparr>bt_send_queue := rest\<rparr>)"
      using assms acks_first_Cons(1)[of e rest] bt_inv_parts(2)[OF assms] by (simp add: bt_inv_set_queue)
    obtain p m where e: "e = (p, m)" by (cases e)
    obtain r t' where f: "fragment_message_for W idstr p m (t\<lparr>bt_send_queue := rest\<rparr>) = (r, t')" by fastforce
    show ?thesis using Nil Cons e f fragment_message_for_inv[OF inv f]
      by (auto simp: get_next_fragment_def split: sum.splits list.splits)
  qed (use Nil assms in \<open>simp add: get_next_fragment_def\<close>)
qed (use assms in \<open>simp add: get_next_fragment_def\<close>)

lemma dequeue_send_inv: "bt_inv t \<Longrightarrow> bt_inv (snd (dequeue_send t))"
  using bt_inv_parts(2)[of t]
  by (auto simp: dequeue_send_def intro!: bt_inv_set_queue dest: acks_first_Cons(1) split: list.splits)

lemmas bt_inv_ops = bt_inv_parts bt_inv_insert_peer set_peer_mtu_inv clear_peer_mtu_inv bt_inv_set_queue
  acks_first_enqueue(1) on_peer_lost_inv on_peer_rssi_inv on_fragment_received_inv on_fragment_received_from_inv
  get_next_fragment_inv dequeue_send_inv

lemma bt_step_inv: "bt_inv t \<Longrightarrow> bt_inv (bt_step W idstr op t)"
  by (cases op)
     (simp_all add: bt_inv_ops on_peer_discovered_def bt_on_message_received_def bt_on_message_received_from_def
      bt_update_metrics_def bt_send_def bt_send_to_peer_def requeue_fragment_def
      bt_receive_def bt_start_def bt_stop_def on_status_changed_def Let_def split: list.split)

interpretation btm: machine "bt_step W idstr" "\<lambda>_ _. True" bt_inv for W idstr
  by unfold_locales (rule bt_step_inv)

lemma hm_contains_iff: "hm_contains k m \<longleftrightarrow> k \<in> fst ` set m"
  unfolding hm_contains_def map_of_eq_None_iff by simp

lemma hm_remove_keys: "fst ` set (hm_remove k m) = fst ` set m - {k}"
  by (auto simp: hm_remove_def image_iff)

lemma outbox_of_send:
  assumes "bt_inv t" "hm_contains p (bt_peers t)" "bt_status t = Available"
  shows "outbox_of (update_queue_metric (t\<lparr>bt_send_queue := enqueue_send (p, m) (bt_send_queue t)\<rparr>)) =
    outbox_put (p, m) (outbox_of t)"
  using acks_first_enqueue(2,3)[OF bt_inv_parts(2)[OF assms(1)], of "(p, m)"]
  by (simp add: outbox_of_def outbox_put_def)

lemma outbox_of_take:
  assumes "bt_inv t"
  shows "outbox_take (outbox_of t) = (fst (dequeue_send t), outbox_of (snd (dequeue_send t)))"
proof (cases "bt_send_queue t")
  case (Cons e q)
  then show ?thesis using acks_first_Cons(2)[of e q] bt_inv_parts(2)[OF assms]
    by (cases "is_ack (snd e)") (simp_all add: outbox_take_def outbox_of_def dequeue_send_def)
qed (simp add: outbox_take_def outbox_of_def dequeue_send_def)

fun out_as_op :: "out_op \<Rightarrow> bt_op" where
  "out_as_op (OSend m) = BtSend m"
| "out_as_op (OSendTo p m) = BtSendTo p m"
| "out_as_op OTake = BtDequeue"
| "out_as_op (OFound p) = BtDiscovered p"
| "out_as_op (OLost i) = BtLost i"
| "out_as_op (OStatus s) = BtStatus s"

lemma bt_out_step: "snd (bt_out op t) = bt_step W idstr (out_as_op op) t"
  by (cases op) simp_all

interpretation bts: simulation bt_out outbox_spec outbox_of bt_inv
proof unfold_locales
  fix t op
  assume inv: "bt_inv t"
  show "bt_inv (snd (bt_out op t))"
    unfolding bt_out_step[of op t no_deps "\<lambda>_. []"] by (rule bt_step_inv[OF inv])
  show "outbox_spec op (outbox_of t) = (fst (bt_out op t), outbox_of (snd (bt_out op t)))"
  proof (cases op)
    case (OSend m)
    then show ?thesis using outbox_of_send[OF inv, of "msg_recipient m" m]
      by (simp add: bt_send_def outbox_send_def Let_def hm_contains_iff) (simp add: outbox_of_def hm_contains_iff)
  next
    case (OSendTo p m)
    then show ?thesis using outbox_of_send[OF inv, of p m]
      by (simp add: bt_send_to_peer_def outbox_send_def Let_def hm_contains_iff) (simp add: outbox_of_def hm_contains_iff)
  next
    case OTake
    then show ?thesis using outbox_of_take[OF inv] by (simp add: map_prod_def split_beta)
  qed (simp_all add: outbox_of_def on_peer_discovered_def on_peer_lost_def on_status_changed_def drain_session_def
      Let_def hm_remove_keys)
qed

lemma peer_mtu_bounds: "bt_inv t \<Longrightarrow> mtu_ok (peer_mtu i t)"
  by (cases "map_of (bt_peer_mtus t) i") (auto simp: peer_mtu_def bt_inv_def mtu_ok_def dest: hm_all_get)

lemma fragment_message_for_ok:
  assumes "serialize_message_with W m = Inr bs" "fragment_bytes (peer_mtu p t) (idstr (msg_id m)) bs = Inr fs"
  shows "fst (fragment_message_for W idstr p m t) = Inr fs"
  using assms by (auto simp: fragment_message_for_def peer_mtu_def Let_def split: option.splits)

lemma pull_pending:
  assumes "bt_send_queue t = []"
  shows "fst (pull W idstr n t) = take n (bt_pending_fragments t)"
  using assms
proof (induction n arbitrary: t)
  case (Suc n)
  then show ?case
    by (cases "bt_pending_fragments t") (simp_all add: get_next_fragment_def split_beta)
qed simp

lemma pull_message:
  assumes "bt_pending_fragments t = []" "bt_send_queue t = [(p, m)]"
    and "fst (fragment_message_for W idstr p m (t\<lparr>bt_send_queue := []\<rparr>)) = Inr fs" "fs \<noteq> []" "length fs \<le> n"
  shows "fst (pull W idstr n t) = map (Pair p) fs"
proof -
  obtain f fs' where fs: "fs = f # fs'" using assms(4) by (cases fs) auto
  obtain t1 where f: "fragment_message_for W idstr p m (t\<lparr>bt_send_queue := []\<rparr>) = (Inr fs, t1)"
    using assms(3) by (metis prod.collapse)
  let ?t = "update_queue_metric (t1\<lparr>bt_pending_fragments := map (Pair p) fs'\<rparr>)"
  have gn: "get_next_fragment W idstr t = (Inr (Some (p, f)), ?t)"
    using assms(1,2) f fs by (simp add: get_next_fragment_def)
  have "bt_send_queue ?t = []" using fragment_message_for_keeps(5)[OF f] by simp
  from pull_pending[OF this, of W idstr "n - 1"] show ?thesis
    using gn fs assms(5) by (cases n) (simp_all add: split_beta)
qed

definition tagged :: "string \<Rightarrow> ble_error + message option \<Rightarrow> message list" where
  "tagged peer r = (case r of Inr (Some m) \<Rightarrow> [m\<lparr>msg_transport_peer_id := Some peer\<rparr>] | _ \<Rightarrow> [])"

lemma on_fragment_received_from_effect:
  assumes "peer \<noteq> []" "t' = snd (on_fragment_received_from W a b c d peer t)"
  shows "bt_fragment_buffers t' = bo_buffers (process_fragment W a b c d (bt_fragment_buffers t))"
    "bt_receive_queue t' = bt_receive_queue t @ tagged peer (bo_result (process_fragment W a b c d (bt_fragment_buffers t)))"
proof -
  obtain r t1 where p: "bt_process_fragment W a b c d t = (r, t1)" by fastforce
  note k = bt_process_fragment_keeps[OF p]
  show "bt_fragment_buffers t' = bo_buffers (process_fragment W a b c d (bt_fragment_buffers t))"
    "bt_receive_queue t' = bt_receive_queue t @ tagged peer (bo_result (process_fragment W a b c d (bt_fragment_buffers t)))"
    using assms p k(1,2,3)
    by (auto simp: on_fragment_received_from_def ble_on_fragment_received_from_def set_transport_peer_id_def tagged_def
        split: sum.splits option.splits)
qed

lemma deliver_queue:
  assumes "peer \<noteq> []"
  shows "bt_receive_queue (deliver W peer ds t) =
    bt_receive_queue t @ concat (map (tagged peer) (fst (ble_run W ds (bt_fragment_buffers t))))"
proof (induction ds arbitrary: t)
  case (Cons d ds)
  obtain a b c x where d: "d = (a, b, c, x)" by (cases d) auto
  let ?t = "snd (on_fragment_received_from W a b c x peer t)"
  show ?case using Cons[of ?t] on_fragment_received_from_effect[OF assms refl, of W a b c x t]
    by (simp add: d deliver_def Let_def split_beta)
qed (simp add: deliver_def)

lemma fragments_distinct:
  assumes "fragment_bytes mtu mid msg = Inr fs" "mtu \<le> MAX_REASONABLE_BLE_PAYLOAD" "rust_str mid"
  shows "distinct fs"
  unfolding distinct_conv_nth
proof (intro allI impI notI)
  fix i j
  assume "i < length fs" "j < length fs" "i \<noteq> j" "fs ! i = fs ! j"
  then show False
    using sender_decodes[OF assms(1,3,2), of i] sender_decodes[OF assms(1,3,2), of j] by simp
qed

lemma deliver_all:
  assumes fb: "fragment_bytes mtu mid msg = Inr fs" "mtu \<le> MAX_REASONABLE_BLE_PAYLOAD" "rust_str mid"
    and r: "bt_inv r" "map_of (bt_fragment_buffers r) mid = None" "length (bt_fragment_buffers r) < BLE_MAX_FRAGMENT_ASSEMBLIES"
    and ds: "mset (map data_of ds) = mset fs" "timely fs None ds" and peer: "peer \<noteq> []"
    and dec: "deserialize_message W msg = Inr m"
  shows "bt_receive_queue (deliver W peer ds r) = bt_receive_queue r @ [m\<lparr>msg_transport_peer_id := Some peer\<rparr>]"
proof -
  have "length ds = length fs" using ds(1) by (metis length_map size_mset)
  then have "ds \<noteq> []" using fragment_bytes_Inr(4)[OF fb(1)] by auto
  then obtain pre now0 now now2 x where d: "ds = pre @ [(now0, now, now2, x)]" by (metis prod_cases4 rev_exhaust)
  have dist: "distinct (map data_of ds)" using fragments_distinct[OF fb] ds(1) by (metis mset_eq_imp_distinct_iff)
  have sets: "set fs = data_of ` set ds" using ds(1) by (metis list.set_map mset_eq_setD)
  have x: "data_of (now0, now, now2, x) = x" by (simp add: data_of_def)
  have pre: "\<forall>d\<in>set pre. data_of d \<in> set fs" using sets d by auto
  have "filter (\<lambda>d. data_of d \<notin> set fs) pre = []" using pre by (simp add: filter_empty_conv)
  then have room: "length (bt_fragment_buffers r) + length (filter (\<lambda>d. data_of d \<notin> set fs) pre) < BLE_MAX_FRAGMENT_ASSEMBLIES"
    using r(3) by simp
  have "\<exists>rs b'. ble_run W (pre @ [(now0, now, now2, x)]) (bt_fragment_buffers r) = (rs @ [some_message (ble_deserialize W msg)], b') \<and>
      length rs = length pre \<and> (\<forall>k<length pre. data_of (pre ! k) \<in> set fs \<longrightarrow> rs ! k = Inr None) \<and>
      map_of b' mid = None \<and> buffers_ok b'"
    by (rule reassembles[OF fb bt_inv_parts(1)[OF r(1)] r(2) _ _ _ _ ds(2)[unfolded d] room])
       (use sets dist pre d x in auto)
  then obtain rs b' where run: "ble_run W ds (bt_fragment_buffers r) = (rs @ [some_message (ble_deserialize W msg)], b')"
    and rs: "length rs = length pre" "\<forall>k<length pre. data_of (pre ! k) \<in> set fs \<longrightarrow> rs ! k = Inr None"
    unfolding d by blast
  have "rs ! k = Inr None" if "k < length rs" for k using rs that pre by (metis nth_mem)
  then have "\<forall>q\<in>set rs. q = Inr None" by (metis in_set_conv_nth)
  then have "concat (map (tagged peer) rs) = []" by (auto simp: tagged_def)
  then show ?thesis
    using deliver_queue[OF peer, of W ds r] run dec by (simp add: ble_deserialize_def some_message_def tagged_def)
qed

lemma fragment_bytes_succeeds:
  assumes "mtu_ok mtu" "length mid = 36" "bs \<noteq> []" "length bs \<le> BLE_MAX_FRAGMENT_COUNT * (mtu - 46)"
  shows "\<exists>fs. fragment_bytes mtu mid bs = Inr fs"
  using fragments_fit[of mtu mid bs] assms by (cases "fragment_bytes mtu mid bs") (auto simp: mtu_ok_def)

subsection \<open>Properties\<close>


definition example_link :: "string \<Rightarrow> ble_transport" where
  "example_link peer = on_peer_discovered \<lparr>pd_device_id = peer, pd_address = ''00'', pd_rssi = -60, pd_last_seen = 0,
     pd_connected = True\<rparr> (bt_start (bt_new ''me''))"

lemma example_link_inv: "bt_inv (example_link p)"
  unfolding example_link_def by (intro bt_step_inv[of _ no_deps "\<lambda>_. []" "BtDiscovered _", unfolded bt_step.simps]
    bt_step_inv[of _ no_deps "\<lambda>_. []" BtStart, unfolded bt_step.simps] bt_inv_new)


text \<open>C9. The outbound side refines two FIFO queues: whatever sends, takes, discoveries, losses and status
  changes happen, their results are those of a transport that keeps acknowledgements and data in
  separate queues in the order of sending, serves acknowledgements first, refuses a peer it has no
  link to, and forgets links and messages when it stops being available.\<close>

theorem ble_outbox_refines:
  "outputs bt_out ops (bt_new i) =
     outputs outbox_spec ops \<lparr>ob_status = Unavailable, ob_peers = {}, ob_acks = [], ob_data = []\<rparr>"
  using bts.outputs_eq[OF bt_inv_new[of i], of ops] by (simp add: outbox_of_def bt_new_def)

text \<open>C24. Through any sequence of operations and platform callbacks the Bluetooth transport keeps its state
  consistent: peers are stored under their own device id, every MTU it cuts fragments by lies
  between the floor and the ceiling, the reassembly buffers keep their bounds and no data message
  precedes an acknowledgement in the send queue.\<close>

theorem ble_transport_consistent:
  "let t = fold (bt_step W idstr) ops (bt_new i) in
     bt_inv t \<and> BLE_MAX_FRAGMENT_SIZE \<le> peer_mtu p t \<and> peer_mtu p t \<le> MAX_REASONABLE_BLE_PAYLOAD"
proof -
  have "bt_inv (fold (bt_step W idstr) ops (bt_new i))" by (rule btm.run_inv[OF bt_inv_new]) simp
  then show ?thesis using peer_mtu_bounds by (auto simp: Let_def mtu_ok_def)
qed

end
