(* ===== verification/Transport_Interface.thy ===== *)
theory Transport_Interface
  imports Transport_Types Wire "HOL-Library.Multiset"
begin

text \<open>
  What callers rely on of the transports: that the links a transport lists are the peers it accepts
  messages for (\<open>peer_links\<close>), and that a transport with a confirmation loop accounts for every message
  it hands to the platform (\<open>confirmation_loop\<close>).  The transports interpret these interfaces on
  their own operations.
\<close>

subsection \<open>Addressing peers\<close>

text \<open>A caller that offers a message to peers in turn, and gets back the peers that took it.\<close>

fun fan_out :: "(string \<Rightarrow> message \<Rightarrow> 's \<Rightarrow> ('e + unit) \<times> 's) \<Rightarrow> message \<Rightarrow> string list \<Rightarrow> 's \<Rightarrow> string list \<times> 's" where
  "fan_out send_to m [] s = ([], s)"
| "fan_out send_to m (p # ps) s = (case send_to p m s of
       (Inr _, s') \<Rightarrow> (case fan_out send_to m ps s' of (taken, s'') \<Rightarrow> (p # taken, s''))
     | (Inl _, s') \<Rightarrow> fan_out send_to m ps s')"

locale peer_links =
  fixes links :: "'s \<Rightarrow> peer_link list"
    and send_to :: "string \<Rightarrow> message \<Rightarrow> 's \<Rightarrow> ('e + unit) \<times> 's"
    and send :: "message \<Rightarrow> 's \<Rightarrow> ('e + unit) \<times> 's"
    and outgoing :: "'s \<Rightarrow> (string \<times> message) list"
    and inv :: "'s \<Rightarrow> bool"
  assumes accepts: "inv s \<Longrightarrow> fst (send_to p m s) = Inr () \<longleftrightarrow> p \<in> pl_peer_id ` set (links s)"
    and send_accepts: "inv s \<Longrightarrow> fst (send m s) = Inr () \<longleftrightarrow> msg_recipient m \<in> pl_peer_id ` set (links s)"
    and queued: "inv s \<Longrightarrow> fst (send_to p m s) = Inr () \<Longrightarrow>
      mset (outgoing (snd (send_to p m s))) = add_mset (p, m) (mset (outgoing s))"
    and refused: "inv s \<Longrightarrow> fst (send_to p m s) \<noteq> Inr () \<Longrightarrow> snd (send_to p m s) = s"
    and links_kept: "inv s \<Longrightarrow> links (snd (send_to p m s)) = links s"
    and inv_kept: "inv s \<Longrightarrow> inv (snd (send_to p m s))"
begin

lemma fan_out_reaches:
  "inv s \<Longrightarrow> fst (fan_out send_to m ps s) = filter (\<lambda>p. p \<in> pl_peer_id ` set (links s)) ps \<and>
     mset (outgoing (snd (fan_out send_to m ps s))) =
       mset (outgoing s) + mset (map (\<lambda>p. (p, m)) (filter (\<lambda>p. p \<in> pl_peer_id ` set (links s)) ps))"
proof (induction ps arbitrary: s)
  case (Cons p ps)
  obtain r s' where r: "send_to p m s = (r, s')" by fastforce
  have keep: "inv s'" "links s' = links s" using inv_kept[OF Cons.prems, of p m] links_kept[OF Cons.prems, of p m] r by simp_all
  note ih = Cons.IH[OF keep(1)]
  show ?case
  proof (cases r)
    case (Inr u)
    then have "p \<in> pl_peer_id ` set (links s)" "mset (outgoing s') = add_mset (p, m) (mset (outgoing s))"
      using accepts[OF Cons.prems, of p m] queued[OF Cons.prems, of p m] r by simp_all
    then show ?thesis using ih Inr keep(2) r by (simp add: split_beta)
  next
    case (Inl e)
    then have "p \<notin> pl_peer_id ` set (links s)" "s' = s"
      using accepts[OF Cons.prems, of p m] refused[OF Cons.prems, of p m] r by auto
    then show ?thesis using ih Inl keep(2) r by simp
  qed
qed simp

end

subsection \<open>Confirmation loops\<close>

text \<open>Operations of a transport with a confirmation loop; one that returns \<open>None\<close> has panicked.  A
  legal run hands out no message whose id is still waiting for its outcome.\<close>

fun run_loop :: "('op \<Rightarrow> 's \<Rightarrow> (nat \<times> 's) option) \<Rightarrow> 'op list \<Rightarrow> 's \<Rightarrow> (nat \<times> 's) option" where
  "run_loop step [] s = Some (0, s)"
| "run_loop step (op # ops) s = (case step op s of None \<Rightarrow> None
     | Some (n, s') \<Rightarrow> map_option (\<lambda>(k, t). (n + k, t)) (run_loop step ops s'))"

fun loop_legal :: "('op \<Rightarrow> 's \<Rightarrow> bool) \<Rightarrow> ('op \<Rightarrow> 's \<Rightarrow> (nat \<times> 's) option) \<Rightarrow> 'op list \<Rightarrow> 's \<Rightarrow> bool" where
  "loop_legal ok step [] s = True"
| "loop_legal ok step (op # ops) s = (ok op s \<and> (case step op s of None \<Rightarrow> True | Some (_, s') \<Rightarrow> loop_legal ok step ops s'))"

text \<open>\<open>step\<close> returns how many messages it handed out; \<open>account\<close> is the number of confirmed, failed and
  unresolved ones.\<close>

locale confirmation_loop =
  fixes step :: "'op \<Rightarrow> 's \<Rightarrow> (nat \<times> 's) option"
    and ok :: "'op \<Rightarrow> 's \<Rightarrow> bool"
    and account :: "'s \<Rightarrow> nat"
    and inv :: "'s \<Rightarrow> bool"
  assumes step_ok: "inv s \<Longrightarrow> ok op s \<Longrightarrow> account s < 2 ^ 32 \<Longrightarrow>
      \<exists>n s'. step op s = Some (n, s') \<and> n \<le> 1 \<and> account s' = account s + n \<and> inv s'"
begin

lemma accounts:
  "inv s \<Longrightarrow> loop_legal ok step ops s \<Longrightarrow> account s + length ops < 2 ^ 32 \<Longrightarrow>
     \<exists>n s'. run_loop step ops s = Some (n, s') \<and> account s' = account s + n \<and> inv s'"
proof (induction ops arbitrary: s)
  case (Cons op ops)
  then have ok: "ok op s" and small: "account s < 2 ^ 32" by simp_all
  obtain k t where t: "step op s = Some (k, t)" "k \<le> 1" "inv t" and acc: "account t = account s + k"
    using step_ok[OF Cons.prems(1) ok small] by blast
  have "\<exists>n s'. run_loop step ops t = Some (n, s') \<and> account s' = account t + n \<and> inv s'"
    by (rule Cons.IH[OF t(3)]) (use Cons.prems t acc in simp_all)
  then show ?case using t acc by auto
qed simp

end

end
