(* ===== verification/Peer_Stream_Transport.thy ===== *)
theory Peer_Stream_Transport
  imports Transport_Interface Ble_Transport
begin

text \<open>
  The queue engine of the peer-stream transport (\<open>offline-protocol-transport/src/wifi_direct.rs\<close>): proved
  links, the send and receive queues, and the status that counts the transport as a carrier only
  while a link is proved.  Platform callbacks carry no state.
\<close>

record wifi_direct_peer =
  wp_device_name :: string
  wp_device_address :: string
  wp_is_group_owner :: bool
  wp_last_seen :: system_time
  wp_connected :: bool

record wifi_direct_config =
  wc_device_name :: string
  wc_auto_accept :: bool
  wc_group_owner_intent :: nat

definition wifi_direct_config_default :: wifi_direct_config where
  "wifi_direct_config_default = \<lparr>wc_device_name = ''OfflineProtocolDevice'', wc_auto_accept = False, wc_group_owner_intent = 7\<rparr>"

record wifi_direct_transport =
  wd_device_id :: string
  wd_config :: wifi_direct_config
  wd_layer_status :: transport_status
  wd_peers :: "(string, wifi_direct_peer) hashmap"
  wd_connected_links :: "(string, system_time) hashmap"
  wd_receive_queue :: "message list"
  wd_send_queue :: "(string \<times> message) list"
  wd_metrics :: transport_metrics

datatype wd_error = WdNotAvailable | WdPeerNotReachable string | WdWire transport_error

definition wd_with_config :: "string \<Rightarrow> wifi_direct_config \<Rightarrow> wifi_direct_transport" where
  "wd_with_config device_id config = \<lparr>wd_device_id = device_id, wd_config = config, wd_layer_status = Unavailable,
     wd_peers = [], wd_connected_links = [], wd_receive_queue = [], wd_send_queue = [],
     wd_metrics = transport_metrics_default\<rparr>"

definition wd_new :: "string \<Rightarrow> wifi_direct_transport" where
  "wd_new device_id = wd_with_config device_id wifi_direct_config_default"

definition wd_on_peer_discovered :: "wifi_direct_peer \<Rightarrow> wifi_direct_transport \<Rightarrow> wifi_direct_transport" where
  "wd_on_peer_discovered peer t = t\<lparr>wd_peers := hm_insert (wp_device_address peer) peer (wd_peers t)\<rparr>"

definition wd_on_peer_lost :: "string \<Rightarrow> wifi_direct_transport \<Rightarrow> wifi_direct_transport" where
  "wd_on_peer_lost device_address t = t\<lparr>wd_peers := hm_remove device_address (wd_peers t)\<rparr>"

definition wd_on_peer_connected :: "system_time \<Rightarrow> string \<Rightarrow> wifi_direct_transport \<Rightarrow> wifi_direct_transport" where
  "wd_on_peer_connected now peer_id t =
     (if peer_id = [] then t else t\<lparr>wd_connected_links := hm_insert peer_id now (wd_connected_links t)\<rparr>)"

definition wd_on_peer_disconnected :: "string \<Rightarrow> wifi_direct_transport \<Rightarrow> bool \<times> wifi_direct_transport" where
  "wd_on_peer_disconnected peer_id t =
     (hm_contains peer_id (wd_connected_links t), t\<lparr>wd_connected_links := hm_remove peer_id (wd_connected_links t)\<rparr>)"

definition wd_on_message_received :: "message \<Rightarrow> wifi_direct_transport \<Rightarrow> wifi_direct_transport" where
  "wd_on_message_received m t = t\<lparr>wd_receive_queue := wd_receive_queue t @ [m]\<rparr>"

definition wd_on_message_received_from :: "message \<Rightarrow> string \<Rightarrow> wifi_direct_transport \<Rightarrow> wifi_direct_transport" where
  "wd_on_message_received_from m peer_id t =
     t\<lparr>wd_receive_queue := on_message_received_from m peer_id (wd_receive_queue t)\<rparr>"

definition wd_update_metrics :: "transport_metrics \<Rightarrow> wifi_direct_transport \<Rightarrow> wifi_direct_transport" where
  "wd_update_metrics m t = t\<lparr>wd_metrics := m\<rparr>"

definition wd_status :: "wifi_direct_transport \<Rightarrow> transport_status" where
  "wd_status t = (if wd_layer_status t = Available \<and> wd_connected_links t = [] then Connecting else wd_layer_status t)"

text \<open>The tail of \<open>send\<close> and \<open>send_to_peer\<close>: enqueue and report the depth.\<close>

definition wd_enqueue :: "string \<Rightarrow> message \<Rightarrow> wifi_direct_transport \<Rightarrow> wifi_direct_transport" where
  "wd_enqueue p m t = (let queue = wd_send_queue t @ [(p, m)] in
     t\<lparr>wd_send_queue := queue, wd_metrics := (wd_metrics t)\<lparr>tm_queue_depth := length queue,
        tm_congestion := clamp01 (f32 (f32 (of_nat (length queue)) / 20))\<rparr>\<rparr>)"

definition wd_send :: "message \<Rightarrow> wifi_direct_transport \<Rightarrow> (wd_error + unit) \<times> wifi_direct_transport" where
  "wd_send m t =
     (if wd_layer_status t \<noteq> Available then (Inl WdNotAvailable, t)
      else if \<not> hm_contains (msg_recipient m) (wd_connected_links t) then (Inl (WdPeerNotReachable (msg_recipient m)), t)
      else (Inr (), wd_enqueue (msg_recipient m) m t))"

definition wd_send_to_peer :: "string \<Rightarrow> message \<Rightarrow> wifi_direct_transport \<Rightarrow> (wd_error + unit) \<times> wifi_direct_transport" where
  "wd_send_to_peer peer_id m t =
     (if wd_layer_status t \<noteq> Available then (Inl WdNotAvailable, t)
      else if \<not> hm_contains peer_id (wd_connected_links t) then (Inl (WdPeerNotReachable peer_id), t)
      else (Inr (), wd_enqueue peer_id m t))"

definition wd_connected_peers :: "wifi_direct_transport \<Rightarrow> peer_link list" where
  "wd_connected_peers t =
     (if wd_layer_status t \<noteq> Available then []
      else map (\<lambda>p. \<lparr>pl_peer_id = fst p, pl_rssi = None\<rparr>) (wd_connected_links t))"

definition wd_receive :: "wifi_direct_transport \<Rightarrow> message option \<times> wifi_direct_transport" where
  "wd_receive t = (case wd_receive_queue t of
       [] \<Rightarrow> (None, t)
     | m # rest \<Rightarrow> (Some m, t\<lparr>wd_receive_queue := rest\<rparr>))"

definition wd_drain :: "wifi_direct_transport \<Rightarrow> wifi_direct_transport" where
  "wd_drain t = t\<lparr>wd_peers := [], wd_connected_links := [], wd_send_queue := [], wd_receive_queue := [],
     wd_metrics := (wd_metrics t)\<lparr>tm_queue_depth := 0, tm_congestion := 0\<rparr>\<rparr>"

definition wd_stop :: "wifi_direct_transport \<Rightarrow> wifi_direct_transport" where
  "wd_stop t = wd_drain (t\<lparr>wd_layer_status := Disconnected\<rparr>)"

definition wd_on_status_changed :: "transport_status \<Rightarrow> wifi_direct_transport \<Rightarrow> wifi_direct_transport" where
  "wd_on_status_changed status t =
     (let t' = t\<lparr>wd_layer_status := status\<rparr> in
      if wd_layer_status t = Available \<and> status \<noteq> Available then wd_drain t' else t')"

definition wd_on_data_received ::
  "wire_deps \<Rightarrow> bytes \<Rightarrow> wifi_direct_transport \<Rightarrow> (transport_error + unit) \<times> wifi_direct_transport" where
  "wd_on_data_received W data t = (case on_data_received W data (wd_receive_queue t) of
       (r, queue) \<Rightarrow> (r, t\<lparr>wd_receive_queue := queue\<rparr>))"

definition wd_on_data_received_from ::
  "wire_deps \<Rightarrow> bytes \<Rightarrow> string \<Rightarrow> wifi_direct_transport \<Rightarrow> (transport_error + unit) \<times> wifi_direct_transport" where
  "wd_on_data_received_from W data peer_id t = (case on_data_received_from W data peer_id (wd_receive_queue t) of
       (r, queue) \<Rightarrow> (r, t\<lparr>wd_receive_queue := queue\<rparr>))"

definition wd_get_next_message ::
  "wire_deps \<Rightarrow> wifi_direct_transport \<Rightarrow> (wd_error + (string \<times> bytes) option) \<times> wifi_direct_transport" where
  "wd_get_next_message W t = (case wd_send_queue t of
       [] \<Rightarrow> (Inr None, t)
     | (recipient, m) # rest \<Rightarrow>
         let t' = t\<lparr>wd_send_queue := rest\<rparr> in
         (case serialize_message_with W m of
            Inl e \<Rightarrow> (Inl (WdWire e), t')
          | Inr data \<Rightarrow> (Inr (Some (recipient, data)), t')))"

definition group_owner_intent :: "nat \<Rightarrow> wifi_direct_config \<Rightarrow> wifi_direct_config" where
  "group_owner_intent intent c = c\<lparr>wc_group_owner_intent := min intent 15\<rparr>"

subsection \<open>Links of both transports\<close>

interpretation wdl: peer_links wd_connected_peers wd_send_to_peer wd_send wd_send_queue "\<lambda>_. True"
proof unfold_locales
  fix s p m
  show "fst (wd_send_to_peer p m s) = Inr () \<longleftrightarrow> p \<in> pl_peer_id ` set (wd_connected_peers s)"
    "fst (wd_send m s) = Inr () \<longleftrightarrow> msg_recipient m \<in> pl_peer_id ` set (wd_connected_peers s)"
    by (simp_all add: wd_send_to_peer_def wd_send_def wd_connected_peers_def hm_contains_iff image_image)
qed (auto simp: wd_send_to_peer_def wd_connected_peers_def wd_enqueue_def Let_def split: if_splits)

lemma ble_link_ids: "bt_inv t \<Longrightarrow> bt_status t = Available \<Longrightarrow> pl_peer_id ` set (connected_peers t) = fst ` set (bt_peers t)"
  by (force simp: connected_peers_def bt_inv_def keyed_def image_image split_beta)

lemma enqueue_send_mset: "mset (enqueue_send e q) = add_mset e (mset q)"
proof -
  have "mset (take n q @ [e] @ drop n q) = add_mset e (mset (take n q @ drop n q))" for n
    by (simp del: append_take_drop_id)
  then have "mset (take n q @ [e] @ drop n q) = add_mset e (mset q)" for n by (simp only: append_take_drop_id)
  then show ?thesis
    by (cases "is_ack (snd e)") (simp_all only: enqueue_send_def Let_def if_True if_False, simp)
qed

interpretation btl: peer_links connected_peers bt_send_to_peer bt_send bt_send_queue bt_inv
proof unfold_locales
  fix s p m
  assume inv: "bt_inv s"
  show "fst (bt_send_to_peer p m s) = Inr () \<longleftrightarrow> p \<in> pl_peer_id ` set (connected_peers s)"
    using ble_link_ids[OF inv] by (cases "bt_status s = Available") (auto simp: bt_send_to_peer_def hm_contains_iff connected_peers_def)
  show "fst (bt_send m s) = Inr () \<longleftrightarrow> msg_recipient m \<in> pl_peer_id ` set (connected_peers s)"
    using ble_link_ids[OF inv] by (cases "bt_status s = Available") (auto simp: bt_send_def Let_def hm_contains_iff connected_peers_def)
  show "connected_peers (snd (bt_send_to_peer p m s)) = connected_peers s"
    by (simp add: bt_send_to_peer_def connected_peers_def)
  show "bt_inv (snd (bt_send_to_peer p m s))"
    using bt_step_inv[OF inv, of no_deps "\<lambda>_. []" "BtSendTo p m"] by simp
qed (auto simp: bt_send_to_peer_def enqueue_send_mset split: if_splits)

subsection \<open>Properties\<close>

text \<open>C25. The links a transport lists are exactly the peers it takes messages for.  On the Bluetooth and on
  the peer-stream transport, offering a message to any peers is accepted for the listed ones and
  queues it once for each of these, sending to a recipient succeeds exactly when it is listed, and a
  stopped transport lists nobody.\<close>

theorem links_are_what_sends_accept:
  assumes "reachable (bt_step W idstr) (\<lambda>_ _. True) (bt_new i) b"
  shows "fst (fan_out bt_send_to_peer m ps b) = filter (\<lambda>p. p \<in> pl_peer_id ` set (connected_peers b)) ps
    \<and> mset (bt_send_queue (snd (fan_out bt_send_to_peer m ps b))) =
        mset (bt_send_queue b) + mset (map (\<lambda>p. (p, m)) (filter (\<lambda>p. p \<in> pl_peer_id ` set (connected_peers b)) ps))
    \<and> (fst (bt_send m b) = Inr () \<longleftrightarrow> msg_recipient m \<in> pl_peer_id ` set (connected_peers b))
    \<and> connected_peers (bt_stop b) = []
    \<and> fst (fan_out wd_send_to_peer m ps w) = filter (\<lambda>p. p \<in> pl_peer_id ` set (wd_connected_peers w)) ps
    \<and> mset (wd_send_queue (snd (fan_out wd_send_to_peer m ps w))) =
        mset (wd_send_queue w) + mset (map (\<lambda>p. (p, m)) (filter (\<lambda>p. p \<in> pl_peer_id ` set (wd_connected_peers w)) ps))
    \<and> (fst (wd_send m w) = Inr () \<longleftrightarrow> msg_recipient m \<in> pl_peer_id ` set (wd_connected_peers w))
    \<and> wd_connected_peers (wd_stop w) = []"
proof -
  have inv: "bt_inv b" by (rule btm.reachable_inv[OF assms bt_inv_new])
  have "connected_peers (bt_stop b) = []" "wd_connected_peers (wd_stop w) = []"
    by (simp_all add: connected_peers_def bt_stop_def drain_session_def wd_connected_peers_def wd_stop_def wd_drain_def)
  then show ?thesis
    using btl.fan_out_reaches[OF inv, of m ps] btl.send_accepts[OF inv, of m] wdl.fan_out_reaches[OF TrueI, of m ps w]
      wdl.send_accepts[OF TrueI, of m w] by blast
qed

theorem links_are_what_sends_accept_witness:
  "fst (fan_out bt_send_to_peer example_message [''bob'', ''eve''] (example_link ''bob'')) = [''bob'']"
proof -
  have "reachable (bt_step no_deps (\<lambda>_. [])) (\<lambda>_ _. True) (bt_new ''me'') (example_link ''bob'')"
    using reach_step[OF reach_step[OF reach_init], of "\<lambda>_ _. True" BtStart "bt_new ''me''"
        "BtDiscovered \<lparr>pd_device_id = ''bob'', pd_address = ''00'', pd_rssi = -60, pd_last_seen = 0, pd_connected = True\<rparr>"
        "bt_step no_deps (\<lambda>_. [])"] by (simp add: example_link_def)
  moreover have "filter (\<lambda>p. p \<in> pl_peer_id ` set (connected_peers (example_link ''bob''))) [''bob'', ''eve''] = [''bob'']"
    by code_simp
  ultimately show ?thesis
    using links_are_what_sends_accept[of no_deps "\<lambda>_. []" "''me''" "example_link ''bob''" example_message "[''bob'', ''eve'']"]
    by simp
qed

end
