(* ===== verification/Relay_Transports.thy ===== *)
theory Relay_Transports
  imports Transport_Interface
begin

text \<open>
  The queue engines with a confirmation loop: the internet relay
  (\<open>offline-protocol-transport/src/internet.rs\<close>) and Reticulum (\<open>reticulum.rs\<close>).  The platform takes a
  message with its id and reports the outcome for the id; outcomes that never come are counted as
  failures when they time out or the connection goes.  \<open>None\<close> is a panic: the \<open>u32\<close> counters
  saturate one by one but their sum is not checked.
\<close>

definition sat_add32 :: "nat \<Rightarrow> nat \<Rightarrow> nat" where
  "sat_add32 a b = min (a + b) (2 ^ 32 - 1)"

text \<open>\<open>expired_count += 1\<close> once per removed entry, in a \<open>u32\<close>.\<close>

definition count_u32 :: "nat \<Rightarrow> nat option" where
  "count_u32 n = (if n < 2 ^ 32 then Some n else None)"

definition record_failures :: "nat \<Rightarrow> transport_metrics \<Rightarrow> transport_metrics option" where
  "record_failures n m = recalculate_delivery_ratios (m\<lparr>tm_failure_count := sat_add32 (tm_failure_count m) n\<rparr>)"

definition record_success :: "transport_metrics \<Rightarrow> transport_metrics option" where
  "record_success m = recalculate_delivery_ratios (m\<lparr>tm_success_count := sat_add32 (tm_success_count m) 1\<rparr>)"

subsection \<open>Internet\<close>

abbreviation INTERNET_PENDING_CONFIRMATION_TIMEOUT_SECS :: nat where
  "INTERNET_PENDING_CONFIRMATION_TIMEOUT_SECS \<equiv> 15"

record internet_transport =
  it_device_id :: string
  it_server_address :: string
  it_status :: transport_status
  it_receive_queue :: "message list"
  it_send_queue :: "message list"
  it_pending_confirmation :: "(string, instant) hashmap"
  it_metrics :: transport_metrics

definition it_with_config :: "string \<Rightarrow> string \<Rightarrow> internet_transport" where
  "it_with_config device_id server_address = \<lparr>it_device_id = device_id, it_server_address = server_address,
     it_status = Unavailable, it_receive_queue = [], it_send_queue = [], it_pending_confirmation = [],
     it_metrics = transport_metrics_default\<rparr>"

definition it_record_bulk_failures :: "nat \<Rightarrow> internet_transport \<Rightarrow> internet_transport option" where
  "it_record_bulk_failures n t = map_option (\<lambda>m. t\<lparr>it_metrics := m\<rparr>) (record_failures n (it_metrics t))"

definition it_drain_expired_pending :: "instant \<Rightarrow> internet_transport \<Rightarrow> internet_transport option" where
  "it_drain_expired_pending now t =
     (let kept = hm_retain (\<lambda>_ enqueued_at. \<not> INTERNET_PENDING_CONFIRMATION_TIMEOUT_SECS * 1000000000 \<le> now - enqueued_at)
            (it_pending_confirmation t);
          t' = t\<lparr>it_pending_confirmation := kept\<rparr>
      in case count_u32 (length (it_pending_confirmation t) - length kept) of
           None \<Rightarrow> None
         | Some expired_count \<Rightarrow> if 0 < expired_count then it_record_bulk_failures expired_count t' else Some t')"

definition it_fail_all_pending :: "internet_transport \<Rightarrow> internet_transport option" where
  "it_fail_all_pending t =
     (let n = min (length (it_pending_confirmation t)) (2 ^ 32 - 1);
          t' = t\<lparr>it_pending_confirmation := []\<rparr>
      in if 0 < n then it_record_bulk_failures n t' else Some t')"

definition it_update_metrics :: "transport_metrics \<Rightarrow> internet_transport \<Rightarrow> internet_transport" where
  "it_update_metrics incoming t = t\<lparr>it_metrics := incoming\<lparr>
     tm_success_count := tm_success_count (it_metrics t), tm_failure_count := tm_failure_count (it_metrics t),
     tm_delivery_ratio := tm_delivery_ratio (it_metrics t), tm_drop_rate := tm_drop_rate (it_metrics t)\<rparr>\<rparr>"

definition it_send :: "message \<Rightarrow> internet_transport \<Rightarrow> (unit + unit) \<times> internet_transport" where
  "it_send m t =
     (if it_status t \<noteq> Available then (Inl (), t)
      else let queue = it_send_queue t @ [m] in
        (Inr (), t\<lparr>it_send_queue := queue, it_metrics := (it_metrics t)\<lparr>tm_queue_depth := length queue,
           tm_congestion := clamp01 (f32 (f32 (of_nat (length queue)) / 25))\<rparr>\<rparr>))"

definition it_on_message_received :: "message \<Rightarrow> internet_transport \<Rightarrow> internet_transport" where
  "it_on_message_received m t = t\<lparr>it_receive_queue := it_receive_queue t @ [m]\<rparr>"

definition it_on_message_received_from :: "message \<Rightarrow> string \<Rightarrow> internet_transport \<Rightarrow> internet_transport" where
  "it_on_message_received_from m peer_id t =
     t\<lparr>it_receive_queue := on_message_received_from m peer_id (it_receive_queue t)\<rparr>"

definition it_receive :: "internet_transport \<Rightarrow> message option \<times> internet_transport" where
  "it_receive t = (case it_receive_queue t of
       [] \<Rightarrow> (None, t)
     | m # rest \<Rightarrow> (Some m, t\<lparr>it_receive_queue := rest\<rparr>))"

definition it_stop :: "internet_transport \<Rightarrow> internet_transport option" where
  "it_stop t = map_option (\<lambda>t'. t'\<lparr>it_status := Disconnected\<rparr>) (it_fail_all_pending t)"

definition it_on_status_changed :: "transport_status \<Rightarrow> internet_transport \<Rightarrow> internet_transport option" where
  "it_on_status_changed status t =
     (let t' = t\<lparr>it_status := status\<rparr> in
      if status = Available then Some t'
      else if it_status t = Available \<and> status \<noteq> Available then it_fail_all_pending t' else Some t')"

definition it_on_data_received ::
  "wire_deps \<Rightarrow> bytes \<Rightarrow> internet_transport \<Rightarrow> (transport_error + unit) \<times> internet_transport" where
  "it_on_data_received W data t = (case on_data_received W data (it_receive_queue t) of
       (r, queue) \<Rightarrow> (r, t\<lparr>it_receive_queue := queue\<rparr>))"

definition it_on_data_received_from ::
  "wire_deps \<Rightarrow> bytes \<Rightarrow> string \<Rightarrow> internet_transport \<Rightarrow> (transport_error + unit) \<times> internet_transport" where
  "it_on_data_received_from W data peer_id t = (case on_data_received_from W data peer_id (it_receive_queue t) of
       (r, queue) \<Rightarrow> (r, t\<lparr>it_receive_queue := queue\<rparr>))"

definition it_get_next_message ::
  "wire_deps \<Rightarrow> (message_id \<Rightarrow> string) \<Rightarrow> instant \<Rightarrow> instant \<Rightarrow> internet_transport \<Rightarrow>
     ((transport_error + (string \<times> bytes) option) \<times> internet_transport) option" where
  "it_get_next_message W idstr now now' t = (case it_drain_expired_pending now t of
       None \<Rightarrow> None
     | Some t1 \<Rightarrow> (case it_send_queue t1 of
           [] \<Rightarrow> Some (Inr None, t1)
         | m # rest \<Rightarrow>
             let t2 = t1\<lparr>it_send_queue := rest\<rparr>; message_id = idstr (msg_id m) in
             (case serialize_message W m of
                Inl e \<Rightarrow> Some (Inl e, t2)
              | Inr data \<Rightarrow> Some (Inr (Some (message_id, data)),
                  t2\<lparr>it_pending_confirmation := hm_insert message_id now' (it_pending_confirmation t2),
                     it_metrics := (it_metrics t2)\<lparr>tm_queue_depth := length rest\<rparr>\<rparr>))))"

definition it_confirm_sent :: "string \<Rightarrow> internet_transport \<Rightarrow> internet_transport option" where
  "it_confirm_sent message_id t =
     (let t' = t\<lparr>it_pending_confirmation := hm_remove message_id (it_pending_confirmation t)\<rparr> in
      if hm_contains message_id (it_pending_confirmation t)
      then map_option (\<lambda>m. t'\<lparr>it_metrics := m\<rparr>) (record_success (it_metrics t)) else Some t')"

definition it_report_send_failure :: "string \<Rightarrow> internet_transport \<Rightarrow> internet_transport option" where
  "it_report_send_failure message_id t =
     (let t' = t\<lparr>it_pending_confirmation := hm_remove message_id (it_pending_confirmation t)\<rparr> in
      if hm_contains message_id (it_pending_confirmation t)
      then map_option (\<lambda>m. t'\<lparr>it_metrics := m\<rparr>) (record_failures 1 (it_metrics t)) else Some t')"

subsection \<open>Reticulum\<close>

abbreviation RETICULUM_PENDING_CONFIRMATION_TIMEOUT_SECS :: nat where
  "RETICULUM_PENDING_CONFIRMATION_TIMEOUT_SECS \<equiv> 120"

record reticulum_transport =
  rt_device_id :: string
  rt_status :: transport_status
  rt_receive_queue :: "message list"
  rt_send_queue :: "message list"
  rt_pending_confirmation :: "(string, instant) hashmap"
  rt_metrics :: transport_metrics

definition rt_new :: "string \<Rightarrow> reticulum_transport" where
  "rt_new device_id = \<lparr>rt_device_id = device_id, rt_status = Unavailable, rt_receive_queue = [],
     rt_send_queue = [], rt_pending_confirmation = [], rt_metrics = transport_metrics_default\<rparr>"

definition rt_update_metrics :: "transport_metrics \<Rightarrow> reticulum_transport \<Rightarrow> reticulum_transport option" where
  "rt_update_metrics incoming t = map_option (\<lambda>m. t\<lparr>rt_metrics := m\<rparr>) (recalculate_delivery_ratios
     (incoming\<lparr>tm_success_count := tm_success_count (rt_metrics t), tm_failure_count := tm_failure_count (rt_metrics t)\<rparr>))"

definition rt_fail_all_pending :: "reticulum_transport \<Rightarrow> reticulum_transport option" where
  "rt_fail_all_pending t =
     (let pending = length (rt_pending_confirmation t);
          t' = t\<lparr>rt_pending_confirmation := []\<rparr>
      in if 0 < pending
         then map_option (\<lambda>m. t'\<lparr>rt_metrics := m\<rparr>) (record_failures (pending mod 2 ^ 32) (rt_metrics t)) else Some t')"

definition rt_drain_expired_pending :: "instant \<Rightarrow> reticulum_transport \<Rightarrow> reticulum_transport option" where
  "rt_drain_expired_pending now t =
     (let kept = hm_retain (\<lambda>_ enqueued_at. \<not> RETICULUM_PENDING_CONFIRMATION_TIMEOUT_SECS * 1000000000 < now - enqueued_at)
            (rt_pending_confirmation t);
          t' = t\<lparr>rt_pending_confirmation := kept\<rparr>
      in case count_u32 (length (rt_pending_confirmation t) - length kept) of
           None \<Rightarrow> None
         | Some expired_count \<Rightarrow>
             if 0 < expired_count
             then map_option (\<lambda>m. t'\<lparr>rt_metrics := m\<rparr>) (record_failures expired_count (rt_metrics t)) else Some t')"

definition rt_send :: "message \<Rightarrow> reticulum_transport \<Rightarrow> (transport_status + unit) \<times> reticulum_transport" where
  "rt_send m t =
     (if rt_status t \<noteq> Available then (Inl (rt_status t), t)
      else let queue = rt_send_queue t @ [m] in
        (Inr (), t\<lparr>rt_send_queue := queue, rt_metrics := (rt_metrics t)\<lparr>tm_queue_depth := length queue,
           tm_congestion := clamp01 (f32 (f32 (of_nat (length queue)) / 50))\<rparr>\<rparr>))"

definition rt_on_message_received :: "message \<Rightarrow> reticulum_transport \<Rightarrow> reticulum_transport" where
  "rt_on_message_received m t = t\<lparr>rt_receive_queue := rt_receive_queue t @ [m]\<rparr>"

definition rt_on_message_received_from :: "message \<Rightarrow> string \<Rightarrow> reticulum_transport \<Rightarrow> reticulum_transport" where
  "rt_on_message_received_from m peer_id t =
     t\<lparr>rt_receive_queue := on_message_received_from m peer_id (rt_receive_queue t)\<rparr>"

definition rt_receive :: "reticulum_transport \<Rightarrow> message option \<times> reticulum_transport" where
  "rt_receive t = (case rt_receive_queue t of
       [] \<Rightarrow> (None, t)
     | m # rest \<Rightarrow> (Some m, t\<lparr>rt_receive_queue := rest\<rparr>))"

definition rt_stop :: "reticulum_transport \<Rightarrow> reticulum_transport option" where
  "rt_stop t = map_option (\<lambda>t'. t'\<lparr>rt_send_queue := [], rt_receive_queue := []\<rparr>)
     (rt_fail_all_pending (t\<lparr>rt_status := Disconnected\<rparr>))"

definition rt_on_status_changed :: "transport_status \<Rightarrow> reticulum_transport \<Rightarrow> reticulum_transport option" where
  "rt_on_status_changed status t =
     (let t' = t\<lparr>rt_status := status\<rparr> in
      if status = Available then Some t'
      else if rt_status t = Available \<and> status \<noteq> Available then rt_fail_all_pending t' else Some t')"

definition rt_get_next_message ::
  "wire_deps \<Rightarrow> (message_id \<Rightarrow> string) \<Rightarrow> instant \<Rightarrow> instant \<Rightarrow> reticulum_transport \<Rightarrow>
     ((transport_error + (string \<times> bytes) option) \<times> reticulum_transport) option" where
  "rt_get_next_message W idstr now now' t = (case rt_drain_expired_pending now t of
       None \<Rightarrow> None
     | Some t1 \<Rightarrow> (case rt_send_queue t1 of
           [] \<Rightarrow> Some (Inr None, t1)
         | m # rest \<Rightarrow>
             let t2 = t1\<lparr>rt_send_queue := rest\<rparr>; message_id = idstr (msg_id m) in
             (case serialize_message_with W m of
                Inl e \<Rightarrow> Some (Inl e, t2)
              | Inr data \<Rightarrow> Some (Inr (Some (message_id, data)),
                  t2\<lparr>rt_pending_confirmation := hm_insert message_id now' (rt_pending_confirmation t2)\<rparr>))))"

definition rt_confirm_sent :: "string \<Rightarrow> reticulum_transport \<Rightarrow> reticulum_transport option" where
  "rt_confirm_sent message_id t =
     (let t' = t\<lparr>rt_pending_confirmation := hm_remove message_id (rt_pending_confirmation t)\<rparr> in
      if hm_contains message_id (rt_pending_confirmation t)
      then map_option (\<lambda>m. t'\<lparr>rt_metrics := m\<rparr>) (record_success (rt_metrics t)) else Some t')"

definition rt_report_send_failure :: "string \<Rightarrow> reticulum_transport \<Rightarrow> reticulum_transport option" where
  "rt_report_send_failure message_id t =
     (let t' = t\<lparr>rt_pending_confirmation := hm_remove message_id (rt_pending_confirmation t)\<rparr> in
      if hm_contains message_id (rt_pending_confirmation t)
      then map_option (\<lambda>m. t'\<lparr>rt_metrics := m\<rparr>) (record_failures 1 (rt_metrics t)) else Some t')"

definition rt_on_data_received_from ::
  "wire_deps \<Rightarrow> bytes \<Rightarrow> string \<Rightarrow> reticulum_transport \<Rightarrow> (transport_error + unit) \<times> reticulum_transport" where
  "rt_on_data_received_from W data peer_id t = (case on_data_received_from W data peer_id (rt_receive_queue t) of
       (r, queue) \<Rightarrow> (r, t\<lparr>rt_receive_queue := queue\<rparr>))"

definition rt_on_data_received ::
  "wire_deps \<Rightarrow> bytes \<Rightarrow> reticulum_transport \<Rightarrow> (transport_error + unit) \<times> reticulum_transport" where
  "rt_on_data_received W data t = (case on_data_received W data (rt_receive_queue t) of
       (r, queue) \<Rightarrow> (r, t\<lparr>rt_receive_queue := queue\<rparr>))"

subsection \<open>Both as machines\<close>

text \<open>The operations that touch the confirmation loop, with the number of messages handed out.\<close>

datatype loop_op =
    LSend message
  | LNext instant instant
  | LConfirm string
  | LFail string
  | LStatus transport_status
  | LStop
  | LMetrics transport_metrics

definition handed :: "((transport_error + (string \<times> bytes) option) \<times> 's) option \<Rightarrow> (nat \<times> 's) option" where
  "handed r = map_option (\<lambda>(out, s). (case out of Inr (Some _) \<Rightarrow> 1 | _ \<Rightarrow> 0, s)) r"

fun it_step :: "wire_deps \<Rightarrow> (message_id \<Rightarrow> string) \<Rightarrow> loop_op \<Rightarrow> internet_transport \<Rightarrow> (nat \<times> internet_transport) option" where
  "it_step W idstr (LSend m) t = Some (0, snd (it_send m t))"
| "it_step W idstr (LNext now now') t = handed (it_get_next_message W idstr now now' t)"
| "it_step W idstr (LConfirm i) t = map_option (Pair 0) (it_confirm_sent i t)"
| "it_step W idstr (LFail i) t = map_option (Pair 0) (it_report_send_failure i t)"
| "it_step W idstr (LStatus s) t = map_option (Pair 0) (it_on_status_changed s t)"
| "it_step W idstr LStop t = map_option (Pair 0) (it_stop t)"
| "it_step W idstr (LMetrics m) t = Some (0, it_update_metrics m t)"

fun rt_step :: "wire_deps \<Rightarrow> (message_id \<Rightarrow> string) \<Rightarrow> loop_op \<Rightarrow> reticulum_transport \<Rightarrow> (nat \<times> reticulum_transport) option" where
  "rt_step W idstr (LSend m) t = Some (0, snd (rt_send m t))"
| "rt_step W idstr (LNext now now') t = handed (rt_get_next_message W idstr now now' t)"
| "rt_step W idstr (LConfirm i) t = map_option (Pair 0) (rt_confirm_sent i t)"
| "rt_step W idstr (LFail i) t = map_option (Pair 0) (rt_report_send_failure i t)"
| "rt_step W idstr (LStatus s) t = map_option (Pair 0) (rt_on_status_changed s t)"
| "rt_step W idstr LStop t = map_option (Pair 0) (rt_stop t)"
| "rt_step W idstr (LMetrics m) t = map_option (Pair 0) (rt_update_metrics m t)"

text \<open>A message is not handed out again while its outcome is open.\<close>

definition next_is_fresh :: "(message_id \<Rightarrow> string) \<Rightarrow> message list \<Rightarrow> (string, instant) hashmap \<Rightarrow> bool" where
  "next_is_fresh idstr queue pending = (case queue of [] \<Rightarrow> True | m # _ \<Rightarrow> \<not> hm_contains (idstr (msg_id m)) pending)"

definition it_ok :: "(message_id \<Rightarrow> string) \<Rightarrow> loop_op \<Rightarrow> internet_transport \<Rightarrow> bool" where
  "it_ok idstr op t = (case op of LNext _ _ \<Rightarrow> next_is_fresh idstr (it_send_queue t) (it_pending_confirmation t) | _ \<Rightarrow> True)"

definition rt_ok :: "(message_id \<Rightarrow> string) \<Rightarrow> loop_op \<Rightarrow> reticulum_transport \<Rightarrow> bool" where
  "rt_ok idstr op t = (case op of LNext _ _ \<Rightarrow> next_is_fresh idstr (rt_send_queue t) (rt_pending_confirmation t) | _ \<Rightarrow> True)"

definition outcomes :: "transport_metrics \<Rightarrow> nat" where
  "outcomes m = tm_success_count m + tm_failure_count m"

definition it_account :: "internet_transport \<Rightarrow> nat" where
  "it_account t = outcomes (it_metrics t) + length (it_pending_confirmation t)"

definition rt_account :: "reticulum_transport \<Rightarrow> nat" where
  "rt_account t = outcomes (rt_metrics t) + length (rt_pending_confirmation t)"

subsection \<open>Lemmas\<close>

lemma outcomes_other [simp]: "outcomes (m\<lparr>tm_queue_depth := d\<rparr>) = outcomes m" "outcomes (m\<lparr>tm_congestion := c\<rparr>) = outcomes m"
  by (simp_all add: outcomes_def)

lemma recalculate_runs:
  assumes "outcomes m < 2 ^ 32"
  obtains m' where "recalculate_delivery_ratios m = Some m'" "outcomes m' = outcomes m"
  using assms by (auto simp: recalculate_delivery_ratios_def sample_count_def outcomes_def Let_def split: if_splits)

lemma record_runs:
  assumes "outcomes m + n < 2 ^ 32"
  obtains m' where "record_failures n m = Some m'" "outcomes m' = outcomes m + n"
proof -
  have "outcomes (m\<lparr>tm_failure_count := sat_add32 (tm_failure_count m) n\<rparr>) = outcomes m + n"
    using assms by (simp add: outcomes_def sat_add32_def)
  then show ?thesis using recalculate_runs assms that unfolding record_failures_def by metis
qed

lemma record_success_runs:
  assumes "outcomes m + 1 < 2 ^ 32"
  obtains m' where "record_success m = Some m'" "outcomes m' = outcomes m + 1"
proof -
  have "outcomes (m\<lparr>tm_success_count := sat_add32 (tm_success_count m) 1\<rparr>) = outcomes m + 1"
    using assms by (simp add: outcomes_def sat_add32_def)
  then show ?thesis using recalculate_runs assms that unfolding record_success_def by metis
qed

lemma hm_remove_len_contains: "hm_inv m \<Longrightarrow> hm_contains k m \<Longrightarrow> length (hm_remove k m) + 1 = length m"
  using hm.len_del[of m k] hm.len_pos[of m k] by (auto simp: hm_contains_def)

lemma hm_remove_absent: "\<not> hm_contains k m \<Longrightarrow> hm_remove k m = m"
  by (auto simp: hm_contains_def hm_remove_def filter_id_conv map_of_eq_None_iff intro: rev_image_eqI)

lemma hm_insert_len_fresh: "\<not> hm_contains k m \<Longrightarrow> length (hm_insert k v m) = length m + 1"
  by (simp add: hm_contains_def map_of_eq_None_iff hm_insert_fresh)

lemma hm_retain_fresh: "\<not> hm_contains k m \<Longrightarrow> \<not> hm_contains k (hm_retain P m)"
  by (auto simp: hm_contains_def hm_retain_def map_of_eq_None_iff)

lemma it_drain_ok:
  assumes "hm_inv (it_pending_confirmation t)" "it_account t < 2 ^ 32"
  shows "\<exists>t'. it_drain_expired_pending now t = Some t' \<and> it_account t' = it_account t \<and>
    it_send_queue t' = it_send_queue t \<and> hm_inv (it_pending_confirmation t') \<and>
    (\<forall>k. \<not> hm_contains k (it_pending_confirmation t) \<longrightarrow> \<not> hm_contains k (it_pending_confirmation t'))"
proof -
  let ?P = "it_pending_confirmation t"
  define kept where "kept = hm_retain (\<lambda>_ enqueued_at. \<not> INTERNET_PENDING_CONFIRMATION_TIMEOUT_SECS * 1000000000 \<le> now - enqueued_at) ?P"
  have len: "length kept \<le> length ?P" by (simp add: kept_def hm_retain_len)
  have kept: "hm_inv kept" "\<forall>k. \<not> hm_contains k ?P \<longrightarrow> \<not> hm_contains k kept"
    using assms(1) by (simp_all add: kept_def hm_retain_fresh)
  have "outcomes (it_metrics t) + (length ?P - length kept) < 2 ^ 32" using assms(2) unfolding it_account_def by linarith
  then obtain m where m: "record_failures (length ?P - length kept) (it_metrics t) = Some m"
      "outcomes m = outcomes (it_metrics t) + (length ?P - length kept)" by (rule record_runs)
  have u: "count_u32 (length ?P - length kept) = Some (length ?P - length kept)"
    using assms(2) by (simp add: count_u32_def it_account_def)
  show ?thesis
    unfolding it_drain_expired_pending_def Let_def kept_def[symmetric] u option.case
    using m kept len by (simp add: it_record_bulk_failures_def it_account_def)
qed

lemma it_fail_all_ok:
  assumes "it_account t < 2 ^ 32"
  shows "\<exists>t'. it_fail_all_pending t = Some t' \<and> it_account t' = it_account t \<and> it_pending_confirmation t' = []"
proof -
  let ?n = "length (it_pending_confirmation t)"
  have n: "min ?n (2 ^ 32 - 1) = ?n" using assms by (simp add: it_account_def)
  obtain m where "record_failures ?n (it_metrics t) = Some m" "outcomes m = outcomes (it_metrics t) + ?n"
    by (rule record_runs[OF assms[unfolded it_account_def]])
  then show ?thesis unfolding it_fail_all_pending_def Let_def n
    by (simp add: it_record_bulk_failures_def it_account_def)
qed

lemma it_resolve_ok:
  assumes "hm_inv (it_pending_confirmation t)" "it_account t < 2 ^ 32"
  shows "\<exists>t'. it_confirm_sent i t = Some t' \<and> it_account t' = it_account t \<and> hm_inv (it_pending_confirmation t')"
    "\<exists>t'. it_report_send_failure i t = Some t' \<and> it_account t' = it_account t \<and> hm_inv (it_pending_confirmation t')"
proof -
  have small: "outcomes (it_metrics t) + 1 < 2 ^ 32" if "hm_contains i (it_pending_confirmation t)"
  proof -
    have "0 < length (it_pending_confirmation t)" using that by (auto simp: hm_contains_def)
    then show ?thesis using assms(2) unfolding it_account_def by linarith
  qed
  show "\<exists>t'. it_confirm_sent i t = Some t' \<and> it_account t' = it_account t \<and> hm_inv (it_pending_confirmation t')"
    using assms(1) hm_remove_len_contains[OF assms(1), of i] record_success_runs[OF small]
    by (cases "hm_contains i (it_pending_confirmation t)")
       (fastforce simp: it_confirm_sent_def Let_def it_account_def hm_remove_absent)+
  show "\<exists>t'. it_report_send_failure i t = Some t' \<and> it_account t' = it_account t \<and> hm_inv (it_pending_confirmation t')"
    using assms(1) hm_remove_len_contains[OF assms(1), of i] record_runs[OF small]
    by (cases "hm_contains i (it_pending_confirmation t)")
       (fastforce simp: it_report_send_failure_def Let_def it_account_def hm_remove_absent)+
qed

lemma it_next_ok:
  assumes "hm_inv (it_pending_confirmation t)" "it_account t < 2 ^ 32"
    "next_is_fresh idstr (it_send_queue t) (it_pending_confirmation t)"
  shows "\<exists>n t'. handed (it_get_next_message W idstr now now' t) = Some (n, t') \<and> n \<le> 1 \<and>
    it_account t' = it_account t + n \<and> hm_inv (it_pending_confirmation t')"
proof -
  obtain t1 where t1: "it_drain_expired_pending now t = Some t1" "it_account t1 = it_account t"
      "it_send_queue t1 = it_send_queue t" "hm_inv (it_pending_confirmation t1)"
      and fresh: "\<And>k. \<not> hm_contains k (it_pending_confirmation t) \<Longrightarrow> \<not> hm_contains k (it_pending_confirmation t1)"
    using it_drain_ok[OF assms(1,2), of now] by blast
  show ?thesis
  proof (cases "it_send_queue t1")
    case (Cons m rest)
    then have "\<not> hm_contains (idstr (msg_id m)) (it_pending_confirmation t1)"
      using fresh assms(3) t1(3) by (simp add: next_is_fresh_def)
    then show ?thesis using t1(1,2,4) Cons
      by (cases "serialize_message W m")
         (simp_all add: it_get_next_message_def handed_def Let_def it_account_def hm_insert_len_fresh)
  qed (use t1 in \<open>simp add: it_get_next_message_def handed_def\<close>)
qed

interpretation itl: confirmation_loop "it_step W idstr" "it_ok idstr" it_account "\<lambda>t. hm_inv (it_pending_confirmation t)"
  for W idstr
proof unfold_locales
  fix t op
  assume t: "hm_inv (it_pending_confirmation t)" "it_account t < 2 ^ 32" and ok: "it_ok idstr op t"
  show "\<exists>n s'. it_step W idstr op t = Some (n, s') \<and> n \<le> 1 \<and> it_account s' = it_account t + n \<and> hm_inv (it_pending_confirmation s')"
  proof (cases op)
    case (LNext now now')
    then show ?thesis using it_next_ok[OF t, of idstr W now now'] ok by (simp add: it_ok_def)
  next
    case (LConfirm i)
    then show ?thesis using it_resolve_ok(1)[OF t, of i] by auto
  next
    case (LFail i)
    then show ?thesis using it_resolve_ok(2)[OF t, of i] by auto
  next
    case (LStatus s)
    then show ?thesis using it_fail_all_ok[of "t\<lparr>it_status := s\<rparr>"] t
      by (auto simp: it_on_status_changed_def Let_def it_account_def hm_inv_def)
  next
    case LStop
    then show ?thesis using it_fail_all_ok[OF t(2)] by (auto simp: it_stop_def it_account_def hm_inv_def)
  qed (use t in \<open>simp_all add: it_send_def it_update_metrics_def it_account_def outcomes_def Let_def\<close>)
qed

lemma rt_drain_ok:
  assumes "hm_inv (rt_pending_confirmation t)" "rt_account t < 2 ^ 32"
  shows "\<exists>t'. rt_drain_expired_pending now t = Some t' \<and> rt_account t' = rt_account t \<and>
    rt_send_queue t' = rt_send_queue t \<and> hm_inv (rt_pending_confirmation t') \<and>
    (\<forall>k. \<not> hm_contains k (rt_pending_confirmation t) \<longrightarrow> \<not> hm_contains k (rt_pending_confirmation t'))"
proof -
  let ?P = "rt_pending_confirmation t"
  define kept where "kept = hm_retain (\<lambda>_ enqueued_at. \<not> RETICULUM_PENDING_CONFIRMATION_TIMEOUT_SECS * 1000000000 < now - enqueued_at) ?P"
  have len: "length kept \<le> length ?P" by (simp add: kept_def hm_retain_len)
  have kept: "hm_inv kept" "\<forall>k. \<not> hm_contains k ?P \<longrightarrow> \<not> hm_contains k kept"
    using assms(1) by (simp_all add: kept_def hm_retain_fresh)
  have "outcomes (rt_metrics t) + (length ?P - length kept) < 2 ^ 32" using assms(2) unfolding rt_account_def by linarith
  then obtain m where m: "record_failures (length ?P - length kept) (rt_metrics t) = Some m"
      "outcomes m = outcomes (rt_metrics t) + (length ?P - length kept)" by (rule record_runs)
  have u: "count_u32 (length ?P - length kept) = Some (length ?P - length kept)"
    using assms(2) by (simp add: count_u32_def rt_account_def)
  show ?thesis
    unfolding rt_drain_expired_pending_def Let_def kept_def[symmetric] u option.case
    using m kept len by (simp add: rt_account_def)
qed

lemma rt_fail_all_ok:
  assumes "rt_account t < 2 ^ 32"
  shows "\<exists>t'. rt_fail_all_pending t = Some t' \<and> rt_account t' = rt_account t \<and> rt_pending_confirmation t' = []"
proof -
  let ?n = "length (rt_pending_confirmation t)"
  have n: "?n mod 2 ^ 32 = ?n" using assms by (simp add: rt_account_def)
  obtain m where "record_failures ?n (rt_metrics t) = Some m" "outcomes m = outcomes (rt_metrics t) + ?n"
    by (rule record_runs[OF assms[unfolded rt_account_def]])
  then show ?thesis unfolding rt_fail_all_pending_def Let_def n
    by (simp add: rt_account_def)
qed

lemma rt_resolve_ok:
  assumes "hm_inv (rt_pending_confirmation t)" "rt_account t < 2 ^ 32"
  shows "\<exists>t'. rt_confirm_sent i t = Some t' \<and> rt_account t' = rt_account t \<and> hm_inv (rt_pending_confirmation t')"
    "\<exists>t'. rt_report_send_failure i t = Some t' \<and> rt_account t' = rt_account t \<and> hm_inv (rt_pending_confirmation t')"
proof -
  have small: "outcomes (rt_metrics t) + 1 < 2 ^ 32" if "hm_contains i (rt_pending_confirmation t)"
  proof -
    have "0 < length (rt_pending_confirmation t)" using that by (auto simp: hm_contains_def)
    then show ?thesis using assms(2) unfolding rt_account_def by linarith
  qed
  show "\<exists>t'. rt_confirm_sent i t = Some t' \<and> rt_account t' = rt_account t \<and> hm_inv (rt_pending_confirmation t')"
    using assms(1) hm_remove_len_contains[OF assms(1), of i] record_success_runs[OF small]
    by (cases "hm_contains i (rt_pending_confirmation t)")
       (fastforce simp: rt_confirm_sent_def Let_def rt_account_def hm_remove_absent)+
  show "\<exists>t'. rt_report_send_failure i t = Some t' \<and> rt_account t' = rt_account t \<and> hm_inv (rt_pending_confirmation t')"
    using assms(1) hm_remove_len_contains[OF assms(1), of i] record_runs[OF small]
    by (cases "hm_contains i (rt_pending_confirmation t)")
       (fastforce simp: rt_report_send_failure_def Let_def rt_account_def hm_remove_absent)+
qed

lemma rt_next_ok:
  assumes "hm_inv (rt_pending_confirmation t)" "rt_account t < 2 ^ 32"
    "next_is_fresh idstr (rt_send_queue t) (rt_pending_confirmation t)"
  shows "\<exists>n t'. handed (rt_get_next_message W idstr now now' t) = Some (n, t') \<and> n \<le> 1 \<and>
    rt_account t' = rt_account t + n \<and> hm_inv (rt_pending_confirmation t')"
proof -
  obtain t1 where t1: "rt_drain_expired_pending now t = Some t1" "rt_account t1 = rt_account t"
      "rt_send_queue t1 = rt_send_queue t" "hm_inv (rt_pending_confirmation t1)"
      and fresh: "\<And>k. \<not> hm_contains k (rt_pending_confirmation t) \<Longrightarrow> \<not> hm_contains k (rt_pending_confirmation t1)"
    using rt_drain_ok[OF assms(1,2), of now] by blast
  show ?thesis
  proof (cases "rt_send_queue t1")
    case (Cons m rest)
    then have "\<not> hm_contains (idstr (msg_id m)) (rt_pending_confirmation t1)"
      using fresh assms(3) t1(3) by (simp add: next_is_fresh_def)
    then show ?thesis using t1(1,2,4) Cons
      by (cases "serialize_message_with W m")
         (simp_all add: rt_get_next_message_def handed_def Let_def rt_account_def hm_insert_len_fresh)
  qed (use t1 in \<open>simp add: rt_get_next_message_def handed_def\<close>)
qed

interpretation rtl: confirmation_loop "rt_step W idstr" "rt_ok idstr" rt_account "\<lambda>t. hm_inv (rt_pending_confirmation t)"
  for W idstr
proof unfold_locales
  fix t op
  assume t: "hm_inv (rt_pending_confirmation t)" "rt_account t < 2 ^ 32" and ok: "rt_ok idstr op t"
  show "\<exists>n s'. rt_step W idstr op t = Some (n, s') \<and> n \<le> 1 \<and> rt_account s' = rt_account t + n \<and> hm_inv (rt_pending_confirmation s')"
  proof (cases op)
    case (LNext now now')
    then show ?thesis using rt_next_ok[OF t, of idstr W now now'] ok by (simp add: rt_ok_def)
  next
    case (LConfirm i)
    then show ?thesis using rt_resolve_ok(1)[OF t, of i] by auto
  next
    case (LFail i)
    then show ?thesis using rt_resolve_ok(2)[OF t, of i] by auto
  next
    case (LStatus s)
    then show ?thesis using rt_fail_all_ok[of "t\<lparr>rt_status := s\<rparr>"] t
      by (auto simp: rt_on_status_changed_def Let_def rt_account_def hm_inv_def)
  next
    case (LMetrics m)
    let ?m = "m\<lparr>tm_success_count := tm_success_count (rt_metrics t), tm_failure_count := tm_failure_count (rt_metrics t)\<rparr>"
    have "outcomes ?m = outcomes (rt_metrics t)" by (simp add: outcomes_def)
    then have "outcomes ?m < 2 ^ 32" using t(2) unfolding rt_account_def by linarith
    then obtain m' where "recalculate_delivery_ratios ?m = Some m'" "outcomes m' = outcomes ?m" by (rule recalculate_runs)
    then show ?thesis using LMetrics t by (simp add: rt_update_metrics_def rt_account_def outcomes_def)
  next
    case LStop
    then show ?thesis using rt_fail_all_ok[of "t\<lparr>rt_status := Disconnected\<rparr>"] t
      by (auto simp: rt_stop_def rt_account_def hm_inv_def)
  qed (use t in \<open>simp_all add: rt_send_def rt_account_def outcomes_def Let_def\<close>)
qed

subsection \<open>Properties\<close>


definition loop_example :: "loop_op list" where
  "loop_example = [LStatus Available, LSend (example_message\<lparr>msg_wire_codec := WcBinaryV1\<rparr>), LNext 0 0, LConfirm ''m'', LStop]"


end
