(* ===== verification/Mesh_Relay.thy ===== *)
theory Mesh_Relay
  imports "HOL-Library.Product_Lexorder" Relay_Seen Core_Types Transport_Types
begin

text \<open>
  The governor of mesh forwarding (\<open>offline-protocol/src/protocol/mesh_relay.rs\<close>): which third-party
  frames a device takes on, when they leave, to which neighbors, and how fast.

  Every \<open>Instant::now()\<close> is an argument, in the order the code reads the clock.  \<open>hash\<close> is
  \<open>DefaultHasher\<close> over the parts, whose algorithm Rust leaves open, and \<open>idstr\<close> renders a message
  id.  Token buckets are computed in \<open>f32\<close> arithmetic.  The delays of \<open>jitter_for\<close> are natural numbers:
  the configuration check keeps jitter and handicap below five seconds.
\<close>

subsection \<open>Configuration and state\<close>

abbreviation RELAY_MAX_HOP_COUNT :: u8 where "RELAY_MAX_HOP_COUNT \<equiv> 16"
abbreviation RELAY_OWN_TRAFFIC_RESERVE :: rat where "RELAY_OWN_TRAFFIC_RESERVE \<equiv> 5"
abbreviation MAX_RELAY_RATE_PEERS :: nat where "MAX_RELAY_RATE_PEERS \<equiv> 256"
abbreviation RELAY_QUEUE_MAX_OVERDUE :: duration where "RELAY_QUEUE_MAX_OVERDUE \<equiv> 5000000000"
abbreviation CUSTODY_META_KEY :: string where "CUSTODY_META_KEY \<equiv> ''__custody''"

record mesh_relay_config =
  mc_max_ttl :: u8
  mc_dense_max_ttl :: u8
  mc_dense_degree :: nat
  mc_fanout :: nat
  mc_jitter_min :: duration
  mc_jitter_max :: duration
  mc_rate_per_sec :: rat
  mc_burst :: rat
  mc_peer_rate_per_sec :: rat
  mc_peer_burst :: rat
  mc_queue_capacity :: nat
  mc_seen :: relay_seen_config
  mc_bias_min_scale :: rat
  mc_bias_max_handicap :: duration
  mc_activity_window :: duration
  mc_activity_min_forwards :: nat
  mc_activity_idle_windows :: nat

definition mesh_relay_config_default :: mesh_relay_config where
  "mesh_relay_config_default = \<lparr>
     mc_max_ttl = 8, mc_dense_max_ttl = 5, mc_dense_degree = 6, mc_fanout = 3,
     mc_jitter_min = millis 20, mc_jitter_max = millis 200, mc_rate_per_sec = 10, mc_burst = 30,
     mc_peer_rate_per_sec = 5, mc_peer_burst = 15, mc_queue_capacity = 256,
     mc_seen = relay_seen_config_default, mc_bias_min_scale = 1 / 4, mc_bias_max_handicap = millis 400,
     mc_activity_window = secs 60, mc_activity_min_forwards = 3, mc_activity_idle_windows = 2\<rparr>"

record relay_conditions =
  rc_battery :: "nat option"
  rc_is_charging :: bool
  rc_eager :: bool
  rc_soft_floor :: nat

datatype relay_activity = Began nat | Ceased

datatype relay_rejection = AlreadySeen | NarrowedByDuplicate | HopLimitReached | PeerRateLimited | QueueFull

datatype relay_admission = Queued | Rejected relay_rejection

record pending_relay =
  pr_message :: message
  pr_arrival_peer :: "string option"
  pr_heard_from :: "string list"
  pr_due_at :: instant
  pr_custody_request :: "string option"
  pr_custody_target :: "string option"

record mesh_relay_counters =
  mrc_queued :: nat
  mrc_transmissions :: nat
  mrc_forwarded :: nat
  mrc_requeued :: nat
  mrc_queue_evicted :: nat
  mrc_duplicates_suppressed :: nat
  mrc_cancelled_by_duplicate :: nat
  mrc_peer_rate_limited :: nat
  mrc_queue_full :: nat
  mrc_hop_limit_reached :: nat
  mrc_rate_deferred :: nat
  mrc_abandoned_overdue :: nat
  mrc_ttl_clamped :: nat

record token_bucket =
  tb_tokens :: rat
  tb_capacity :: rat
  tb_refill_per_sec :: rat
  tb_last_refill :: instant

record mesh_relay_governor =
  mg_config :: mesh_relay_config
  mg_seen :: relay_seen_cache
  mg_pending :: "pending_relay list"
  mg_send_budget :: token_bucket
  mg_forward_budget :: token_bucket
  mg_own_reserve :: rat
  mg_peer_budgets :: "(string, token_bucket) hashmap"
  mg_counters :: mesh_relay_counters
  mg_local_id :: string
  mg_conditions :: relay_conditions
  mg_active_relay :: bool
  mg_window_started_at :: instant
  mg_window_forwards :: nat
  mg_idle_windows :: nat

subsection \<open>Token buckets\<close>

definition tb_new :: "rat \<Rightarrow> rat \<Rightarrow> instant \<Rightarrow> token_bucket" where
  "tb_new capacity refill_per_sec now = \<lparr>tb_tokens = max capacity 0, tb_capacity = max capacity 0,
     tb_refill_per_sec = max refill_per_sec 0, tb_last_refill = now\<rparr>"

definition tb_refill :: "instant \<Rightarrow> token_bucket \<Rightarrow> token_bucket" where
  "tb_refill now b = (let elapsed = as_secs_f32 (now - tb_last_refill b) in
     if 0 < elapsed
     then b\<lparr>tb_tokens := min (f32 (tb_tokens b + f32 (elapsed * tb_refill_per_sec b))) (tb_capacity b),
            tb_last_refill := now\<rparr>
     else b)"

definition tb_resize :: "rat \<Rightarrow> rat \<Rightarrow> instant \<Rightarrow> token_bucket \<Rightarrow> token_bucket" where
  "tb_resize capacity refill_per_sec now b0 = (let b = tb_refill now b0; cap = max capacity 0 in
     b\<lparr>tb_capacity := cap, tb_refill_per_sec := max refill_per_sec 0, tb_tokens := min (tb_tokens b) cap\<rparr>)"

definition try_take_above :: "rat \<Rightarrow> instant \<Rightarrow> token_bucket \<Rightarrow> bool \<times> token_bucket" where
  "try_take_above flr now b0 = (let b = tb_refill now b0 in
     if f32 (1 + flr) \<le> tb_tokens b then (True, b\<lparr>tb_tokens := f32 (tb_tokens b - 1)\<rparr>) else (False, b))"

definition has_above :: "rat \<Rightarrow> instant \<Rightarrow> token_bucket \<Rightarrow> bool \<times> token_bucket" where
  "has_above flr now b0 = (let b = tb_refill now b0 in (f32 (1 + flr) \<le> tb_tokens b, b))"

definition tb_spend :: "token_bucket \<Rightarrow> token_bucket" where
  "tb_spend b = b\<lparr>tb_tokens := max (f32 (tb_tokens b - 1)) 0\<rparr>"

subsection \<open>The governor\<close>

definition counters_zero :: mesh_relay_counters where
  "counters_zero = \<lparr>mrc_queued = 0, mrc_transmissions = 0, mrc_forwarded = 0, mrc_requeued = 0, mrc_queue_evicted = 0,
     mrc_duplicates_suppressed = 0, mrc_cancelled_by_duplicate = 0, mrc_peer_rate_limited = 0, mrc_queue_full = 0,
     mrc_hop_limit_reached = 0, mrc_rate_deferred = 0, mrc_abandoned_overdue = 0, mrc_ttl_clamped = 0\<rparr>"

definition mg_with_config :: "instant \<Rightarrow> string \<Rightarrow> mesh_relay_config \<Rightarrow> mesh_relay_governor" where
  "mg_with_config now local_id config = \<lparr>
     mg_config = config, mg_seen = rs_with_config (mc_seen config), mg_pending = [],
     mg_send_budget = tb_new (mc_burst config) (mc_rate_per_sec config) now,
     mg_forward_budget = tb_new (mc_burst config) (mc_rate_per_sec config) now,
     mg_own_reserve = min RELAY_OWN_TRAFFIC_RESERVE (f32 (max (mc_burst config) 0 / 2)),
     mg_peer_budgets = [], mg_counters = counters_zero, mg_local_id = local_id,
     mg_conditions = \<lparr>rc_battery = None, rc_is_charging = False, rc_eager = False, rc_soft_floor = 0\<rparr>,
     mg_active_relay = False, mg_window_started_at = now, mg_window_forwards = 0, mg_idle_windows = 0\<rparr>"

definition set_local_id :: "string \<Rightarrow> mesh_relay_governor \<Rightarrow> mesh_relay_governor" where
  "set_local_id local_id g = g\<lparr>mg_local_id := local_id\<rparr>"

definition bias_scale :: "mesh_relay_governor \<Rightarrow> rat" where
  "bias_scale g = (let min_scale = clamp01 (mc_bias_min_scale (mg_config g)); c = mg_conditions g in
     if rc_is_charging c \<or> rc_eager c then 1
     else case rc_battery c of
            None \<Rightarrow> 1
          | Some level \<Rightarrow>
              let flr = min (rc_soft_floor c) 100 in
              if 100 \<le> level then 1
              else if level \<le> flr then min_scale
              else let headroom = f32 (f32 (of_nat (level - flr)) / f32 (of_nat (max (100 - flr) 1)))
                   in f32 (min_scale + f32 (headroom * f32 (1 - min_scale))))"

definition set_conditions ::
  "instant \<Rightarrow> nat option \<Rightarrow> bool \<Rightarrow> bool \<Rightarrow> nat \<Rightarrow> mesh_relay_governor \<Rightarrow> mesh_relay_governor" where
  "set_conditions now battery is_charging eager soft_floor g0 =
     (let g = g0\<lparr>mg_conditions := \<lparr>rc_battery = battery, rc_is_charging = is_charging, rc_eager = eager,
                   rc_soft_floor = soft_floor\<rparr>\<rparr>;
          scale = bias_scale g
      in g\<lparr>mg_forward_budget := tb_resize (f32 (mc_burst (mg_config g) * scale))
             (f32 (mc_rate_per_sec (mg_config g) * scale)) now (mg_forward_budget g)\<rparr>)"

definition observe_activity :: "instant \<Rightarrow> mesh_relay_governor \<Rightarrow> relay_activity option \<times> mesh_relay_governor" where
  "observe_activity now g =
     (if now - mg_window_started_at g < mc_activity_window (mg_config g) then (None, g)
      else let forwarded = mg_window_forwards g;
               g1 = g\<lparr>mg_window_forwards := 0, mg_window_started_at := now\<rparr>
           in if max (mc_activity_min_forwards (mg_config g)) 1 \<le> forwarded
              then let g2 = g1\<lparr>mg_idle_windows := 0\<rparr> in
                   if \<not> mg_active_relay g then (Some (Began forwarded), g2\<lparr>mg_active_relay := True\<rparr>) else (None, g2)
              else if \<not> mg_active_relay g then (None, g1)
              else let idle = min (mg_idle_windows g + 1) (2 ^ 32 - 1); g2 = g1\<lparr>mg_idle_windows := idle\<rparr> in
                   if max (mc_activity_idle_windows (mg_config g)) 1 \<le> idle
                   then (Some Ceased, g2\<lparr>mg_active_relay := False\<rparr>) else (None, g2))"

definition force_inactive :: "mesh_relay_governor \<Rightarrow> bool \<times> mesh_relay_governor" where
  "force_inactive g = (mg_active_relay g, g\<lparr>mg_window_forwards := 0, mg_idle_windows := 0, mg_active_relay := False\<rparr>)"

subsection \<open>Admission\<close>

fun relay_priority_rank :: "message_priority \<Rightarrow> nat" where
  "relay_priority_rank Low = 0"
| "relay_priority_rank Medium = 1"
| "relay_priority_rank High = 2"
| "relay_priority_rank Critical = 3"

text \<open>\<open>Iterator::max_by\<close>, which keeps the last of several greatest elements.\<close>

fun max_on :: "('a \<Rightarrow> 'k::linorder) \<Rightarrow> 'a list \<Rightarrow> 'a option" where
  "max_on key [] = None"
| "max_on key (x # xs) = (case max_on key xs of
       None \<Rightarrow> Some x
     | Some y \<Rightarrow> if key y < key x then Some x else Some y)"

definition peer_table_room :: "instant \<Rightarrow> (string, token_bucket) hashmap \<Rightarrow> (string, token_bucket) hashmap" where
  "peer_table_room now budgets =
     (if MAX_RELAY_RATE_PEERS \<le> length budgets
      then let refilled = map (\<lambda>(k, b). (k, tb_refill now b)) budgets in
           (case max_on (\<lambda>(_, b). tb_tokens b) refilled of
              Some (peer, _) \<Rightarrow> hm_remove peer refilled
            | None \<Rightarrow> refilled)
      else budgets)"

definition take_peer_token :: "string \<Rightarrow> instant \<Rightarrow> mesh_relay_governor \<Rightarrow> bool \<times> mesh_relay_governor" where
  "take_peer_token peer_id now g =
     (let budgets = (if \<not> hm_contains peer_id (mg_peer_budgets g)
            then hm_insert peer_id (tb_new (mc_peer_burst (mg_config g)) (mc_peer_rate_per_sec (mg_config g)) now)
                   (peer_table_room now (mg_peer_budgets g))
            else mg_peer_budgets g)
      in case map_of budgets peer_id of
           Some bucket \<Rightarrow> (case try_take_above 0 now bucket of
               (ok, bucket') \<Rightarrow> (ok, g\<lparr>mg_peer_budgets := hm_insert peer_id bucket' budgets\<rparr>))
         | None \<Rightarrow> (True, g\<lparr>mg_peer_budgets := budgets\<rparr>))"

definition hop_ceiling :: "mesh_relay_config \<Rightarrow> nat \<Rightarrow> u8" where
  "hop_ceiling c degree = (if mc_dense_degree c \<le> degree then mc_dense_max_ttl c else mc_max_ttl c)"

definition prepare_hop :: "message \<Rightarrow> nat \<Rightarrow> mesh_relay_governor \<Rightarrow> message option \<times> mesh_relay_governor" where
  "prepare_hop m degree g =
     (if RELAY_MAX_HOP_COUNT \<le> msg_hop_count m then (None, g)
      else let claimed = msg_ttl m; effective = min claimed (hop_ceiling (mg_config g) degree);
               g' = (if effective < claimed
                     then g\<lparr>mg_counters := (mg_counters g)\<lparr>mrc_ttl_clamped := sat_add64 (mrc_ttl_clamped (mg_counters g)) 1\<rparr>\<rparr>
                     else g)
           in case TTL_decrement effective of
                None \<Rightarrow> (None, g')
              | Some remaining \<Rightarrow>
                  let forwarded = m\<lparr>msg_ttl := remaining\<rparr>;
                      hopped = (case increment_hop forwarded of Inr m' \<Rightarrow> m' | Inl _ \<Rightarrow> forwarded)
                  in (Some (hopped\<lparr>msg_metadata := hm_remove CUSTODY_META_KEY (msg_metadata hopped)\<rparr>), g'))"

definition victim_index :: "nat \<Rightarrow> instant \<Rightarrow> pending_relay list \<Rightarrow> nat option" where
  "victim_index candidate_rank now pending =
     (let rank = (\<lambda>p. relay_priority_rank (msg_priority (pr_message p)));
          indexed = enumerate 0 pending
      in case min_on (\<lambda>(_, p). rank p) (filter (\<lambda>(_, p). rank p < candidate_rank \<and> now < pr_due_at p) indexed) of
           Some (i, _) \<Rightarrow> Some i
         | None \<Rightarrow> map_option fst (min_on (\<lambda>(_, p). rank p) (filter (\<lambda>(_, p). rank p < candidate_rank) indexed)))"

definition mr_evict_for ::
  "(message_id \<Rightarrow> string) \<Rightarrow> message \<Rightarrow> instant \<Rightarrow> mesh_relay_governor \<Rightarrow> bool \<times> mesh_relay_governor" where
  "mr_evict_for idstr candidate now g =
     (case victim_index (relay_priority_rank (msg_priority candidate)) now (mg_pending g) of
        Some index \<Rightarrow>
          (True, g\<lparr>mg_pending := take index (mg_pending g) @ drop (Suc index) (mg_pending g),
                   mg_seen := rs_forget (idstr (msg_id (pr_message (mg_pending g ! index)))) (mg_seen g),
                   mg_counters := (mg_counters g)\<lparr>mrc_queue_evicted := sat_add64 (mrc_queue_evicted (mg_counters g)) 1\<rparr>\<rparr>)
      | None \<Rightarrow> (False, g))"

definition jitter_for :: "(string list \<Rightarrow> nat) \<Rightarrow> string \<Rightarrow> nat \<Rightarrow> mesh_relay_governor \<Rightarrow> duration" where
  "jitter_for hash message_id degree g =
     (let c = mg_config g; min_ms = mc_jitter_min c div 1000000 mod 2 ^ 64;
          max_ms = max (mc_jitter_max c div 1000000 mod 2 ^ 64) min_ms;
          density_scale = 1 + degree div max (mc_dense_degree c) 1;
          span = max (min ((max_ms - min_ms) * density_scale) u64_max) 1;
          handicap_ms = as_uint 64 (f32 (clamp01 (f32 (1 - bias_scale g)) * f32 (of_nat (mc_bias_max_handicap c div 1000000))))
      in millis (min_ms + handicap_ms + hash [message_id, mg_local_id g] mod span))"

definition is_origin_resend ::
  "(message_id \<Rightarrow> string) \<Rightarrow> message \<Rightarrow> string option \<Rightarrow> mesh_relay_governor \<Rightarrow> bool" where
  "is_origin_resend idstr m arrival_peer g =
     (arrival_peer = Some (msg_sender m) \<and> msg_hop_count m = 0 \<and>
      \<not> list_ex (\<lambda>p. idstr (msg_id (pr_message p)) = idstr (msg_id m)) (mg_pending g))"

definition narrow :: "string option \<Rightarrow> pending_relay \<Rightarrow> pending_relay" where
  "narrow arrival_peer p = (case arrival_peer of
       Some peer \<Rightarrow> if pr_arrival_peer p \<noteq> Some peer \<and> peer \<notin> set (pr_heard_from p)
                   then p\<lparr>pr_heard_from := pr_heard_from p @ [peer]\<rparr> else p
     | None \<Rightarrow> p)"

fun update_first :: "('a \<Rightarrow> bool) \<Rightarrow> ('a \<Rightarrow> 'a) \<Rightarrow> 'a list \<Rightarrow> 'a list option" where
  "update_first P f [] = None"
| "update_first P f (x # xs) = (if P x then Some (f x # xs) else map_option ((#) x) (update_first P f xs))"

definition count_duplicate :: "mesh_relay_governor \<Rightarrow> mesh_relay_governor" where
  "count_duplicate g = g\<lparr>mg_counters := (mg_counters g)\<lparr>mrc_duplicates_suppressed :=
     sat_add64 (mrc_duplicates_suppressed (mg_counters g)) 1\<rparr>\<rparr>"

text \<open>The forward \<open>admit\<close> queues, and the part of \<open>admit\<close> behind the suppression check.\<close>

definition new_relay ::
  "(string list \<Rightarrow> nat) \<Rightarrow> (message_id \<Rightarrow> string) \<Rightarrow> instant \<Rightarrow> message \<Rightarrow> message \<Rightarrow> string option \<Rightarrow> nat \<Rightarrow>
     mesh_relay_governor \<Rightarrow> pending_relay" where
  "new_relay hash idstr now m forwarded arrival_peer degree g =
     \<lparr>pr_message = forwarded, pr_arrival_peer = arrival_peer, pr_heard_from = [],
      pr_due_at = now + jitter_for hash (idstr (msg_id m)) degree g,
      pr_custody_request = map_of (msg_metadata m) CUSTODY_META_KEY, pr_custody_target = None\<rparr>"

definition queue_room ::
  "(message_id \<Rightarrow> string) \<Rightarrow> message \<Rightarrow> instant \<Rightarrow> mesh_relay_governor \<Rightarrow> bool \<times> mesh_relay_governor" where
  "queue_room idstr m now g =
     (if mc_queue_capacity (mg_config g) \<le> length (mg_pending g) then mr_evict_for idstr m now g else (True, g))"

definition admit_enqueue ::
  "(string list \<Rightarrow> nat) \<Rightarrow> (message_id \<Rightarrow> string) \<Rightarrow> instant \<Rightarrow> instant \<Rightarrow> instant \<Rightarrow> bool \<Rightarrow>
     message \<Rightarrow> message \<Rightarrow> string option \<Rightarrow> nat \<Rightarrow> mesh_relay_governor \<Rightarrow> relay_admission \<times> mesh_relay_governor" where
  "admit_enqueue hash idstr now o1 o2 origin_resend m forwarded arrival_peer degree g =
     (case queue_room idstr forwarded now g of
        (False, g1) \<Rightarrow> (Rejected QueueFull, g1\<lparr>mg_counters := (mg_counters g1)\<lparr>mrc_queue_full :=
            sat_add64 (mrc_queue_full (mg_counters g1)) 1\<rparr>\<rparr>)
      | (True, g1) \<Rightarrow>
          let seen = (if origin_resend then rs_forget (idstr (msg_id m)) (mg_seen g1) else mg_seen g1);
              g2 = g1\<lparr>mg_seen := snd (rs_observe o1 o2 (idstr (msg_id m)) seen)\<rparr>
          in (Queued, g2\<lparr>mg_pending := mg_pending g2 @ [new_relay hash idstr now m forwarded arrival_peer degree g2],
                mg_counters := (mg_counters g2)\<lparr>mrc_queued := sat_add64 (mrc_queued (mg_counters g2)) 1\<rparr>\<rparr>))"

definition admit_hop ::
  "(string list \<Rightarrow> nat) \<Rightarrow> (message_id \<Rightarrow> string) \<Rightarrow> instant \<Rightarrow> instant \<Rightarrow> instant \<Rightarrow> bool \<Rightarrow>
     message \<Rightarrow> string option \<Rightarrow> nat \<Rightarrow> mesh_relay_governor \<Rightarrow> relay_admission \<times> mesh_relay_governor" where
  "admit_hop hash idstr now o1 o2 origin_resend m arrival_peer degree g =
     (case prepare_hop m degree g of
        (None, g1) \<Rightarrow> (Rejected HopLimitReached, g1\<lparr>mg_counters := (mg_counters g1)\<lparr>mrc_hop_limit_reached :=
            sat_add64 (mrc_hop_limit_reached (mg_counters g1)) 1\<rparr>\<rparr>)
      | (Some forwarded, g1) \<Rightarrow> admit_enqueue hash idstr now o1 o2 origin_resend m forwarded arrival_peer degree g1)"

definition arrival_token :: "string option \<Rightarrow> instant \<Rightarrow> mesh_relay_governor \<Rightarrow> bool \<times> mesh_relay_governor" where
  "arrival_token arrival_peer now g = (case arrival_peer of Some peer \<Rightarrow> take_peer_token peer now g | None \<Rightarrow> (True, g))"

definition admit_new ::
  "(string list \<Rightarrow> nat) \<Rightarrow> (message_id \<Rightarrow> string) \<Rightarrow> instant \<Rightarrow> instant \<Rightarrow> instant \<Rightarrow> bool \<Rightarrow>
     message \<Rightarrow> string option \<Rightarrow> nat \<Rightarrow> mesh_relay_governor \<Rightarrow> relay_admission \<times> mesh_relay_governor" where
  "admit_new hash idstr now o1 o2 origin_resend m arrival_peer degree g =
     (case arrival_token arrival_peer now g of
        (False, g1) \<Rightarrow> (Rejected PeerRateLimited, g1\<lparr>mg_counters := (mg_counters g1)\<lparr>mrc_peer_rate_limited :=
            sat_add64 (mrc_peer_rate_limited (mg_counters g1)) 1\<rparr>\<rparr>)
      | (True, g1) \<Rightarrow> admit_hop hash idstr now o1 o2 origin_resend m arrival_peer degree g1)"

definition admit ::
  "(string list \<Rightarrow> nat) \<Rightarrow> (message_id \<Rightarrow> string) \<Rightarrow> instant \<Rightarrow> instant \<Rightarrow> instant \<Rightarrow> instant \<Rightarrow>
     message \<Rightarrow> string option \<Rightarrow> nat \<Rightarrow> mesh_relay_governor \<Rightarrow> relay_admission \<times> mesh_relay_governor" where
  "admit hash idstr now c1 o1 o2 m arrival_peer degree g =
     (let message_id = idstr (msg_id m);
          suppressed = rs_contains c1 message_id (mg_seen g);
          origin_resend = (suppressed \<and> is_origin_resend idstr m arrival_peer g)
      in if suppressed \<and> \<not> origin_resend
         then let g1 = count_duplicate g in
              (case update_first (\<lambda>p. idstr (msg_id (pr_message p)) = message_id) (narrow arrival_peer) (mg_pending g1) of
                 Some pending \<Rightarrow> (Rejected NarrowedByDuplicate, g1\<lparr>mg_pending := pending\<rparr>)
               | None \<Rightarrow> (Rejected AlreadySeen, g1))
         else admit_new hash idstr now o1 o2 origin_resend m arrival_peer degree g)"

definition admit_held ::
  "(message_id \<Rightarrow> string) \<Rightarrow> message \<Rightarrow> string \<Rightarrow> instant \<Rightarrow> mesh_relay_governor \<Rightarrow> (relay_rejection + unit) \<times> mesh_relay_governor" where
  "admit_held idstr m target now g = (case take_peer_token target now g of
       (False, g1) \<Rightarrow> (Inl PeerRateLimited, g1)
     | (True, g1) \<Rightarrow>
         (case queue_room idstr m now g1 of
            (False, g2) \<Rightarrow> (Inl QueueFull, g2)
          | (True, g2) \<Rightarrow> (Inr (), g2\<lparr>mg_pending := mg_pending g2 @ [\<lparr>pr_message = m, pr_arrival_peer = None,
              pr_heard_from = [], pr_due_at = now, pr_custody_request = None, pr_custody_target = Some target\<rparr>]\<rparr>)))"

definition absorb_settled_duplicate ::
  "(message_id \<Rightarrow> string) \<Rightarrow> instant \<Rightarrow> message \<Rightarrow> string option \<Rightarrow> mesh_relay_governor \<Rightarrow> bool \<times> mesh_relay_governor" where
  "absorb_settled_duplicate idstr c1 m arrival_peer g =
     (let message_id = idstr (msg_id m) in
      if \<not> rs_contains c1 message_id (mg_seen g) \<or> is_origin_resend idstr m arrival_peer g then (False, g)
      else if list_ex (\<lambda>p. idstr (msg_id (pr_message p)) = message_id) (mg_pending g) then (False, g)
      else (True, count_duplicate g))"

subsection \<open>Release and pacing\<close>

definition has_send_budget :: "instant \<Rightarrow> mesh_relay_governor \<Rightarrow> bool \<times> mesh_relay_governor" where
  "has_send_budget now g = (case has_above (mg_own_reserve g) now (mg_send_budget g) of
       (False, b) \<Rightarrow> (False, g\<lparr>mg_send_budget := b\<rparr>)
     | (True, b) \<Rightarrow> (case has_above 0 now (mg_forward_budget g) of
           (ok, fb) \<Rightarrow> (ok, g\<lparr>mg_send_budget := b, mg_forward_budget := fb\<rparr>)))"

definition count_deferred :: "mesh_relay_governor \<Rightarrow> mesh_relay_governor" where
  "count_deferred g = g\<lparr>mg_counters := (mg_counters g)\<lparr>mrc_rate_deferred := sat_add64 (mrc_rate_deferred (mg_counters g)) 1\<rparr>\<rparr>"

definition count_transmission :: "mesh_relay_governor \<Rightarrow> mesh_relay_governor" where
  "count_transmission g = g\<lparr>mg_counters := (mg_counters g)\<lparr>mrc_transmissions := sat_add64 (mrc_transmissions (mg_counters g)) 1\<rparr>\<rparr>"

fun release_loop ::
  "(message_id \<Rightarrow> string) \<Rightarrow> instant \<Rightarrow> pending_relay list \<Rightarrow> mesh_relay_governor \<Rightarrow>
     pending_relay list \<times> pending_relay list \<times> pending_relay list \<times> mesh_relay_governor" where
  "release_loop idstr now [] g = ([], [], [], g)"
| "release_loop idstr now (relay # rest) g =
     (if now < pr_due_at relay
      then (case release_loop idstr now rest g of (due, abandoned, keep, g') \<Rightarrow> (due, abandoned, relay # keep, g'))
      else if RELAY_QUEUE_MAX_OVERDUE < now - pr_due_at relay
      then (let g1 = (if pr_custody_target relay = None
                      then g\<lparr>mg_seen := rs_forget (idstr (msg_id (pr_message relay))) (mg_seen g),
                             mg_counters := (mg_counters g)\<lparr>mrc_abandoned_overdue := sat_add64 (mrc_abandoned_overdue (mg_counters g)) 1\<rparr>\<rparr>
                      else g)
            in case release_loop idstr now rest g1 of (due, abandoned, keep, g') \<Rightarrow> (due, relay # abandoned, keep, g'))
      else (case has_send_budget now g of
              (True, g1) \<Rightarrow> (case release_loop idstr now rest g1 of (due, abandoned, keep, g') \<Rightarrow> (relay # due, abandoned, keep, g'))
            | (False, g1) \<Rightarrow> (case release_loop idstr now rest (count_deferred g1) of
                (due, abandoned, keep, g') \<Rightarrow> (due, abandoned, relay # keep, g'))))"

definition release_due ::
  "(message_id \<Rightarrow> string) \<Rightarrow> instant \<Rightarrow> mesh_relay_governor \<Rightarrow>
     (pending_relay list \<times> pending_relay list) \<times> mesh_relay_governor" where
  "release_due idstr now g =
     (case release_loop idstr now (mg_pending g) (g\<lparr>mg_seen := rs_expire now (mg_seen g), mg_pending := []\<rparr>) of
        (due, abandoned, keep, g') \<Rightarrow> ((due, abandoned), g'\<lparr>mg_pending := keep\<rparr>))"

definition take_send_token :: "instant \<Rightarrow> mesh_relay_governor \<Rightarrow> bool \<times> mesh_relay_governor" where
  "take_send_token now g = (case has_send_budget now g of
       (False, g1) \<Rightarrow> (False, count_deferred g1)
     | (True, g1) \<Rightarrow> (True, count_transmission (g1\<lparr>mg_send_budget := tb_spend (mg_send_budget g1),
         mg_forward_budget := tb_spend (mg_forward_budget g1)\<rparr>)))"

definition claim_transmission :: "rat \<Rightarrow> instant \<Rightarrow> mesh_relay_governor \<Rightarrow> bool \<times> mesh_relay_governor" where
  "claim_transmission flr now g = (case try_take_above flr now (mg_send_budget g) of
       (True, b) \<Rightarrow> (True, count_transmission (g\<lparr>mg_send_budget := b\<rparr>))
     | (False, b) \<Rightarrow> (False, count_deferred (g\<lparr>mg_send_budget := b\<rparr>)))"

definition take_own_send_token :: "instant \<Rightarrow> mesh_relay_governor \<Rightarrow> bool \<times> mesh_relay_governor" where
  "take_own_send_token now g = claim_transmission 0 now g"

definition record_forwarded :: "mesh_relay_governor \<Rightarrow> mesh_relay_governor" where
  "record_forwarded g = g\<lparr>mg_counters := (mg_counters g)\<lparr>mrc_forwarded := sat_add64 (mrc_forwarded (mg_counters g)) 1\<rparr>,
     mg_window_forwards := sat_add64 (mg_window_forwards g) 1\<rparr>"

definition requeue :: "(message_id \<Rightarrow> string) \<Rightarrow> pending_relay \<Rightarrow> mesh_relay_governor \<Rightarrow> pending_relay option \<times> mesh_relay_governor" where
  "requeue idstr relay g =
     (if mc_queue_capacity (mg_config g) \<le> length (mg_pending g)
      then (if pr_custody_target relay \<noteq> None then (Some relay, g)
            else (None, g\<lparr>mg_seen := rs_forget (idstr (msg_id (pr_message relay))) (mg_seen g),
                    mg_counters := (mg_counters g)\<lparr>mrc_queue_full := sat_add64 (mrc_queue_full (mg_counters g)) 1\<rparr>\<rparr>))
      else (None, g\<lparr>mg_counters := (mg_counters g)\<lparr>mrc_requeued := sat_add64 (mrc_requeued (mg_counters g)) 1\<rparr>,
                    mg_pending := mg_pending g @ [relay]\<rparr>))"

definition drop_covered :: "pending_relay \<Rightarrow> mesh_relay_governor \<Rightarrow> mesh_relay_governor" where
  "drop_covered relay g = g\<lparr>mg_counters := (mg_counters g)\<lparr>mrc_cancelled_by_duplicate :=
     sat_add64 (mrc_cancelled_by_duplicate (mg_counters g)) 1\<rparr>\<rparr>"

definition drop_held :: "mesh_relay_governor \<Rightarrow> mesh_relay_governor" where
  "drop_held g = g\<lparr>mg_pending := filter (\<lambda>relay. pr_custody_target relay = None) (mg_pending g)\<rparr>"

definition mark_handled :: "instant \<Rightarrow> instant \<Rightarrow> string \<Rightarrow> mesh_relay_governor \<Rightarrow> mesh_relay_governor" where
  "mark_handled o1 o2 message_id g = g\<lparr>mg_seen := snd (rs_observe o1 o2 message_id (mg_seen g))\<rparr>"

definition forget_peer :: "string \<Rightarrow> mesh_relay_governor \<Rightarrow> mesh_relay_governor" where
  "forget_peer peer_id g = g\<lparr>mg_peer_budgets := hm_remove peer_id (mg_peer_budgets g)\<rparr>"

definition maintain :: "instant \<Rightarrow> mesh_relay_governor \<Rightarrow> mesh_relay_governor" where
  "maintain now g = g\<lparr>mg_seen := rs_expire now (mg_seen g)\<rparr>"

subsection \<open>Target selection\<close>

type_synonym neighbor = "string \<times> nat \<times> transport_type"

fun split_leaders :: "transport_type list \<Rightarrow> neighbor list \<Rightarrow> neighbor list \<times> neighbor list" where
  "split_leaders carriers [] = ([], [])"
| "split_leaders carriers ((p, q, t) # ns) =
     (if t \<in> set carriers
      then (case split_leaders carriers ns of (leaders, rest) \<Rightarrow> (leaders, (p, q, t) # rest))
      else (case split_leaders (t # carriers) ns of (leaders, rest) \<Rightarrow> ((p, q, t) # leaders, rest)))"

definition select_within_fanout ::
  "(string list \<Rightarrow> nat) \<Rightarrow> neighbor list \<Rightarrow> string list \<Rightarrow> string \<Rightarrow> nat \<Rightarrow> mesh_relay_governor \<Rightarrow> string list" where
  "select_within_fanout hash neighbors exclude message_id fanout g =
     (let candidates = filter (\<lambda>(peer, _, _). peer \<notin> set exclude) neighbors in
      if length candidates \<le> fanout then map fst candidates
      else (case split_leaders [] (sort_key (\<lambda>(peer, quality, _). (- int quality, hash [message_id, peer, mg_local_id g])) candidates) of
              (leaders, rest) \<Rightarrow> map fst (take fanout (leaders @ rest))))"

definition biased_fanout :: "mesh_relay_governor \<Rightarrow> nat" where
  "biased_fanout g = max (as_uint 64 (of_int (round_away (f32 (f32 (of_nat (mc_fanout (mg_config g))) * bias_scale g))))) 1"

definition select_targets ::
  "(string list \<Rightarrow> nat) \<Rightarrow> neighbor list \<Rightarrow> string list \<Rightarrow> string \<Rightarrow> mesh_relay_governor \<Rightarrow> string list" where
  "select_targets hash neighbors exclude message_id g =
     select_within_fanout hash neighbors exclude message_id (biased_fanout g) g"

definition select_origination_targets ::
  "(string list \<Rightarrow> nat) \<Rightarrow> neighbor list \<Rightarrow> string list \<Rightarrow> string \<Rightarrow> mesh_relay_governor \<Rightarrow> string list" where
  "select_origination_targets hash neighbors exclude message_id g =
     select_within_fanout hash neighbors exclude message_id (max (mc_fanout (mg_config g)) 1) g"

subsection \<open>The mesh section of the configuration check\<close>

text \<open>Each refusal of \<open>ProtocolConfig::validate\<close> that concerns the governor, in the order of the code; the
  payloads are the figures its message shows.\<close>

datatype mesh_config_error =
    FanoutZero | MaxTtlZero | DenseMaxTtlZero | QueueCapacityZero | NotPositive string | BiasMinScaleRange
  | JitterInverted nat nat | DelayReachesCutoff nat nat
  | ActivityWindowZero | ActivityMinForwardsZero | ActivityIdleWindowsZero

definition validate_mesh_relay :: "mesh_relay_config \<Rightarrow> mesh_config_error + unit" where
  "validate_mesh_relay c =
     (if mc_fanout c = 0 then Inl FanoutZero
      else if mc_max_ttl c = 0 then Inl MaxTtlZero
      else if mc_dense_max_ttl c = 0 then Inl DenseMaxTtlZero
      else if mc_queue_capacity c = 0 then Inl QueueCapacityZero
      else case find (\<lambda>(_, value). value \<le> 0) [(''rate_per_sec'', mc_rate_per_sec c), (''burst'', mc_burst c),
                  (''peer_rate_per_sec'', mc_peer_rate_per_sec c), (''peer_burst'', mc_peer_burst c)] of
             Some (name, _) \<Rightarrow> Inl (NotPositive name)
           | None \<Rightarrow>
      if mc_bias_min_scale c \<le> 0 \<or> 1 < mc_bias_min_scale c then Inl BiasMinScaleRange
      else if mc_jitter_max c < mc_jitter_min c
      then Inl (JitterInverted (mc_jitter_min c div 1000000) (mc_jitter_max c div 1000000))
      else let worst_delay = min (mc_jitter_max c + mc_bias_max_handicap c) (2 ^ 64 * 1000000000 - 1) in
      if RELAY_QUEUE_MAX_OVERDUE \<le> worst_delay
      then Inl (DelayReachesCutoff (worst_delay div 1000000) (RELAY_QUEUE_MAX_OVERDUE div 1000000))
      else if mc_activity_window c = 0 then Inl ActivityWindowZero
      else if mc_activity_min_forwards c = 0 then Inl ActivityMinForwardsZero
      else if mc_activity_idle_windows c = 0 then Inl ActivityIdleWindowsZero
      else Inr ())"

subsection \<open>The governor as a machine\<close>

datatype mr_op =
    MrAdmit instant instant instant instant message "string option" nat
  | MrAdmitHeld message string instant
  | MrAbsorb instant message "string option"
  | MrRelease instant
  | MrSend instant
  | MrOwnSend instant
  | MrForwarded
  | MrRequeue pending_relay
  | MrDropCovered pending_relay
  | MrDropHeld
  | MrHandled instant instant string
  | MrForgetPeer string
  | MrMaintain instant
  | MrConditions instant "nat option" bool bool nat
  | MrActivity instant
  | MrForceInactive
  | MrLocalId string

fun mr_step :: "(string list \<Rightarrow> nat) \<Rightarrow> (message_id \<Rightarrow> string) \<Rightarrow> mr_op \<Rightarrow> mesh_relay_governor \<Rightarrow> mesh_relay_governor" where
  "mr_step hash idstr (MrAdmit now c1 o1 o2 m peer degree) g = snd (admit hash idstr now c1 o1 o2 m peer degree g)"
| "mr_step hash idstr (MrAdmitHeld m target now) g = snd (admit_held idstr m target now g)"
| "mr_step hash idstr (MrAbsorb c1 m peer) g = snd (absorb_settled_duplicate idstr c1 m peer g)"
| "mr_step hash idstr (MrRelease now) g = snd (release_due idstr now g)"
| "mr_step hash idstr (MrSend now) g = snd (take_send_token now g)"
| "mr_step hash idstr (MrOwnSend now) g = snd (take_own_send_token now g)"
| "mr_step hash idstr MrForwarded g = record_forwarded g"
| "mr_step hash idstr (MrRequeue relay) g = snd (requeue idstr relay g)"
| "mr_step hash idstr (MrDropCovered relay) g = drop_covered relay g"
| "mr_step hash idstr MrDropHeld g = drop_held g"
| "mr_step hash idstr (MrHandled o1 o2 i) g = mark_handled o1 o2 i g"
| "mr_step hash idstr (MrForgetPeer peer) g = forget_peer peer g"
| "mr_step hash idstr (MrMaintain now) g = maintain now g"
| "mr_step hash idstr (MrConditions now battery charging eager soft) g = set_conditions now battery charging eager soft g"
| "mr_step hash idstr (MrActivity now) g = snd (observe_activity now g)"
| "mr_step hash idstr MrForceInactive g = snd (force_inactive g)"
| "mr_step hash idstr (MrLocalId i) g = set_local_id i g"

text \<open>The way of a frame from device to device: each governor on it admits the copy it is given, and the
  copy it queues is the one the next is given.\<close>

inductive relay_path :: "(string list \<Rightarrow> nat) \<Rightarrow> (message_id \<Rightarrow> string) \<Rightarrow> nat \<Rightarrow> message \<Rightarrow> message \<Rightarrow> bool"
  for hash idstr where
  path_start: "relay_path hash idstr 0 m m"
| path_hop: "relay_path hash idstr n m m1 \<Longrightarrow> admit hash idstr now c1 o1 o2 m1 peer degree g = (Queued, g') \<Longrightarrow>
    relay_path hash idstr (Suc n) m (pr_message (last (mg_pending g')))"

text \<open>What of a frame no forwarder may touch.\<close>

definition frame_payload :: "message \<Rightarrow> message" where
  "frame_payload m = m\<lparr>msg_ttl := 0, msg_hop_count := 0, msg_metadata := []\<rparr>"

text \<open>A configuration the check passes, whose rates are numbers of \<open>f32\<close>.\<close>

definition mesh_config_ok :: "mesh_relay_config \<Rightarrow> bool" where
  "mesh_config_ok c \<longleftrightarrow> validate_mesh_relay c = Inr ()
     \<and> f32 (mc_burst c) = mc_burst c \<and> f32 (mc_peer_burst c) = mc_peer_burst c
     \<and> f32 (mc_rate_per_sec c) = mc_rate_per_sec c \<and> f32 (mc_peer_rate_per_sec c) = mc_peer_rate_per_sec c
     \<and> f32 (mc_bias_min_scale c) = mc_bias_min_scale c"

definition tb_ok :: "token_bucket \<Rightarrow> bool" where
  "tb_ok b \<longleftrightarrow> is_f32 (tb_tokens b) \<and> is_f32 (tb_capacity b) \<and> 0 \<le> tb_tokens b \<and> tb_tokens b \<le> tb_capacity b
     \<and> 0 \<le> tb_refill_per_sec b"

definition mg_inv :: "mesh_relay_config \<Rightarrow> mesh_relay_governor \<Rightarrow> bool" where
  "mg_inv c g \<longleftrightarrow> mg_config g = c \<and> length (mg_pending g) \<le> mc_queue_capacity c \<and> rs_inv (mg_seen g)
     \<and> hm_inv (mg_peer_budgets g) \<and> length (mg_peer_budgets g) \<le> MAX_RELAY_RATE_PEERS
     \<and> list_all (\<lambda>(_, b). tb_ok b \<and> tb_capacity b = mc_peer_burst c) (mg_peer_budgets g)
     \<and> tb_ok (mg_send_budget g) \<and> tb_capacity (mg_send_budget g) = mc_burst c
     \<and> tb_ok (mg_forward_budget g) \<and> tb_capacity (mg_forward_budget g) \<le> mc_burst c
     \<and> mg_own_reserve g = min RELAY_OWN_TRAFFIC_RESERVE (f32 (mc_burst c / 2))"

subsection \<open>Lemmas on the configuration\<close>

lemma mesh_config_okD:
  assumes "mesh_config_ok c"
  shows "0 < mc_burst c" "0 < mc_peer_burst c" "0 < mc_rate_per_sec c" "0 < mc_peer_rate_per_sec c"
    "0 < mc_bias_min_scale c" "mc_bias_min_scale c \<le> 1" "is_f32 (mc_burst c)" "is_f32 (mc_peer_burst c)"
    "is_f32 (mc_bias_min_scale c)" "0 < mc_queue_capacity c"
proof -
  have v: "validate_mesh_relay c = Inr ()" using assms by (simp add: mesh_config_ok_def)
  show pos: "0 < mc_burst c" "0 < mc_peer_burst c" "0 < mc_rate_per_sec c" "0 < mc_peer_rate_per_sec c"
    "0 < mc_bias_min_scale c" "mc_bias_min_scale c \<le> 1" "0 < mc_queue_capacity c"
    using v by (auto simp: validate_mesh_relay_def Let_def split: if_splits)
  show "is_f32 (mc_burst c)" "is_f32 (mc_peer_burst c)" "is_f32 (mc_bias_min_scale c)"
    using assms pos f32_is_f32 by (metis less_imp_le mesh_config_ok_def)+
qed

lemma mesh_config_default_ok: "mesh_config_ok mesh_relay_config_default"
  by code_simp

lemma is_f32_one [simp]: "is_f32 1" and is_f32_zero [simp]: "is_f32 0"
  using nat_is_f32[of 1] nat_is_f32[of 0] by simp_all

text \<open>The bias lies between the configured least share and one, in spite of the rounding.\<close>

lemma f32_above_one: "f32 (1 + 1 / 2 ^ 25) = 1"
  by code_simp

lemma bias_scale_range:
  assumes "0 \<le> mc_bias_min_scale (mg_config g)" "mc_bias_min_scale (mg_config g) \<le> 1"
    "is_f32 (mc_bias_min_scale (mg_config g))"
  shows "mc_bias_min_scale (mg_config g) \<le> bias_scale g \<and> bias_scale g \<le> 1"
proof -
  define s where "s = mc_bias_min_scale (mg_config g)"
  have s: "clamp01 (mc_bias_min_scale (mg_config g)) = s" "0 \<le> s" "s \<le> 1" "is_f32 s"
    using assms by (simp_all add: s_def clamp01_def)
  have ramp: "s \<le> f32 (s + f32 (h * f32 (1 - s))) \<and> f32 (s + f32 (h * f32 (1 - s))) \<le> 1" if h: "0 \<le> h" "h \<le> 1" for h
  proof
    have r: "0 \<le> f32 (1 - s)" using s by simp
    then have hr: "0 \<le> h * f32 (1 - s)" "h * f32 (1 - s) \<le> f32 (1 - s)" using h mult_right_mono[of h 1 "f32 (1 - s)"] by simp_all
    show "s \<le> f32 (s + f32 (h * f32 (1 - s)))" using f32_ge[OF s(4,2)] hr(1) by simp
    have "f32 (h * f32 (1 - s)) \<le> f32 (1 - s)" using f32_le[OF f32_is_f32 hr] s by simp
    moreover have "f32 (1 - s) \<le> 1 - s + 1 / 2 ^ 25"
    proof (cases "s = 0")
      case True
      then show ?thesis using f32_id[OF is_f32_one] by simp
    next
      case False
      then show ?thesis using f32_error[of "1 - s"] s by simp
    qed
    ultimately have "s + f32 (h * f32 (1 - s)) \<le> 1 + 1 / 2 ^ 25" by linarith
    then show "f32 (s + f32 (h * f32 (1 - s))) \<le> 1"
      using f32_mono[of "s + f32 (h * f32 (1 - s))" "1 + 1 / 2 ^ 25"] s(2) hr(1) f32_above_one by simp
  qed
  have head: "0 \<le> f32 (f32 (of_nat a) / f32 (of_nat b)) \<and> f32 (f32 (of_nat a) / f32 (of_nat b)) \<le> 1"
    if "a \<le> b" for a b :: nat
  proof -
    have "f32 (of_nat a) \<le> f32 (of_nat b)" using that by (simp add: f32_mono)
    then have "0 \<le> f32 (of_nat a) / f32 (of_nat b)" "f32 (of_nat a) / f32 (of_nat b) \<le> 1"
      by (simp_all add: divide_le_eq_1)
         (metis f32_nonneg less_eq_rat_def not_less of_nat_0_le_iff)
    then show ?thesis using f32_le[OF is_f32_one] by simp
  qed
  have "bias_scale g = 1 \<or> bias_scale g = s \<or> (\<exists>a b. a \<le> b \<and>
      bias_scale g = f32 (s + f32 (f32 (f32 (of_nat a) / f32 (of_nat b)) * f32 (1 - s))))"
    unfolding bias_scale_def Let_def s(1)
    by (auto split: option.split simp del: of_nat_diff of_nat_max) (metis diff_le_mono le_max_iff_disj less_imp_le linorder_le_less_linear)+
  then show ?thesis using s(3) ramp head unfolding s_def[symmetric] by fastforce
qed

subsection \<open>Token buckets keep their bounds\<close>

lemma as_secs_f32_nonneg [simp]: "0 \<le> as_secs_f32 d"
  by (simp add: as_secs_f32_def)

lemma tb_new_ok: "is_f32 c \<Longrightarrow> 0 \<le> c \<Longrightarrow> tb_ok (tb_new c r now)"
  by (simp add: tb_ok_def tb_new_def)

lemma tb_refill_capacity [simp]: "tb_capacity (tb_refill now b) = tb_capacity b"
  by (simp add: tb_refill_def Let_def)

lemma tb_refill_ok: "tb_ok b \<Longrightarrow> tb_ok (tb_refill now b)"
  by (auto simp: tb_refill_def tb_ok_def Let_def min_def f32_is_f32)

lemma tb_refill_grows: "tb_ok b \<Longrightarrow> tb_tokens b \<le> tb_tokens (tb_refill now b)"
  by (auto simp: tb_refill_def tb_ok_def Let_def intro: f32_ge)

lemma threshold_ge_one: "0 \<le> flr \<Longrightarrow> 1 \<le> f32 (1 + flr)"
  by (rule f32_ge) simp_all

lemma tb_spent_ok:
  assumes "tb_ok b" "1 \<le> tb_tokens b"
  shows "tb_ok (b\<lparr>tb_tokens := f32 (tb_tokens b - 1)\<rparr>)"
proof -
  have "f32 (tb_tokens b - 1) \<le> tb_tokens b" using assms by (intro f32_le) (simp_all add: tb_ok_def)
  then show ?thesis using assms f32_is_f32[of "tb_tokens b - 1"] by (auto simp: tb_ok_def)
qed

lemma try_take_above_ok:
  assumes "tb_ok b" "0 \<le> flr"
  shows "tb_ok (snd (try_take_above flr now b)) \<and> tb_capacity (snd (try_take_above flr now b)) = tb_capacity b"
proof (cases "f32 (1 + flr) \<le> tb_tokens (tb_refill now b)")
  case True
  then have "1 \<le> tb_tokens (tb_refill now b)" using threshold_ge_one[OF assms(2)] by linarith
  then show ?thesis using True tb_spent_ok[OF tb_refill_ok[OF assms(1)]] by (simp add: try_take_above_def Let_def)
qed (simp add: try_take_above_def Let_def tb_refill_ok[OF assms(1)])

lemma has_above_eq: "has_above flr now b = (f32 (1 + flr) \<le> tb_tokens (tb_refill now b), tb_refill now b)"
  by (simp add: has_above_def Let_def)

lemma tb_spend_ok:
  assumes "tb_ok b" "1 \<le> tb_tokens b"
  shows "tb_ok (tb_spend b)"
  using tb_spent_ok[OF assms] by (auto simp: tb_ok_def tb_spend_def max_def)

lemma tb_spend_capacity [simp]: "tb_capacity (tb_spend b) = tb_capacity b"
  by (simp add: tb_spend_def)

lemma tb_resize_ok:
  assumes "tb_ok b" "is_f32 c" "0 \<le> c"
  shows "tb_ok (tb_resize c r now b) \<and> tb_capacity (tb_resize c r now b) = c"
  using tb_refill_ok[OF assms(1), of now] assms(2,3) by (auto simp: tb_resize_def tb_ok_def Let_def min_def)

subsection \<open>The invariant\<close>

lemma max_on_None [simp]: "max_on key xs = None \<longleftrightarrow> xs = []"
  by (cases xs) (auto split: option.splits)

lemma max_on_Some: "max_on key xs = Some m \<Longrightarrow> m \<in> set xs \<and> (\<forall>x\<in>set xs. key x \<le> key m)"
proof (induction xs arbitrary: m)
  case (Cons x xs)
  then show ?case by (cases "max_on key xs") (fastforce split: if_splits)+
qed simp

abbreviation peer_ok :: "mesh_relay_config \<Rightarrow> string \<times> token_bucket \<Rightarrow> bool" where
  "peer_ok c \<equiv> (\<lambda>(_, b). tb_ok b \<and> tb_capacity b = mc_peer_burst c)"

lemma hm_insert_all: "list_all P m \<Longrightarrow> P (k, v) \<Longrightarrow> list_all P (hm_insert k v m)"
  by (induction m) auto

lemma hm_remove_all: "list_all P m \<Longrightarrow> list_all P (hm_remove k m)"
  by (auto simp: hm_remove_def list_all_iff)

lemma refilled_keys: "map fst (map (\<lambda>(k, b). (k, tb_refill now b)) m) = map fst m"
  by (induction m) auto

lemma peer_table_room_ok:
  assumes "hm_inv m" "length m \<le> MAX_RELAY_RATE_PEERS" "list_all (peer_ok c) m"
  shows "hm_inv (peer_table_room now m) \<and> length (peer_table_room now m) < MAX_RELAY_RATE_PEERS
    \<and> list_all (peer_ok c) (peer_table_room now m)"
proof (cases "MAX_RELAY_RATE_PEERS \<le> length m")
  case True
  let ?r = "map (\<lambda>(k, b). (k, tb_refill now b)) m"
  have r: "hm_inv ?r" "length ?r = 256" "list_all (peer_ok c) ?r"
    using assms True by (simp_all only: hm_inv_def refilled_keys) (auto simp: list_all_iff tb_refill_ok)
  obtain k b where kb: "max_on (\<lambda>(_, b). tb_tokens b) ?r = Some (k, b)"
    using r(2) by (metis list.size(3) max_on_None not_None_eq surj_pair zero_neq_numeral)
  then have "(k, b) \<in> set ?r" using max_on_Some by fastforce
  then have "map_of ?r k = Some b" using r(1) hm_get_eq by fastforce
  then have "length (hm_remove k ?r) < 256" using hm.len_del[OF r(1), of k] r(2) by simp
  then show ?thesis using True kb r hm_remove_all[OF r(3)] by (simp add: peer_table_room_def Let_def)
qed (use assms in \<open>simp add: peer_table_room_def\<close>)

lemma take_peer_token_ok:
  assumes "mg_inv c g" "mesh_config_ok c"
  shows "mg_inv c (snd (take_peer_token peer now g))"
proof -
  let ?m = "mg_peer_budgets g"
  have m: "hm_inv ?m" "length ?m \<le> 256" "list_all (peer_ok c) ?m" "mg_config g = c" using assms by (simp_all add: mg_inv_def)
  note room = peer_table_room_ok[OF m(1-3), of now]
  define budgets where "budgets = (if \<not> hm_contains peer ?m
      then hm_insert peer (tb_new (mc_peer_burst c) (mc_peer_rate_per_sec c) now) (peer_table_room now ?m) else ?m)"
  have new: "peer_ok c (peer, tb_new (mc_peer_burst c) (mc_peer_rate_per_sec c) now)"
    using mesh_config_okD[OF assms(2)] tb_new_ok by (simp add: tb_new_def tb_ok_def)
  have b: "hm_inv budgets" "length budgets \<le> 256" "list_all (peer_ok c) budgets" "map_of budgets peer \<noteq> None"
    unfolding budgets_def using m room hm_insert_all[of "peer_ok c", OF _ new]
    by (auto simp: hm.len_ins hm_contains_def)
  then obtain t where t: "map_of budgets peer = Some t" by auto
  then have tok: "peer_ok c (peer, t)" using b(3) by (fastforce simp: list_all_iff dest: map_of_SomeD)
  obtain ok t' where tt: "try_take_above 0 now t = (ok, t')" by fastforce
  have t': "peer_ok c (peer, t')" using try_take_above_ok[of t 0 now] tok tt by simp
  have "snd (take_peer_token peer now g) = g\<lparr>mg_peer_budgets := hm_insert peer t' budgets\<rparr>"
    unfolding take_peer_token_def Let_def m(4) budgets_def[symmetric] by (simp add: t tt)
  then show ?thesis using assms(1) b t hm_insert_all[OF b(3) t'] by (simp add: mg_inv_def hm.len_ins)
qed

lemma mg_inv_counters [simp]: "mg_inv c (g\<lparr>mg_counters := n\<rparr>) = mg_inv c g"
  by (simp add: mg_inv_def)

lemma mg_inv_seen: "mg_inv c g \<Longrightarrow> rs_inv s \<Longrightarrow> mg_inv c (g\<lparr>mg_seen := s\<rparr>)"
  by (simp add: mg_inv_def)

lemma prepare_hop_state [simp]:
  "mg_pending (snd (prepare_hop m d g)) = mg_pending g" "mg_seen (snd (prepare_hop m d g)) = mg_seen g"
  "mg_config (snd (prepare_hop m d g)) = mg_config g"
  by (auto simp: prepare_hop_def Let_def split: option.split sum.split)

lemma prepare_hop_ok: "mg_inv c g \<Longrightarrow> mg_inv c (snd (prepare_hop m d g))"
  by (auto simp: prepare_hop_def Let_def split: option.split)

lemma victim_index_lt:
  assumes "victim_index r now p = Some i"
  shows "i < length p \<and> relay_priority_rank (msg_priority (pr_message (p ! i))) < r"
proof -
  have "x \<in> set (enumerate 0 p) \<Longrightarrow> fst x < length p \<and> p ! fst x = snd x" for x
    by (cases x) (simp add: in_set_enumerate_eq)
  then show ?thesis
    using assms by (fastforce simp: victim_index_def Let_def split: option.splits dest!: min_on_Some)
qed

lemma evict_ok:
  assumes "mg_inv c g"
  shows "mg_inv c (snd (mr_evict_for idstr m now g))"
    and "fst (mr_evict_for idstr m now g) \<Longrightarrow> length (mg_pending (snd (mr_evict_for idstr m now g))) < mc_queue_capacity c"
proof -
  show "mg_inv c (snd (mr_evict_for idstr m now g))"
    using assms by (auto simp: mr_evict_for_def mg_inv_def rs_inv_forget split: option.split dest: victim_index_lt)
  show "fst (mr_evict_for idstr m now g) \<Longrightarrow> length (mg_pending (snd (mr_evict_for idstr m now g))) < mc_queue_capacity c"
    using assms by (auto simp: mr_evict_for_def mg_inv_def split: option.splits dest!: victim_index_lt)
qed

lemma evict_refused: "\<not> fst (mr_evict_for idstr m now g) \<Longrightarrow> snd (mr_evict_for idstr m now g) = g"
  by (auto simp: mr_evict_for_def split: option.splits)

lemma take_peer_token_state [simp]:
  "mg_pending (snd (take_peer_token peer now g)) = mg_pending g"
  "mg_seen (snd (take_peer_token peer now g)) = mg_seen g"
  "mg_config (snd (take_peer_token peer now g)) = mg_config g"
  by (auto simp: take_peer_token_def Let_def split: option.split prod.split)

lemma mg_inv_push:
  "mg_inv c g \<Longrightarrow> length (mg_pending g) < mc_queue_capacity c \<Longrightarrow> mg_inv c (g\<lparr>mg_pending := mg_pending g @ [p]\<rparr>)"
  by (simp add: mg_inv_def)

lemma queue_room_ok:
  assumes "mg_inv c g"
  shows "mg_inv c (snd (queue_room idstr m now g))"
    and "fst (queue_room idstr m now g) \<Longrightarrow> length (mg_pending (snd (queue_room idstr m now g))) < mc_queue_capacity c"
  using assms evict_ok[OF assms] by (auto simp: queue_room_def mg_inv_def)

lemma queue_room_refused: "\<not> fst (queue_room idstr m now g) \<Longrightarrow> snd (queue_room idstr m now g) = g"
  by (auto simp: queue_room_def evict_refused)

lemma rs_inv_seen: "mg_inv c g \<Longrightarrow> rs_inv (mg_seen g)"
  by (simp add: mg_inv_def)

lemma admit_enqueue_ok:
  assumes "mg_inv c g"
  shows "mg_inv c (snd (admit_enqueue hash idstr now o1 o2 resend m f peer degree g))"
proof (cases "queue_room idstr f now g")
  case (Pair ok g1)
  have g1: "mg_inv c g1" "ok \<Longrightarrow> length (mg_pending g1) < mc_queue_capacity c"
    using queue_room_ok[OF assms, of idstr f now] Pair by simp_all
  show ?thesis
  proof (cases ok)
    case True
    let ?s = "snd (rs_observe o1 o2 (idstr (msg_id m)) (if resend then rs_forget (idstr (msg_id m)) (mg_seen g1) else mg_seen g1))"
    have "rs_inv ?s" using rs_inv_seen[OF g1(1)] by (simp add: rs_inv_observe rs_inv_forget)
    then have "mg_inv c (g1\<lparr>mg_seen := ?s\<rparr>)" by (rule mg_inv_seen[OF g1(1)])
    from mg_inv_push[OF this, of "new_relay hash idstr now m f peer degree (g1\<lparr>mg_seen := ?s\<rparr>)"] g1(2)[OF True]
    show ?thesis using Pair True by (simp add: admit_enqueue_def Let_def)
  qed (use Pair g1 in \<open>simp add: admit_enqueue_def\<close>)
qed

lemma arrival_token_ok: "mg_inv c g \<Longrightarrow> mesh_config_ok c \<Longrightarrow> mg_inv c (snd (arrival_token peer now g))"
  by (simp add: arrival_token_def take_peer_token_ok split: option.split)

lemma arrival_token_state [simp]:
  "mg_pending (snd (arrival_token peer now g)) = mg_pending g"
  "mg_seen (snd (arrival_token peer now g)) = mg_seen g"
  "mg_config (snd (arrival_token peer now g)) = mg_config g"
  by (simp_all add: arrival_token_def split: option.split)

lemma admit_hop_ok: "mg_inv c g \<Longrightarrow> mg_inv c (snd (admit_hop hash idstr now o1 o2 resend m peer degree g))"
  using prepare_hop_ok[of c g m degree]
  by (cases "prepare_hop m degree g") (auto simp: admit_hop_def admit_enqueue_ok split: option.split)

lemma admit_new_ok:
  "mg_inv c g \<Longrightarrow> mesh_config_ok c \<Longrightarrow> mg_inv c (snd (admit_new hash idstr now o1 o2 resend m peer degree g))"
  using arrival_token_ok[of c g peer now]
  by (cases "arrival_token peer now g") (auto simp: admit_new_def admit_hop_ok split: bool.split)

lemma update_first_length: "update_first P f xs = Some ys \<Longrightarrow> length ys = length xs"
  by (induction xs arbitrary: ys) (auto split: if_splits)

lemma admit_ok:
  assumes "mg_inv c g" "mesh_config_ok c"
  shows "mg_inv c (snd (admit hash idstr now c1 o1 o2 m peer degree g))"
  using assms by (auto simp: admit_def Let_def count_duplicate_def admit_new_ok split: option.split)
    (auto simp: mg_inv_def dest: update_first_length)

lemma admit_held_ok:
  assumes "mg_inv c g" "mesh_config_ok c"
  shows "mg_inv c (snd (admit_held idstr m target now g))"
proof (cases "take_peer_token target now g")
  case (Pair ok g1)
  then have g1: "mg_inv c g1" using take_peer_token_ok[OF assms, of target now] by simp
  obtain ok2 g2 where room: "queue_room idstr m now g1 = (ok2, g2)" by fastforce
  show ?thesis using queue_room_ok[OF g1, of idstr m now] g1 room Pair
    by (auto simp: admit_held_def mg_inv_push split: bool.split)
qed

lemma has_send_budget_cases:
  "has_send_budget now g =
     (if f32 (1 + mg_own_reserve g) \<le> tb_tokens (tb_refill now (mg_send_budget g))
      then (f32 1 \<le> tb_tokens (tb_refill now (mg_forward_budget g)),
            g\<lparr>mg_send_budget := tb_refill now (mg_send_budget g), mg_forward_budget := tb_refill now (mg_forward_budget g)\<rparr>)
      else (False, g\<lparr>mg_send_budget := tb_refill now (mg_send_budget g)\<rparr>))"
  by (simp add: has_send_budget_def has_above_eq)

lemma has_send_budget_ok: "mg_inv c g \<Longrightarrow> mg_inv c (snd (has_send_budget now g))"
  by (auto simp: has_send_budget_cases mg_inv_def tb_refill_ok)

lemma count_deferred_ok [simp]: "mg_inv c (count_deferred g) = mg_inv c g"
  and count_transmission_ok [simp]: "mg_inv c (count_transmission g) = mg_inv c g"
  and count_duplicate_ok [simp]: "mg_inv c (count_duplicate g) = mg_inv c g"
  by (simp_all add: count_deferred_def count_transmission_def count_duplicate_def)

text \<open>The loop of \<open>release_due\<close> splits the queue three ways and keeps the rest of the invariant.\<close>

lemma release_loop_mset:
  "release_loop idstr now ps g = (due, abandoned, keep, g') \<Longrightarrow> mset ps = mset due + mset abandoned + mset keep"
proof (induction ps arbitrary: g due abandoned keep g')
  case (Cons p ps)
  then show ?case by (fastforce simp: Let_def split: if_splits prod.splits bool.splits)
qed simp

lemma release_loop_pending: "release_loop idstr now ps g = (due, abandoned, keep, g') \<Longrightarrow> mg_pending g' = mg_pending g"
proof (induction ps arbitrary: g due abandoned keep g')
  case (Cons p ps)
  have "mg_pending (snd (has_send_budget now g)) = mg_pending g" by (auto simp: has_send_budget_cases)
  then show ?case using Cons
    by (fastforce simp: Let_def count_deferred_def split: if_splits prod.splits bool.splits)
qed simp

text \<open>One pass of the loop goes on from one of four states.\<close>

lemma release_loop_next:
  "\<exists>g0. snd (snd (snd (release_loop idstr now (p # ps) g))) = snd (snd (snd (release_loop idstr now ps g0)))
     \<and> (g0 = g \<or> g0 = snd (has_send_budget now g) \<or> g0 = count_deferred (snd (has_send_budget now g))
        \<or> (\<exists>i n. g0 = g\<lparr>mg_seen := rs_forget i (mg_seen g), mg_counters := n\<rparr>))"
proof -
  obtain ok g1 where hb: "has_send_budget now g = (ok, g1)" by fastforce
  consider "now < pr_due_at p" | "\<not> now < pr_due_at p" "RELAY_QUEUE_MAX_OVERDUE < now - pr_due_at p" "pr_custody_target p = None"
    | "\<not> now < pr_due_at p" "RELAY_QUEUE_MAX_OVERDUE < now - pr_due_at p" "pr_custody_target p \<noteq> None"
    | "\<not> now < pr_due_at p" "\<not> RELAY_QUEUE_MAX_OVERDUE < now - pr_due_at p" "ok"
    | "\<not> now < pr_due_at p" "\<not> RELAY_QUEUE_MAX_OVERDUE < now - pr_due_at p" "\<not> ok" by blast
  then show ?thesis
  proof cases
    case 1
    then show ?thesis by (intro exI[of _ g]) (simp split: prod.split)
  next
    case 2
    define g0 where "g0 = g\<lparr>mg_seen := rs_forget (idstr (msg_id (pr_message p))) (mg_seen g),
      mg_counters := (mg_counters g)\<lparr>mrc_abandoned_overdue := sat_add64 (mrc_abandoned_overdue (mg_counters g)) 1\<rparr>\<rparr>"
    have "snd (snd (snd (release_loop idstr now (p # ps) g))) = snd (snd (snd (release_loop idstr now ps g0)))"
      using 2 by (simp add: Let_def g0_def split: prod.split)
    then show ?thesis using g0_def by blast
  next
    case 3
    then show ?thesis by (intro exI[of _ g]) (auto simp: Let_def split: prod.split)
  next
    case 4
    then show ?thesis by (intro exI[of _ g1]) (simp add: hb split: prod.split)
  next
    case 5
    then show ?thesis by (intro exI[of _ "count_deferred g1"]) (simp add: hb split: prod.split)
  qed
qed

lemma release_loop_ok: "mg_inv c g \<Longrightarrow> mg_inv c (snd (snd (snd (release_loop idstr now ps g))))"
proof (induction ps arbitrary: g)
  case (Cons p ps)
  obtain g0 where g0: "snd (snd (snd (release_loop idstr now (p # ps) g))) = snd (snd (snd (release_loop idstr now ps g0)))"
    "g0 = g \<or> g0 = snd (has_send_budget now g) \<or> g0 = count_deferred (snd (has_send_budget now g))
        \<or> (\<exists>i n. g0 = g\<lparr>mg_seen := rs_forget i (mg_seen g), mg_counters := n\<rparr>)"
    using release_loop_next[of idstr now p ps g] by blast
  have "mg_inv c (g\<lparr>mg_seen := rs_forget i (mg_seen g), mg_counters := n\<rparr>)" for i n
    using Cons.prems by (simp add: mg_inv_def rs_inv_forget)
  then have "mg_inv c g0" using g0(2) Cons.prems has_send_budget_ok[OF Cons.prems, of now] by auto
  then show ?case unfolding g0(1) by (rule Cons.IH)
qed simp

lemma release_due_parts:
  obtains due abandoned keep g' where
    "release_loop idstr now (mg_pending g) (g\<lparr>mg_seen := rs_expire now (mg_seen g), mg_pending := []\<rparr>) = (due, abandoned, keep, g')"
    "release_due idstr now g = ((due, abandoned), g'\<lparr>mg_pending := keep\<rparr>)"
  by (cases "release_loop idstr now (mg_pending g) (g\<lparr>mg_seen := rs_expire now (mg_seen g), mg_pending := []\<rparr>)")
     (simp add: release_due_def)

lemma release_due_ok:
  assumes "mg_inv c g"
  shows "mg_inv c (snd (release_due idstr now g))"
proof -
  obtain due abandoned keep g' where
    l: "release_loop idstr now (mg_pending g) (g\<lparr>mg_seen := rs_expire now (mg_seen g), mg_pending := []\<rparr>) = (due, abandoned, keep, g')"
    and r: "release_due idstr now g = ((due, abandoned), g'\<lparr>mg_pending := keep\<rparr>)" by (rule release_due_parts)
  have "length keep \<le> length (mg_pending g)"
    using arg_cong[OF release_loop_mset[OF l], of size] by simp
  moreover have "mg_inv c (g\<lparr>mg_seen := rs_expire now (mg_seen g), mg_pending := []\<rparr>)"
    using assms by (simp add: mg_inv_def rs_inv_expire)
  then have "mg_inv c g'" using release_loop_ok[of c _ idstr now "mg_pending g"] l by (metis snd_conv)
  ultimately show ?thesis using assms r by (simp add: mg_inv_def)
qed

text \<open>Spending from both meters.\<close>

lemma reserve_nonneg: "mg_inv c g \<Longrightarrow> mesh_config_ok c \<Longrightarrow> 0 \<le> mg_own_reserve g"
  using mesh_config_okD(1)[of c] by (simp add: mg_inv_def)

lemma take_send_token_ok:
  assumes "mg_inv c g" "mesh_config_ok c"
  shows "mg_inv c (snd (take_send_token now g))"
proof (cases "has_send_budget now g")
  case (Pair ok g1)
  have g1: "mg_inv c g1" using has_send_budget_ok[OF assms(1), of now] Pair by simp
  show ?thesis
  proof (cases ok)
    case True
    have "f32 (1 + mg_own_reserve g) \<le> tb_tokens (mg_send_budget g1)" "f32 1 \<le> tb_tokens (mg_forward_budget g1)"
      using Pair True by (auto simp: has_send_budget_cases split: if_splits)
    then have one: "1 \<le> tb_tokens (mg_send_budget g1)" "1 \<le> tb_tokens (mg_forward_budget g1)"
      using threshold_ge_one[OF reserve_nonneg[OF assms]] threshold_ge_one[of 0] by auto
    have "tb_ok (tb_spend (mg_send_budget g1))" "tb_ok (tb_spend (mg_forward_budget g1))"
      using g1 one tb_spend_ok by (simp_all add: mg_inv_def)
    then show ?thesis using Pair True g1 by (simp add: take_send_token_def) (simp add: mg_inv_def)
  qed (use Pair g1 in \<open>simp add: take_send_token_def\<close>)
qed

lemma take_own_send_token_ok:
  assumes "mg_inv c g"
  shows "mg_inv c (snd (take_own_send_token now g))"
proof (cases "try_take_above 0 now (mg_send_budget g)")
  case (Pair ok b)
  have "tb_ok (mg_send_budget g)" using assms by (simp add: mg_inv_def)
  then have "tb_ok b" "tb_capacity b = tb_capacity (mg_send_budget g)"
    using try_take_above_ok[of "mg_send_budget g" 0 now] Pair by simp_all
  then have "mg_inv c (g\<lparr>mg_send_budget := b\<rparr>)" using assms by (simp add: mg_inv_def)
  then show ?thesis using Pair by (cases ok) (simp_all add: take_own_send_token_def claim_transmission_def)
qed

lemma set_conditions_ok:
  assumes "mg_inv c g" "mesh_config_ok c"
  shows "mg_inv c (set_conditions now battery charging eager soft g)"
proof -
  define g1 where "g1 = g\<lparr>mg_conditions := \<lparr>rc_battery = battery, rc_is_charging = charging, rc_eager = eager, rc_soft_floor = soft\<rparr>\<rparr>"
  have c: "mg_config g1 = c" using assms(1) by (simp add: g1_def mg_inv_def)
  note ok = mesh_config_okD[OF assms(2)]
  have b: "0 \<le> bias_scale g1" "bias_scale g1 \<le> 1" using bias_scale_range[of g1] ok(5,6,9) c by auto
  have cap: "0 \<le> mc_burst c * bias_scale g1" "mc_burst c * bias_scale g1 \<le> mc_burst c"
    using b ok(1) mult_left_mono[of "bias_scale g1" 1 "mc_burst c"] by simp_all
  have fcap: "is_f32 (f32 (mc_burst c * bias_scale g1))" "0 \<le> f32 (mc_burst c * bias_scale g1)" "f32 (mc_burst c * bias_scale g1) \<le> mc_burst c"
    using f32_is_f32[OF cap(1)] f32_le[OF ok(7) cap] cap(1) by simp_all
  have "tb_ok (mg_forward_budget g)" using assms(1) by (simp add: mg_inv_def)
  note r = tb_resize_ok[OF this fcap(1,2), of "f32 (mc_rate_per_sec c * bias_scale g1)" now]
  have "set_conditions now battery charging eager soft g
      = g1\<lparr>mg_forward_budget := tb_resize (f32 (mc_burst c * bias_scale g1)) (f32 (mc_rate_per_sec c * bias_scale g1)) now (mg_forward_budget g)\<rparr>"
    using c by (simp add: set_conditions_def Let_def g1_def)
  then show ?thesis using r fcap(3) assms(1) by (simp add: mg_inv_def g1_def)
qed

lemma observe_activity_ok: "mg_inv c g \<Longrightarrow> mg_inv c (snd (observe_activity now g))"
  by (simp add: observe_activity_def Let_def mg_inv_def)

lemma requeue_ok: "mg_inv c g \<Longrightarrow> mg_inv c (snd (requeue idstr relay g))"
  by (auto simp: requeue_def mg_inv_def rs_inv_forget)

lemma drop_held_ok: "mg_inv c g \<Longrightarrow> mg_inv c (drop_held g)"
  by (simp add: drop_held_def mg_inv_def order_trans[OF length_filter_le])

lemma forget_peer_ok: "mg_inv c g \<Longrightarrow> mg_inv c (forget_peer peer g)"
  using hm.len_del_le[of "mg_peer_budgets g" peer] by (simp add: forget_peer_def mg_inv_def hm_remove_all)

lemma absorb_ok: "mg_inv c g \<Longrightarrow> mg_inv c (snd (absorb_settled_duplicate idstr c1 m peer g))"
  by (simp add: absorb_settled_duplicate_def Let_def)

lemma mg_inv_new: "mesh_config_ok c \<Longrightarrow> mg_inv c (mg_with_config now local_id c)"
  using mesh_config_okD[of c] tb_new_ok[of "mc_burst c"]
  by (simp add: mg_inv_def mg_with_config_def rs_inv_new) (simp add: tb_new_def)

lemma mr_step_ok:
  assumes "mg_inv c g" "mesh_config_ok c"
  shows "mg_inv c (mr_step hash idstr op g)"
proof (cases op)
  case (MrHandled o1 o2 i)
  then show ?thesis using assms(1) by (simp add: mark_handled_def mg_inv_def rs_inv_observe)
next
  case (MrMaintain now)
  then show ?thesis using assms(1) by (simp add: maintain_def mg_inv_def rs_inv_expire)
qed (use assms in \<open>simp_all add: admit_ok admit_held_ok absorb_ok release_due_ok take_send_token_ok take_own_send_token_ok
  requeue_ok drop_held_ok forget_peer_ok set_conditions_ok observe_activity_ok\<close>,
  simp_all add: record_forwarded_def drop_covered_def force_inactive_def set_local_id_def mg_inv_def)

interpretation mrm: machine "mr_step hash idstr" "\<lambda>_ _. mesh_config_ok c" "mg_inv c" for hash idstr c
  by unfold_locales (rule mr_step_ok)

lemma governor_inv:
  assumes "mesh_config_ok c"
  shows "mg_inv c (fold (mr_step hash idstr) ops (mg_with_config now local_id c))"
proof -
  have "legal (mr_step hash idstr) (\<lambda>_ _. mesh_config_ok c) ops s" for s
    using assms by (induction ops arbitrary: s) simp_all
  then show ?thesis by (rule mrm.run_inv[OF mg_inv_new[OF assms]])
qed

subsection \<open>Hops\<close>

lemma hop_count_unat: "h < RELAY_MAX_HOP_COUNT \<Longrightarrow> unat (h + 1 :: u8) = Suc (unat h)"
  by (simp add: unat_word_ariths word_less_nat_alt)

lemma prepare_hop_spec:
  assumes "fst (prepare_hop m degree g) = Some f"
  shows "unat (msg_hop_count m) < 16" "unat (msg_hop_count f) = Suc (unat (msg_hop_count m))"
    "unat (msg_ttl f) < unat (msg_ttl m)" "unat (msg_ttl f) < unat (hop_ceiling (mg_config g) degree)" "0 < msg_ttl f"
    "map_of (msg_metadata f) CUSTODY_META_KEY = None"
    "f = m\<lparr>msg_ttl := msg_ttl f, msg_hop_count := msg_hop_count f, msg_metadata := hm_remove CUSTODY_META_KEY (msg_metadata m)\<rparr>"
proof -
  let ?e = "min (msg_ttl m) (hop_ceiling (mg_config g) degree)"
  have h: "msg_hop_count m < RELAY_MAX_HOP_COUNT" using assms by (auto simp: prepare_hop_def not_le[symmetric])
  obtain t where t: "TTL_decrement ?e = Some t"
    using assms h by (cases "TTL_decrement ?e") (simp_all add: prepare_hop_def Let_def not_le[symmetric])
  have ne: "msg_hop_count m \<noteq> - 1" using h by auto
  have f: "f = m\<lparr>msg_ttl := t, msg_hop_count := msg_hop_count m + 1, msg_metadata := hm_remove CUSTODY_META_KEY (msg_metadata m)\<rparr>"
    using assms h t ne by (simp add: prepare_hop_def Let_def increment_hop_def HopCount_increment_def not_le[symmetric])
  have e: "unat ?e = Suc (unat t)" "0 < t" using TTL_decrement_unat[OF t] by auto
  have "unat ?e \<le> unat (msg_ttl m)" "unat ?e \<le> unat (hop_ceiling (mg_config g) degree)"
    by (simp_all add: word_le_nat_alt[symmetric])
  then show "unat (msg_ttl f) < unat (msg_ttl m)" "unat (msg_ttl f) < unat (hop_ceiling (mg_config g) degree)" "0 < msg_ttl f"
    using e f by simp_all
  show "unat (msg_hop_count m) < 16" using h by (simp add: word_less_nat_alt)
  show "unat (msg_hop_count f) = Suc (unat (msg_hop_count m))" using hop_count_unat[OF h] f by simp
  show "map_of (msg_metadata f) CUSTODY_META_KEY = None" using f by simp
  show "f = m\<lparr>msg_ttl := msg_ttl f, msg_hop_count := msg_hop_count f, msg_metadata := hm_remove CUSTODY_META_KEY (msg_metadata m)\<rparr>"
    using f by simp
qed

text \<open>What admission does, on either side of the decision.\<close>

lemma admit_enqueue_result:
  "admit_enqueue hash idstr now o1 o2 resend m f peer degree g = (a, g') \<Longrightarrow>
     (a = Rejected QueueFull \<and> mg_seen g' = mg_seen g \<and> mg_pending g' = mg_pending g) \<or>
     (a = Queued \<and> hm_contains (idstr (msg_id m)) (rs_entries (mg_seen g')) \<and>
      (\<exists>g2. last (mg_pending g') = new_relay hash idstr now m f peer degree g2))"
proof (cases "queue_room idstr f now g")
  case (Pair ok g1)
  assume *: "admit_enqueue hash idstr now o1 o2 resend m f peer degree g = (a, g')"
  have seen: "hm_contains i (rs_entries (snd (rs_observe o1 o2 i s)))" for i s
    by (simp add: rs_observe_def Let_def hm_contains_def)
  show ?thesis
  proof (cases ok)
    case True
    then show ?thesis using * Pair seen by (auto simp: admit_enqueue_def Let_def)
  next
    case False
    then show ?thesis using * Pair queue_room_refused[of idstr f now g] by (auto simp: admit_enqueue_def)
  qed
qed

lemma admit_hop_result:
  assumes "admit_hop hash idstr now o1 o2 resend m peer degree g = (a, g')"
  shows "(\<exists>r. a = Rejected r \<and> mg_seen g' = mg_seen g \<and> mg_pending g' = mg_pending g) \<or>
     (a = Queued \<and> hm_contains (idstr (msg_id m)) (rs_entries (mg_seen g')) \<and>
      (\<exists>f g2. fst (prepare_hop m degree g) = Some f \<and> last (mg_pending g') = new_relay hash idstr now m f peer degree g2))"
proof (cases "prepare_hop m degree g")
  case (Pair fo g1)
  have g1: "mg_seen g1 = mg_seen g" "mg_pending g1 = mg_pending g"
    using prepare_hop_state(1,2)[of m degree g] Pair by simp_all
  show ?thesis
  proof (cases fo)
    case None
    then show ?thesis using assms Pair g1 by (auto simp: admit_hop_def)
  next
    case (Some f)
    then have "admit_enqueue hash idstr now o1 o2 resend m f peer degree g1 = (a, g')" using assms Pair by (simp add: admit_hop_def)
    from admit_enqueue_result[OF this] show ?thesis using Pair Some g1 by auto
  qed
qed

lemma admit_new_result:
  assumes "admit_new hash idstr now o1 o2 resend m peer degree g = (a, g')"
  shows "(\<exists>r. a = Rejected r \<and> mg_seen g' = mg_seen g \<and> mg_pending g' = mg_pending g) \<or>
     (a = Queued \<and> hm_contains (idstr (msg_id m)) (rs_entries (mg_seen g')) \<and>
      (\<exists>f g1 g2. fst (prepare_hop m degree g1) = Some f \<and> mg_config g1 = mg_config g
          \<and> last (mg_pending g') = new_relay hash idstr now m f peer degree g2))"
proof (cases "arrival_token peer now g")
  case (Pair ok g1)
  have g1: "mg_seen g1 = mg_seen g" "mg_pending g1 = mg_pending g" "mg_config g1 = mg_config g"
    using arrival_token_state[of peer now g] Pair by simp_all
  show ?thesis
  proof (cases ok)
    case True
    then have "admit_hop hash idstr now o1 o2 resend m peer degree g1 = (a, g')" using assms Pair by (simp add: admit_new_def)
    from admit_hop_result[OF this] show ?thesis using g1 by metis
  qed (use assms Pair g1 in \<open>auto simp: admit_new_def\<close>)
qed

lemma update_first_narrow:
  "update_first P (narrow peer) ps = Some qs \<Longrightarrow> map pr_message qs = map pr_message ps"
  by (induction ps arbitrary: qs) (auto simp: narrow_def split: if_splits option.splits)

lemma admit_result:
  assumes "admit hash idstr now c1 o1 o2 m peer degree g = (a, g')"
  shows "(\<exists>r. a = Rejected r \<and> mg_seen g' = mg_seen g \<and> map pr_message (mg_pending g') = map pr_message (mg_pending g)) \<or>
     (a = Queued \<and> hm_contains (idstr (msg_id m)) (rs_entries (mg_seen g')) \<and>
      (\<exists>f g1 g2. fst (prepare_hop m degree g1) = Some f \<and> mg_config g1 = mg_config g
          \<and> last (mg_pending g') = new_relay hash idstr now m f peer degree g2))"
proof (cases "rs_contains c1 (idstr (msg_id m)) (mg_seen g) \<and> \<not> is_origin_resend idstr m peer g")
  case True
  then show ?thesis using assms update_first_narrow
    by (auto simp: admit_def Let_def count_duplicate_def split: option.splits)
next
  case False
  then have "admit_new hash idstr now o1 o2 (rs_contains c1 (idstr (msg_id m)) (mg_seen g) \<and> is_origin_resend idstr m peer g) m peer degree g = (a, g')"
    using assms by (auto simp: admit_def Let_def split: if_splits)
  from admit_new_result[OF this] show ?thesis by fastforce
qed

lemma path_hop_spec:
  assumes "admit hash idstr now c1 o1 o2 m peer degree g = (Queued, g')"
  obtains g1 where "fst (prepare_hop m degree g1) = Some (pr_message (last (mg_pending g')))" "mg_config g1 = mg_config g"
  using admit_result[OF assms] by (auto simp: new_relay_def)

lemma prepare_hop_payload:
  assumes "fst (prepare_hop m degree g) = Some f"
  shows "frame_payload f = frame_payload m"
proof -
  have "frame_payload f = frame_payload (m\<lparr>msg_ttl := msg_ttl f, msg_hop_count := msg_hop_count f,
      msg_metadata := hm_remove CUSTODY_META_KEY (msg_metadata m)\<rparr>)"
    using prepare_hop_spec(7)[OF assms] by (rule arg_cong)
  then show ?thesis by (simp add: frame_payload_def)
qed

lemma relay_path_spec:
  "relay_path hash idstr n m m' \<Longrightarrow>
     unat (msg_hop_count m') = unat (msg_hop_count m) + n \<and> n \<le> 16 - unat (msg_hop_count m)
     \<and> unat (msg_ttl m') + n \<le> unat (msg_ttl m)
     \<and> (n = 0 \<or> 0 < unat (msg_ttl m') \<and> map_of (msg_metadata m') CUSTODY_META_KEY = None)
     \<and> frame_payload m' = frame_payload m"
proof (induction rule: relay_path.induct)
  case (path_hop n m m1 now c1 o1 o2 peer degree g g')
  define f where "f = pr_message (last (mg_pending g'))"
  obtain g1 where f: "fst (prepare_hop m1 degree g1) = Some f"
    using path_hop_spec[OF path_hop.hyps(2)] unfolding f_def by metis
  note hop = prepare_hop_spec(1-6)[OF f]
  have "0 < unat (msg_ttl f)" using hop(5) by (simp add: word_less_nat_alt)
  then show ?case unfolding f_def[symmetric]
    using hop(1,2,3,6) prepare_hop_payload[OF f] path_hop.IH by auto
qed simp

subsection \<open>The reserve for the device's own frames\<close>

abbreviation send_level :: "mesh_relay_governor \<Rightarrow> rat" where
  "send_level g \<equiv> tb_tokens (mg_send_budget g)"

lemma take_send_token_keeps_reserve:
  assumes "mg_inv c g" "mesh_config_ok c" "of_nat k \<le> mg_own_reserve g" "of_nat k \<le> send_level g" "k \<le> 2 ^ 23"
  shows "of_nat k \<le> send_level (snd (take_send_token now g))"
proof -
  let ?b = "tb_refill now (mg_send_budget g)"
  have b: "tb_ok (mg_send_budget g)" using assms(1) by (simp add: mg_inv_def)
  have grown: "of_nat k \<le> tb_tokens ?b" using tb_refill_grows[OF b, of now] assms(4) by linarith
  show ?thesis
  proof (cases "fst (has_send_budget now g)")
    case True
    have "is_f32 (of_nat (Suc k))" using assms(5) by (intro nat_is_f32) simp
    then have "of_nat (Suc k) \<le> f32 (1 + mg_own_reserve g)" using assms(3) by (intro f32_ge) simp_all
    also have "\<dots> \<le> tb_tokens ?b" using True by (auto simp: has_send_budget_cases split: if_splits)
    finally have "of_nat k \<le> tb_tokens ?b - 1" by simp
    then have "of_nat k \<le> f32 (tb_tokens ?b - 1)" using assms(5) by (intro f32_ge nat_is_f32) simp_all
    moreover have "send_level (snd (take_send_token now g)) = max (f32 (tb_tokens ?b - 1)) 0"
      using True by (auto simp: take_send_token_def has_send_budget_cases count_transmission_def tb_spend_def split: if_splits)
    ultimately show ?thesis by simp
  next
    case False
    then have "send_level (snd (take_send_token now g)) = tb_tokens ?b"
      by (auto simp: take_send_token_def has_send_budget_cases count_deferred_def split: if_splits)
    then show ?thesis using grown by simp
  qed
qed

lemma take_send_token_reserve [simp]: "mg_own_reserve (snd (take_send_token now g)) = mg_own_reserve g"
  by (auto simp: take_send_token_def has_send_budget_cases count_transmission_def count_deferred_def split: bool.split)

lemma forwards_keep_reserve:
  assumes "mg_inv c g" "mesh_config_ok c" "of_nat k \<le> mg_own_reserve g" "of_nat k \<le> send_level g" "k \<le> 2 ^ 23"
  shows "mg_inv c (fold (\<lambda>t g. snd (take_send_token t g)) fs g) \<and> of_nat k \<le> send_level (fold (\<lambda>t g. snd (take_send_token t g)) fs g)"
  using assms
proof (induction fs arbitrary: g)
  case (Cons t fs)
  have "mg_inv c (snd (take_send_token t g))" by (rule take_send_token_ok[OF Cons.prems(1,2)])
  moreover have "of_nat k \<le> send_level (snd (take_send_token t g))" by (rule take_send_token_keeps_reserve[OF Cons.prems])
  ultimately show ?case using Cons.IH[of "snd (take_send_token t g)"] Cons.prems by simp
qed simp

lemma own_sends_succeed:
  assumes "mg_inv c g" "of_nat (length ts) \<le> send_level g" "length ts \<le> 2 ^ 23"
  shows "outputs take_own_send_token ts g = replicate (length ts) True"
  using assms
proof (induction ts arbitrary: g)
  case (Cons t ts)
  let ?b = "tb_refill t (mg_send_budget g)"
  have b: "tb_ok (mg_send_budget g)" using Cons.prems(1) by (simp add: mg_inv_def)
  have level: "of_nat (length ts) + 1 \<le> tb_tokens ?b" using tb_refill_grows[OF b, of t] Cons.prems(2) by simp
  have "f32 (1 + 0) = 1" using f32_id[OF is_f32_one] by simp
  then have take: "try_take_above 0 t (mg_send_budget g) = (True, ?b\<lparr>tb_tokens := f32 (tb_tokens ?b - 1)\<rparr>)"
    using level by (simp add: try_take_above_def Let_def)
  have "of_nat (length ts) \<le> f32 (tb_tokens ?b - 1)" using level Cons.prems(3) by (intro f32_ge nat_is_f32) simp_all
  then have "of_nat (length ts) \<le> send_level (snd (take_own_send_token t g))"
    using take by (simp add: take_own_send_token_def claim_transmission_def count_transmission_def)
  moreover have "fst (take_own_send_token t g)" using take by (simp add: take_own_send_token_def claim_transmission_def)
  ultimately show ?case using Cons.IH[OF take_own_send_token_ok[OF Cons.prems(1)]] Cons.prems(3) by simp
qed simp

lemma reserve_at_most_five: "mg_inv c g \<Longrightarrow> mg_own_reserve g \<le> 5"
  by (simp add: mg_inv_def)

subsection \<open>What a release does with each forward\<close>

abbreviation overdue :: "instant \<Rightarrow> pending_relay \<Rightarrow> bool" where
  "overdue now p \<equiv> RELAY_QUEUE_MAX_OVERDUE < now - pr_due_at p"

abbreviation forget_relays :: "(message_id \<Rightarrow> string) \<Rightarrow> pending_relay list \<Rightarrow> relay_seen_cache \<Rightarrow> relay_seen_cache" where
  "forget_relays idstr \<equiv> fold (\<lambda>p. rs_forget (idstr (msg_id (pr_message p))))"

lemma has_send_budget_seen [simp]: "mg_seen (snd (has_send_budget now g)) = mg_seen g"
  by (simp add: has_send_budget_cases)

lemma count_deferred_seen [simp]: "mg_seen (count_deferred g) = mg_seen g"
  by (simp add: count_deferred_def)

lemma release_loop_spec:
  "release_loop idstr now ps g = (due, abandoned, keep, g') \<Longrightarrow>
     abandoned = filter (overdue now) ps \<and> list_all (\<lambda>p. pr_due_at p \<le> now \<and> \<not> overdue now p) due
     \<and> list_all (\<lambda>p. \<not> overdue now p) keep
     \<and> mg_seen g' = forget_relays idstr (filter (\<lambda>p. pr_custody_target p = None) abandoned) (mg_seen g)"
proof (induction ps arbitrary: g due abandoned keep g')
  case (Cons p ps)
  obtain ok g1 where hb: "has_send_budget now g = (ok, g1)" by fastforce
  then have g1: "mg_seen g1 = mg_seen g" using has_send_budget_seen[of now g] by simp
  show ?case
  proof (cases "now < pr_due_at p \<or> overdue now p")
    case True
    then show ?thesis using Cons.prems Cons.IH
      by (fastforce simp: Let_def split: if_splits prod.splits)
  next
    case False
    then show ?thesis using Cons.prems Cons.IH hb g1 by (cases ok) (fastforce split: prod.splits)+
  qed
qed simp

subsection \<open>Choice of targets\<close>

lemma split_leaders_mset: "split_leaders cs ns = (l, r) \<Longrightarrow> mset ns = mset l + mset r"
  by (induction cs ns arbitrary: l r rule: split_leaders.induct) (auto split: if_splits prod.splits)

lemma split_leaders_carriers:
  "split_leaders cs ns = (l, r) \<Longrightarrow> distinct (map (\<lambda>n. snd (snd n)) l) \<and> (\<lambda>n. snd (snd n)) ` set l = (\<lambda>n. snd (snd n)) ` set ns - set cs"
proof (induction cs ns arbitrary: l r rule: split_leaders.induct)
  case (2 cs p q t ns)
  show ?case
  proof (cases "t \<in> set cs")
    case True
    then obtain r' where "split_leaders cs ns = (l, r')" using "2.prems" by (auto split: prod.splits)
    then show ?thesis using "2.IH"(1)[OF True] True by (simp add: insert_Diff_if)
  next
    case False
    then obtain l' r' where l': "split_leaders (t # cs) ns = (l', r')" "l = (p, q, t) # l'"
      using "2.prems" by (auto split: prod.splits)
    from "2.IH"(2)[OF False l'(1)] have "distinct (map (\<lambda>n. snd (snd n)) l')"
      "(\<lambda>n. snd (snd n)) ` set l' = (\<lambda>n. snd (snd n)) ` set ns - insert t (set cs)" by simp_all
    then show ?thesis using False l'(2) by (simp add: insert_Diff_if) blast
  qed
qed simp

text \<open>A leader comes before every other neighbor of its carrier.\<close>

lemma split_leaders_first:
  "split_leaders cs ns = (l, r) \<Longrightarrow> sorted_wrt R ns \<Longrightarrow> reflp R \<Longrightarrow> n \<in> set ns \<Longrightarrow> snd (snd n) \<notin> set cs \<Longrightarrow>
     \<exists>n'\<in>set l. snd (snd n') = snd (snd n) \<and> R n' n"
proof (induction cs ns arbitrary: l r rule: split_leaders.induct)
  case (2 cs p q t ns)
  show ?case
  proof (cases "t \<in> set cs")
    case True
    then obtain r' where "split_leaders cs ns = (l, r')"
      using "2.prems"(1) by (auto split: prod.splits)
    moreover have "n \<in> set ns" using "2.prems"(4,5) True by auto
    ultimately show ?thesis using "2.IH"(1) True "2.prems"(2,3,5) by simp
  next
    case False
    then obtain l' r' where l': "split_leaders (t # cs) ns = (l', r')" "l = (p, q, t) # l'"
      using "2.prems"(1) by (auto split: prod.splits)
    show ?thesis
    proof (cases "snd (snd n) = t")
      case True
      have "R n n" using "2.prems"(3) by (rule reflpD)
      then show ?thesis using l'(2) True "2.prems"(2,4) by auto
    next
      case neq: False
      then have "n \<in> set ns" using "2.prems"(4) by auto
      then show ?thesis using "2.IH"(2)[OF _ l'(1)] False neq "2.prems"(2,3,5) l'(2) by fastforce
    qed
  qed
qed simp

lemma select_mset:
  assumes "fanout < length cs" "split_leaders [] (sort_key key cs) = (l, r)"
  shows "set (l @ r) = set cs" "length (l @ r) = length cs" "mset (l @ r) = mset cs"
  using split_leaders_mset[OF assms(2)] by (simp_all, metis set_mset_mset set_mset_union mset_sort, metis mset_sort size_mset size_union)

abbreviation candidates_of :: "neighbor list \<Rightarrow> string list \<Rightarrow> neighbor list" where
  "candidates_of neighbors exclude \<equiv> filter (\<lambda>(peer, _, _). peer \<notin> set exclude) neighbors"

abbreviation target_rank :: "(string list \<Rightarrow> nat) \<Rightarrow> string \<Rightarrow> string \<Rightarrow> neighbor \<Rightarrow> int \<times> nat" where
  "target_rank hash message_id me \<equiv> (\<lambda>(peer, quality, _). (- int quality, hash [message_id, peer, me]))"

lemma select_within_fanout_cases:
  obtains (all) "length (candidates_of neighbors exclude) \<le> fanout"
      "select_within_fanout hash neighbors exclude i fanout g = map fst (candidates_of neighbors exclude)"
    | (some) l r where "fanout < length (candidates_of neighbors exclude)"
      "split_leaders [] (sort_key (target_rank hash i (mg_local_id g)) (candidates_of neighbors exclude)) = (l, r)"
      "select_within_fanout hash neighbors exclude i fanout g = map fst (take fanout (l @ r))"
proof (cases "length (candidates_of neighbors exclude) \<le> fanout")
  case True
  then show thesis by (intro all) (simp_all add: select_within_fanout_def Let_def)
next
  case False
  obtain l r where lr: "split_leaders [] (sort_key (target_rank hash i (mg_local_id g)) (candidates_of neighbors exclude)) = (l, r)" by fastforce
  show thesis using False lr by (intro some[OF _ lr]) (simp_all add: select_within_fanout_def Let_def)
qed

lemma select_size:
  "length (select_within_fanout hash neighbors exclude i fanout g) = min fanout (length (candidates_of neighbors exclude))"
proof (rule select_within_fanout_cases[where neighbors = neighbors and exclude = exclude and fanout = fanout and hash = hash and i = i and g = g], goal_cases)
  case (2 l r)
  show ?case unfolding 2(3) length_map length_take select_mset(2)[OF 2(1,2)] by simp
qed simp

lemma select_members:
  "set (select_within_fanout hash neighbors exclude i fanout g) \<subseteq> fst ` set neighbors - set exclude"
proof (rule select_within_fanout_cases[where neighbors = neighbors and exclude = exclude and fanout = fanout and hash = hash and i = i and g = g], goal_cases)
  case 1
  then show ?case by auto
next
  case (2 l r)
  have "set (take fanout (l @ r)) \<subseteq> set (candidates_of neighbors exclude)"
    using set_take_subset[of fanout "l @ r"] select_mset(1)[OF 2(1,2)] by simp
  then show ?case unfolding 2(3) by auto
qed

lemma select_distinct:
  assumes "distinct (map fst neighbors)"
  shows "distinct (select_within_fanout hash neighbors exclude i fanout g)"
proof (rule select_within_fanout_cases[where neighbors = neighbors and exclude = exclude and fanout = fanout and hash = hash and i = i and g = g], goal_cases)
  case 1
  then show ?case using assms by (simp add: distinct_map_filter)
next
  case (2 l r)
  have "mset (map fst (l @ r)) = mset (map fst (candidates_of neighbors exclude))" using select_mset(3)[OF 2(1,2)] by (simp only: mset_map)
  then have "distinct (map fst (l @ r))" using assms by (metis distinct_map_filter mset_eq_imp_distinct_iff)
  then show ?case unfolding 2(3) by (metis distinct_take take_map)
qed

lemma select_leader:
  assumes "card ((\<lambda>n. snd (snd n)) ` set (candidates_of neighbors exclude)) \<le> fanout" "(p, q, t) \<in> set (candidates_of neighbors exclude)"
  shows "\<exists>p' q'. p' \<in> set (select_within_fanout hash neighbors exclude i fanout g) \<and> (p', q', t) \<in> set neighbors \<and> q \<le> q'"
proof (rule select_within_fanout_cases[where neighbors = neighbors and exclude = exclude and fanout = fanout and hash = hash and i = i and g = g], goal_cases)
  case 1
  then show ?case using assms(2) by force
next
  case (2 l r)
  let ?R = "\<lambda>a b. target_rank hash i (mg_local_id g) a \<le> target_rank hash i (mg_local_id g) b"
  have carriers: "distinct (map (\<lambda>n. snd (snd n)) l)" "(\<lambda>n. snd (snd n)) ` set l = (\<lambda>n. snd (snd n)) ` set (candidates_of neighbors exclude)"
    using split_leaders_carriers[OF 2(2)] by simp_all
  have "length l = card ((\<lambda>n. snd (snd n)) ` set l)" using distinct_card[OF carriers(1)] by simp
  then have l: "length l \<le> fanout" using carriers(2) assms(1) by simp
  have "sorted_wrt ?R (sort_key (target_rank hash i (mg_local_id g)) (candidates_of neighbors exclude))"
    using sorted_sort_key[of "target_rank hash i (mg_local_id g)"] by (simp add: sorted_map)
  moreover have "reflp ?R" by (simp add: reflp_def)
  ultimately obtain n' where n': "n' \<in> set l" "snd (snd n') = t" "?R n' (p, q, t)"
    using split_leaders_first[OF 2(2), of ?R "(p, q, t)"] assms(2) by auto
  obtain p' q' where pq: "n' = (p', q', t)" using n'(2) by (cases n') auto
  have "q \<le> q'" using n'(3) pq by (auto simp: less_eq_prod_def)
  moreover have "(p', q', t) \<in> set (take fanout (l @ r))" using n'(1) pq l by simp
  then have "p' \<in> set (select_within_fanout hash neighbors exclude i fanout g)" unfolding 2(3) by force
  moreover have "(p', q', t) \<in> set neighbors" using select_mset(1)[OF 2(1,2)] n'(1) pq by auto
  ultimately show ?case by blast
qed

lemma biased_fanout_range:
  assumes "mesh_config_ok (mg_config g)" "mc_fanout (mg_config g) \<le> 2 ^ 24"
  shows "1 \<le> biased_fanout g \<and> biased_fanout g \<le> mc_fanout (mg_config g)"
proof -
  let ?n = "mc_fanout (mg_config g)"
  note ok = mesh_config_okD[OF assms(1)]
  have pos: "1 \<le> ?n" using assms(1) by (auto simp: mesh_config_ok_def validate_mesh_relay_def split: if_splits)
  have n: "is_f32 (of_nat ?n)" by (rule nat_is_f32[OF assms(2)])
  have b: "0 \<le> bias_scale g" "bias_scale g \<le> 1" using bias_scale_range[of g] ok(5,6,9) by auto
  have "f32 (of_nat ?n) * bias_scale g \<le> of_nat ?n"
    using b mult_left_mono[of "bias_scale g" 1 "of_nat ?n"] f32_id[OF n] by simp
  then have x: "0 \<le> f32 (f32 (of_nat ?n) * bias_scale g)" "f32 (f32 (of_nat ?n) * bias_scale g) \<le> of_nat ?n"
    using b f32_le[OF n] by simp_all
  have "round_away (f32 (f32 (of_nat ?n) * bias_scale g)) \<le> int ?n" using x unfolding round_away_def
    by (simp add: floor_le_iff)
  then have "as_uint 64 (of_int (round_away (f32 (f32 (of_nat ?n) * bias_scale g)))) \<le> ?n"
    by (auto simp: as_uint_def trunc_def nat_le_iff min_le_iff_disj)
  then show ?thesis using pos by (simp add: biased_fanout_def)
qed

subsection \<open>Configurations that pass the check and forward nothing\<close>

lemma ceiling_one_refuses:
  assumes "hop_ceiling (mg_config g) degree = 1"
  shows "fst (prepare_hop m degree g) = None"
proof (rule ccontr)
  assume "fst (prepare_hop m degree g) \<noteq> None"
  then obtain f where "fst (prepare_hop m degree g) = Some f" by blast
  from prepare_hop_spec(4,5)[OF this] show False using assms by (simp add: word_less_nat_alt)
qed

lemma half_is_f32: "is_f32 (1 / 2)" "is_f32 (3 / 2)"
proof -
  have "f32 (1 / 2) = 1 / 2" "f32 (3 / 2) = 3 / 2" by code_simp+
  then show "is_f32 (1 / 2)" "is_f32 (3 / 2)" using f32_is_f32[of "1 / 2"] f32_is_f32[of "3 / 2"]
    by (metis divide_nonneg_nonneg zero_le_numeral zero_le_one)+
qed

lemma small_burst_no_budget:
  assumes "mesh_config_ok c" "mc_burst c < 3 / 2" "mg_inv c g"
  shows "\<not> fst (has_send_budget now g)"
proof -
  let ?r = "mg_own_reserve g"
  have r: "?r = min 5 (f32 (mc_burst c / 2))" using assms(3) by (simp add: mg_inv_def)
  have "tb_ok (tb_refill now (mg_send_budget g))" "tb_capacity (mg_send_budget g) = mc_burst c"
    using assms(3) tb_refill_ok by (auto simp: mg_inv_def)
  then have level: "tb_tokens (tb_refill now (mg_send_budget g)) \<le> mc_burst c"
    unfolding tb_ok_def by (metis tb_refill_capacity)
  have "mc_burst c < f32 (1 + ?r)"
  proof (cases "mc_burst c < 1")
    case True
    then show ?thesis using threshold_ge_one[OF reserve_nonneg[OF assms(3,1)]] by linarith
  next
    case False
    then have "1 / 2 \<le> f32 (mc_burst c / 2)" using half_is_f32 by (intro f32_ge) simp_all
    then have "3 / 2 \<le> f32 (1 + ?r)" using half_is_f32 r by (intro f32_ge) simp_all
    then show ?thesis using assms(2) by linarith
  qed
  then show ?thesis using level by (simp add: has_send_budget_cases)
qed

lemma small_burst_no_release:
  assumes "mesh_config_ok c" "mc_burst c < 3 / 2"
  shows "mg_inv c g \<Longrightarrow> fst (release_loop idstr now ps g) = []"
proof (induction ps arbitrary: g)
  case (Cons p ps)
  obtain g1 where hb: "has_send_budget now g = (False, g1)"
    using small_burst_no_budget[OF assms Cons.prems, of now] by (cases "has_send_budget now g") simp
  then have "mg_inv c g1" using has_send_budget_ok[OF Cons.prems, of now] by simp
  then have "fst (release_loop idstr now ps (count_deferred g1)) = []" by (intro Cons.IH) simp
  moreover have "fst (release_loop idstr now ps (g\<lparr>mg_seen := rs_forget i (mg_seen g), mg_counters := n\<rparr>)) = []" for i n
    using Cons.prems by (intro Cons.IH) (simp add: mg_inv_def rs_inv_forget)
  ultimately show ?case using Cons.IH[OF Cons.prems] hb by (auto simp: Let_def split: prod.splits) (metis fst_conv)
qed simp

lemma small_burst_silent:
  assumes "mesh_config_ok c" "mc_burst c < 3 / 2" "mg_inv c g"
  shows "fst (fst (release_due idstr now g)) = [] \<and> \<not> fst (take_send_token now g)"
proof
  obtain due abandoned keep g' where
    l: "release_loop idstr now (mg_pending g) (g\<lparr>mg_seen := rs_expire now (mg_seen g), mg_pending := []\<rparr>) = (due, abandoned, keep, g')"
    and r: "release_due idstr now g = ((due, abandoned), g'\<lparr>mg_pending := keep\<rparr>)" by (rule release_due_parts)
  have "mg_inv c (g\<lparr>mg_seen := rs_expire now (mg_seen g), mg_pending := []\<rparr>)"
    using assms(3) by (simp add: mg_inv_def rs_inv_expire)
  from small_burst_no_release[OF assms(1,2) this, of idstr now "mg_pending g"] show "fst (fst (release_due idstr now g)) = []"
    using l r by simp
  show "\<not> fst (take_send_token now g)"
    using small_burst_no_budget[OF assms, of now] by (cases "has_send_budget now g") (simp add: take_send_token_def)
qed

subsection \<open>Properties\<close>

definition relay_example :: message where
  "relay_example = (message_from_parts [7] ''alice'' ''bob'' ''chat'' ''hi'' 5)
     \<lparr>msg_ttl := 8, msg_hop_count := 0, msg_metadata := [(CUSTODY_META_KEY, ''data''), (''k'', ''v'')]\<rparr>"

text \<open>C27. However the devices along the way are configured and whatever state their governors are in, a
  frame is carried at most sixteen hops counted from its origin and fewer than its own hop budget: every
  admission spends one hop of the budget and counts one, so every way a frame takes ends.  Nothing of the
  frame changes on the way but the two hop fields and the metadata, and a copy that has been carried
  asks no one for custody.\<close>

theorem relay_path_ends:
  assumes "relay_path hash idstr n m m'"
  shows "n \<le> 16 - unat (msg_hop_count m) \<and> (n = 0 \<or> n < unat (msg_ttl m))
    \<and> unat (msg_hop_count m') = unat (msg_hop_count m) + n \<and> unat (msg_ttl m') + n \<le> unat (msg_ttl m)
    \<and> (n = 0 \<or> map_of (msg_metadata m') CUSTODY_META_KEY = None)
    \<and> frame_payload m' = frame_payload m"
  using relay_path_spec[OF assms] by auto

theorem relay_path_ends_witness:
  "\<exists>m'. relay_path (\<lambda>_. 0) (\<lambda>_. ''id'') 1 relay_example m' \<and> unat (msg_hop_count m') = 1
     \<and> map_of (msg_metadata m') CUSTODY_META_KEY = None"
proof -
  let ?g = "mg_with_config 0 ''me'' mesh_relay_config_default"
  let ?a = "admit (\<lambda>_. 0) (\<lambda>_. ''id'') 1 1 1 1 relay_example None 2 ?g"
  have "fst ?a = Queued"
    by (simp add: admit_def admit_new_def admit_hop_def admit_enqueue_def arrival_token_def queue_room_def prepare_hop_def
      hop_ceiling_def TTL_decrement_def increment_hop_def HopCount_increment_def relay_example_def mg_with_config_def
      mesh_relay_config_default_def rs_with_config_def rs_contains_def)
  then have "?a = (Queued, snd ?a)" by (metis prod.collapse)
  from path_hop[OF path_start this] obtain m' where path: "relay_path (\<lambda>_. 0) (\<lambda>_. ''id'') 1 relay_example m'"
    by (metis One_nat_def)
  moreover have "unat (msg_hop_count relay_example) = 0" by (simp add: relay_example_def)
  ultimately show ?thesis using relay_path_ends[OF path] by auto
qed

text \<open>C30. Whatever sequence of arrivals, redeliveries, releases, sends, condition reports and clean-ups a
  governor built from a checked configuration goes through, its queue stays within the configured
  capacity, its table of neighbors within 256 entries with one bucket each, every bucket between empty
  and its capacity, the forwarding share within the shared burst, and the suppression cache in lockstep
  with its queue.\<close>

theorem governor_stays_bounded:
  assumes "mesh_config_ok c"
  shows "let g = fold (mr_step hash idstr) ops (mg_with_config now local_id c) in
    length (mg_pending g) \<le> mc_queue_capacity c \<and> length (mg_peer_budgets g) \<le> MAX_RELAY_RATE_PEERS
    \<and> distinct (map fst (mg_peer_budgets g))
    \<and> 0 \<le> send_level g \<and> send_level g \<le> mc_burst c
    \<and> 0 \<le> tb_tokens (mg_forward_budget g) \<and> tb_tokens (mg_forward_budget g) \<le> mc_burst c
    \<and> list_all (\<lambda>(_, b). 0 \<le> tb_tokens b \<and> tb_tokens b \<le> mc_peer_burst c) (mg_peer_budgets g)
    \<and> rs_inv (mg_seen g)"
  using governor_inv[OF assms, of hash idstr ops now local_id]
  by (auto simp: Let_def mg_inv_def tb_ok_def hm_inv_def list_all_iff)

theorem governor_stays_bounded_witness:
  "length (mg_pending (fold (mr_step (\<lambda>_. 0) (\<lambda>_. ''id'')) [MrAdmit 1 1 1 1 relay_example (Some ''alice'') 2, MrRelease 5]
     (mg_with_config 0 ''me'' mesh_relay_config_default))) \<le> 256"
proof -
  have "mc_queue_capacity mesh_relay_config_default = 256" by (simp add: mesh_relay_config_default_def)
  then show ?thesis
    using governor_stays_bounded[OF mesh_config_default_ok, of "\<lambda>_. 0" "\<lambda>_. ''id''"
      "[MrAdmit 1 1 1 1 relay_example (Some ''alice'') 2, MrRelease 5]" 0 "''me''"] unfolding Let_def by argo
qed

text \<open>C29. Admission remembers exactly what it takes on.  A refused frame, for whatever reason, leaves the
  suppression cache and the frames in the queue as they were, so that another copy of it can still be
  carried; a frame that is queued is recorded, and what waits is a copy with one more hop, made under
  the governor's own ceiling, due after the jitter and keeping the deposit request it came with.\<close>

theorem admission_remembers_what_it_queues:
  "case admit hash idstr now c1 o1 o2 m peer degree g of
     (Rejected r, g') \<Rightarrow> mg_seen g' = mg_seen g \<and> map pr_message (mg_pending g') = map pr_message (mg_pending g)
   | (Queued, g') \<Rightarrow> hm_contains (idstr (msg_id m)) (rs_entries (mg_seen g'))
       \<and> (let p = last (mg_pending g') in msg_id (pr_message p) = msg_id m \<and> msg_content (pr_message p) = msg_content m
           \<and> unat (msg_hop_count (pr_message p)) = Suc (unat (msg_hop_count m))
           \<and> unat (msg_ttl (pr_message p)) < unat (hop_ceiling (mg_config g) degree)
           \<and> pr_arrival_peer p = peer \<and> now \<le> pr_due_at p \<and> pr_custody_target p = None
           \<and> pr_custody_request p = map_of (msg_metadata m) CUSTODY_META_KEY)"
proof -
  obtain a g' where a: "admit hash idstr now c1 o1 o2 m peer degree g = (a, g')" by fastforce
  show ?thesis
  proof (cases a)
    case Queued
    then obtain f g1 g2 where f: "fst (prepare_hop m degree g1) = Some f" "mg_config g1 = mg_config g"
      "last (mg_pending g') = new_relay hash idstr now m f peer degree g2"
      and seen: "hm_contains (idstr (msg_id m)) (rs_entries (mg_seen g'))"
      using admit_result[OF a] by auto
    note hop = prepare_hop_spec[OF f(1)]
    have "msg_id f = msg_id m" "msg_content f = msg_content m" by (subst hop(7), simp)+
    then show ?thesis using a Queued f(2,3) seen hop(2,4) by (simp add: new_relay_def Let_def)
  qed (use admit_result[OF a] a in auto)
qed

text \<open>C28. Carrying other people's traffic never starves a device of its own: from a level that covers
  them, after any number of attempts to forward at any times, as many own frames as the reserve counts
  get a token, one after the other.  The arithmetic is that of \<open>f32\<close>.\<close>

theorem own_traffic_not_starved:
  assumes "mesh_config_ok c" "mg_inv c g" "of_nat (length ts) \<le> mg_own_reserve g" "of_nat (length ts) \<le> send_level g"
  shows "outputs take_own_send_token ts (fold (\<lambda>t g. snd (take_send_token t g)) fs g) = replicate (length ts) True"
proof -
  have "of_nat (length ts) \<le> (of_nat 5 :: rat)" using assms(3) reserve_at_most_five[OF assms(2)] by simp
  then have "length ts \<le> 5" by (simp only: of_nat_le_iff)
  then have k: "length ts \<le> 2 ^ 23" by simp
  show ?thesis using forwards_keep_reserve[OF assms(2,1,3,4) k, of fs] own_sends_succeed[OF _ _ k] by blast
qed

theorem own_traffic_not_starved_witness:
  "outputs take_own_send_token [9, 9, 9, 9, 9] (fold (\<lambda>t g. snd (take_send_token t g)) (replicate 40 8)
     (mg_with_config 0 ''me'' mesh_relay_config_default)) = replicate 5 True"
proof -
  let ?g = "mg_with_config 0 ''me'' mesh_relay_config_default"
  have "of_nat (length [9, 9, 9, 9, 9 :: nat]) \<le> mg_own_reserve ?g" "of_nat (length [9, 9, 9, 9, 9 :: nat]) \<le> send_level ?g"
    by code_simp+
  note run = own_traffic_not_starved[OF mesh_config_default_ok mg_inv_new[OF mesh_config_default_ok] this, of "replicate 40 8"]
  have "length [9, 9, 9, 9, 9 :: nat] = 5" by simp
  then show ?thesis using run by metis
qed

text \<open>C31. A release splits the queue: every forward is handed out, abandoned or kept, none twice.  Abandoned
  are exactly the forwards more than five seconds past their due time, measured from the due time, so
  never for the delay it was queued with; handed out are only forwards that are due.  Apart from expiry, the
  suppression cache loses exactly the ids of the abandoned ordinary forwards, never that of a held one.\<close>

theorem release_splits_queue:
  "case release_due idstr now g of ((due, abandoned), g') \<Rightarrow>
     mset (mg_pending g) = mset due + mset abandoned + mset (mg_pending g')
     \<and> abandoned = filter (\<lambda>p. RELAY_QUEUE_MAX_OVERDUE < now - pr_due_at p) (mg_pending g)
     \<and> list_all (\<lambda>p. pr_due_at p \<le> now \<and> now - pr_due_at p \<le> RELAY_QUEUE_MAX_OVERDUE) due
     \<and> mg_seen g' = fold (\<lambda>p. rs_forget (idstr (msg_id (pr_message p))))
         (filter (\<lambda>p. pr_custody_target p = None) abandoned) (rs_expire now (mg_seen g))"
proof -
  obtain due abandoned keep g' where
    l: "release_loop idstr now (mg_pending g) (g\<lparr>mg_seen := rs_expire now (mg_seen g), mg_pending := []\<rparr>) = (due, abandoned, keep, g')"
    and r: "release_due idstr now g = ((due, abandoned), g'\<lparr>mg_pending := keep\<rparr>)" by (rule release_due_parts)
  show ?thesis using release_loop_mset[OF l] release_loop_spec[OF l] r by (simp add: not_less)
qed

text \<open>C32. The neighbors chosen for a forward: as many as the fan-out allows, between one and the
  configured width, never one that must not get the frame back, none twice; and where the fan-out
  covers the carriers at hand, every carrier gets the frame over one of its strongest links.\<close>

theorem targets_cover_carriers:
  assumes "mesh_config_ok (mg_config g)" "mc_fanout (mg_config g) \<le> 2 ^ 24" "distinct (map fst neighbors)"
    "card (set (map (\<lambda>(_, _, t). t) neighbors)) \<le> biased_fanout g"
  shows "let ts = select_targets hash neighbors exclude i g in
    length ts \<le> mc_fanout (mg_config g) \<and> (length ts = length (filter (\<lambda>n. fst n \<notin> set exclude) neighbors) \<or> 1 \<le> length ts)
    \<and> set ts \<subseteq> fst ` set neighbors - set exclude \<and> distinct ts
    \<and> list_all (\<lambda>(p, q, t). p \<in> set exclude \<or> list_ex (\<lambda>(p', q', t'). p' \<in> set ts \<and> t' = t \<and> q \<le> q') neighbors) neighbors"
proof -
  let ?c = "candidates_of neighbors exclude" and ?ts = "select_targets hash neighbors exclude i g"
  note fan = biased_fanout_range[OF assms(1,2)]
  have size: "length ?ts = min (biased_fanout g) (length ?c)" unfolding select_targets_def by (rule select_size)
  have c: "?c = filter (\<lambda>n. fst n \<notin> set exclude) neighbors" by (rule filter_cong) auto
  have "(\<lambda>n. snd (snd n)) ` set ?c \<subseteq> set (map (\<lambda>(_, _, t). t) neighbors)" by force
  then have card: "card ((\<lambda>n. snd (snd n)) ` set ?c) \<le> biased_fanout g"
    using card_mono[of "set (map (\<lambda>(_, _, t). t) neighbors)"] assms(4) by (meson List.finite_set order_trans)
  have lead: "list_ex (\<lambda>(p', q', t'). p' \<in> set ?ts \<and> t' = t \<and> q \<le> q') neighbors"
    if "(p, q, t) \<in> set neighbors" "p \<notin> set exclude" for p q t
  proof -
    have "(p, q, t) \<in> set ?c" using that by simp
    then show ?thesis using select_leader[OF card, of p q t hash i g] unfolding select_targets_def[symmetric]
      by (fastforce simp: list_ex_iff)
  qed
  have "list_all (\<lambda>(p, q, t). p \<in> set exclude \<or> list_ex (\<lambda>(p', q', t'). p' \<in> set ?ts \<and> t' = t \<and> q \<le> q') neighbors) neighbors"
    using lead by (auto simp: list_all_iff)
  moreover have "set ?ts \<subseteq> fst ` set neighbors - set exclude" "distinct ?ts"
    unfolding select_targets_def by (rule select_members, rule select_distinct[OF assms(3)])
  ultimately show ?thesis using size fan c unfolding Let_def by auto
qed

theorem targets_cover_carriers_witness:
  "let g = mg_with_config 0 ''me'' mesh_relay_config_default;
       ns = [(''a'', 90, TtBLE), (''b'', 80, TtBLE), (''c'', 70, TtBLE), (''d'', 60, TtBLE), (''s'', 50, TtWiFiDirect)]
   in ''s'' \<in> set (select_targets (\<lambda>_. 0) ns [''a''] ''id'' g) \<and> ''a'' \<notin> set (select_targets (\<lambda>_. 0) ns [''a''] ''id'' g)"
proof -
  let ?g = "mg_with_config 0 ''me'' mesh_relay_config_default"
  let ?ns = "[(''a'', 90, TtBLE), (''b'', 80, TtBLE), (''c'', 70, TtBLE), (''d'', 60, TtBLE), (''s'', 50, TtWiFiDirect)] :: neighbor list"
  have cfg: "mg_config ?g = mesh_relay_config_default" by (simp add: mg_with_config_def)
  have "biased_fanout ?g = 3" "mc_fanout (mg_config ?g) \<le> 2 ^ 24" by code_simp+
  then have h: "mesh_config_ok (mg_config ?g)" "mc_fanout (mg_config ?g) \<le> 2 ^ 24" "distinct (map fst ?ns)"
    "card (set (map (\<lambda>(_, _, t). t) ?ns)) \<le> biased_fanout ?g"
    using mesh_config_default_ok cfg by (simp_all add: card_insert_if)
  show ?thesis using targets_cover_carriers[OF h, of "\<lambda>_. 0" "[''a'']" "''id''"] by (simp add: Let_def) blast
qed

text \<open>C33. A burst below one and a half passes the configuration check and still stops forwarding for
  good: half of it is set aside for the device's own frames, which leaves less than the one token a
  forward needs.  No release ever hands out a forward and no forward ever gets a token, whatever the
  governor has been through.\<close>

theorem checked_burst_forwards_nothing:
  assumes "mesh_config_ok c" "mc_burst c < 3 / 2"
  shows "let g = fold (mr_step hash idstr) ops (mg_with_config now local_id c) in
    fst (fst (release_due idstr t g)) = [] \<and> fst (take_send_token t g) = False"
  using small_burst_silent[OF assms governor_inv[OF assms(1)]] by (simp add: Let_def)

theorem checked_burst_forwards_nothing_witness:
  "let c = mesh_relay_config_default\<lparr>mc_burst := 1\<rparr> in validate_mesh_relay c = Inr ()
     \<and> fst (take_send_token 3600000000000 (mg_with_config 0 ''me'' c)) = False"
proof -
  let ?c = "mesh_relay_config_default\<lparr>mc_burst := 1\<rparr>"
  have h: "mesh_config_ok ?c" "mc_burst ?c < 3 / 2" "validate_mesh_relay ?c = Inr ()" by code_simp+
  show ?thesis
    using checked_burst_forwards_nothing[OF h(1,2), where idstr = "\<lambda>_. []" and t = 3600000000000 and hash = "\<lambda>_. 0" and ops = "[]" and now = 0 and local_id = "''me''"] h(3) by (simp add: Let_def)
qed



end
