(* ===== verification/Custody.thy ===== *)
theory Custody
  imports Core_Types Control_Frames
begin

text \<open>
  Custody: holding a neighbor's frame for hours (\<open>offline-protocol/src/protocol/custody.rs\<close>), the part of
  the configuration check that concerns it (\<open>config.rs\<close>, \<open>validate_custody\<close>), and the receipt body.

  The store keeps the frames, the order they came in, and the usage per depositor and in all.  Wall
  clock readings are 64-bit words of milliseconds, \<open>usize\<close> counts are natural numbers with the
  saturation of the byte sums written out.  The iteration order of the entries is that of their list.
  \<open>serde_json\<close> is a parameter of the receipt codec.
\<close>

subsection \<open>Configuration\<close>

datatype overflow_policy = DropOldest | DropNewest

record custody_config =
  cc_enabled :: bool
  cc_hold_ms :: nat
  cc_max_entries_per_depositor :: nat
  cc_max_bytes_per_depositor :: nat
  cc_max_entries :: nat
  cc_max_bytes :: nat
  cc_stranger_max_entries :: nat
  cc_stranger_max_bytes :: nat
  cc_overflow_policy :: overflow_policy

definition custody_config_default :: custody_config where
  "custody_config_default = \<lparr>cc_enabled = False, cc_hold_ms = 6 * 60 * 60 * 1000,
     cc_max_entries_per_depositor = 64, cc_max_bytes_per_depositor = 2 * 1024 * 1024,
     cc_max_entries = 512, cc_max_bytes = 16 * 1024 * 1024,
     cc_stranger_max_entries = 0, cc_stranger_max_bytes = 0, cc_overflow_policy = DropOldest\<rparr>"

abbreviation CUSTODY_MIN_BYTES_PER_DEPOSITOR :: nat where "CUSTODY_MIN_BYTES_PER_DEPOSITOR \<equiv> 64 * 1024"

datatype custody_config_error =
    HoldZero | HoldOutlivesOutbox nat nat | DepositorQuotaZero | DepositorBytesSmall nat
  | StoreBelowDepositor | StrangerHalfOn | StrangerBytesSmall nat | StoreBelowStranger

definition validate_custody :: "nat \<Rightarrow> custody_config \<Rightarrow> custody_config_error + unit" where
  "validate_custody outbox_lifetime_ms c =
     (if cc_hold_ms c = 0 then Inl HoldZero
      else if \<not> cc_enabled c then Inr ()
      else if outbox_lifetime_ms \<le> cc_hold_ms c then Inl (HoldOutlivesOutbox (cc_hold_ms c) outbox_lifetime_ms)
      else if cc_max_entries_per_depositor c = 0 \<or> cc_max_bytes_per_depositor c = 0 then Inl DepositorQuotaZero
      else if cc_max_bytes_per_depositor c < CUSTODY_MIN_BYTES_PER_DEPOSITOR
      then Inl (DepositorBytesSmall (cc_max_bytes_per_depositor c))
      else if cc_max_entries c < cc_max_entries_per_depositor c \<or> cc_max_bytes c < cc_max_bytes_per_depositor c
      then Inl StoreBelowDepositor
      else let stranger_on = (0 < cc_stranger_max_entries c \<or> 0 < cc_stranger_max_bytes c) in
      if stranger_on \<and> (cc_stranger_max_entries c = 0 \<or> cc_stranger_max_bytes c = 0) then Inl StrangerHalfOn
      else if stranger_on \<and> cc_stranger_max_bytes c < CUSTODY_MIN_BYTES_PER_DEPOSITOR
      then Inl (StrangerBytesSmall (cc_stranger_max_bytes c))
      else if cc_max_entries c < cc_stranger_max_entries c \<or> cc_max_bytes c < cc_stranger_max_bytes c
      then Inl StoreBelowStranger
      else Inr ())"

subsection \<open>The store\<close>

abbreviation CUSTODY_CLASS_DATA :: string where "CUSTODY_CLASS_DATA \<equiv> ''data''"
abbreviation (input) CUSTODY_RECEIPT_VERSION :: nat where "CUSTODY_RECEIPT_VERSION \<equiv> 1"
abbreviation MAX_CUSTODY_NEIGHBOURS_PER_HOLD :: nat where "MAX_CUSTODY_NEIGHBOURS_PER_HOLD \<equiv> 64"
abbreviation ENCRYPTED_PREFIX :: string where "ENCRYPTED_PREFIX \<equiv> ''__MLS_ENC__''"
abbreviation CUSTODY_RECEIPT_PREFIX :: string where "CUSTODY_RECEIPT_PREFIX \<equiv> ''__CUSTODY_RECEIPT__''"

datatype custody_refusal =
    NoRequest | Disabled | UnknownClass | NotSealed | UnprovenPeer | NotDepositor | CustodyDuplicate
  | StrangerRefused | Battery | DepositorFull | StoreFull

fun refusal_str :: "custody_refusal \<Rightarrow> string" where
  "refusal_str Disabled = ''disabled''"
| "refusal_str NoRequest = ''no_request''"
| "refusal_str UnknownClass = ''unknown_class''"
| "refusal_str NotSealed = ''not_sealed''"
| "refusal_str UnprovenPeer = ''unproven_peer''"
| "refusal_str NotDepositor = ''not_depositor''"
| "refusal_str CustodyDuplicate = ''duplicate''"
| "refusal_str StrangerRefused = ''stranger_refused''"
| "refusal_str DepositorFull = ''depositor_full''"
| "refusal_str StoreFull = ''store_full''"
| "refusal_str Battery = ''battery''"

record custody_stats =
  st_held :: nat
  st_held_bytes :: nat
  st_accepted :: nat
  st_delivered :: nat
  st_re_originated :: nat
  st_expired :: nat
  st_duplicates :: nat
  st_evicted :: nat
  st_receipts_sent :: nat
  st_receipts_dropped :: nat
  st_receipts_received :: nat
  st_receipts_ignored :: nat
  st_refused_disabled :: nat
  st_refused_no_request :: nat
  st_refused_unknown_class :: nat
  st_refused_not_sealed :: nat
  st_refused_unproven_peer :: nat
  st_refused_not_depositor :: nat
  st_refused_stranger :: nat
  st_refused_depositor_full :: nat
  st_refused_store_full :: nat
  st_refused_battery :: nat

definition custody_stats_zero :: custody_stats where
  "custody_stats_zero = \<lparr>st_held = 0, st_held_bytes = 0, st_accepted = 0, st_delivered = 0, st_re_originated = 0,
     st_expired = 0, st_duplicates = 0, st_evicted = 0, st_receipts_sent = 0, st_receipts_dropped = 0,
     st_receipts_received = 0, st_receipts_ignored = 0, st_refused_disabled = 0, st_refused_no_request = 0,
     st_refused_unknown_class = 0, st_refused_not_sealed = 0, st_refused_unproven_peer = 0,
     st_refused_not_depositor = 0, st_refused_stranger = 0, st_refused_depositor_full = 0,
     st_refused_store_full = 0, st_refused_battery = 0\<rparr>"

fun stats_count :: "custody_refusal \<Rightarrow> custody_stats \<Rightarrow> custody_stats" where
  "stats_count Disabled s = s\<lparr>st_refused_disabled := sat_add64 (st_refused_disabled s) 1\<rparr>"
| "stats_count NoRequest s = s\<lparr>st_refused_no_request := sat_add64 (st_refused_no_request s) 1\<rparr>"
| "stats_count UnknownClass s = s\<lparr>st_refused_unknown_class := sat_add64 (st_refused_unknown_class s) 1\<rparr>"
| "stats_count NotSealed s = s\<lparr>st_refused_not_sealed := sat_add64 (st_refused_not_sealed s) 1\<rparr>"
| "stats_count UnprovenPeer s = s\<lparr>st_refused_unproven_peer := sat_add64 (st_refused_unproven_peer s) 1\<rparr>"
| "stats_count NotDepositor s = s\<lparr>st_refused_not_depositor := sat_add64 (st_refused_not_depositor s) 1\<rparr>"
| "stats_count CustodyDuplicate s = s\<lparr>st_duplicates := sat_add64 (st_duplicates s) 1\<rparr>"
| "stats_count StrangerRefused s = s\<lparr>st_refused_stranger := sat_add64 (st_refused_stranger s) 1\<rparr>"
| "stats_count DepositorFull s = s\<lparr>st_refused_depositor_full := sat_add64 (st_refused_depositor_full s) 1\<rparr>"
| "stats_count StoreFull s = s\<lparr>st_refused_store_full := sat_add64 (st_refused_store_full s) 1\<rparr>"
| "stats_count Battery s = s\<lparr>st_refused_battery := sat_add64 (st_refused_battery s) 1\<rparr>"

fun refusals :: "custody_stats \<Rightarrow> custody_refusal \<Rightarrow> nat" where
  "refusals s Disabled = st_refused_disabled s"
| "refusals s NoRequest = st_refused_no_request s"
| "refusals s UnknownClass = st_refused_unknown_class s"
| "refusals s NotSealed = st_refused_not_sealed s"
| "refusals s UnprovenPeer = st_refused_unproven_peer s"
| "refusals s NotDepositor = st_refused_not_depositor s"
| "refusals s CustodyDuplicate = st_duplicates s"
| "refusals s StrangerRefused = st_refused_stranger s"
| "refusals s DepositorFull = st_refused_depositor_full s"
| "refusals s StoreFull = st_refused_store_full s"
| "refusals s Battery = st_refused_battery s"

record held_frame =
  hf_message :: message
  hf_depositor :: string
  hf_accepted_at_ms :: i64
  hf_class :: string
  hf_bytes :: nat
  hf_tried :: "string set"
  hf_in_flight :: "string option"

record custody_candidate =
  ca_message :: message
  ca_request :: "string option"
  ca_arrival_peer :: "string option"
  ca_session_tier :: bool
  ca_battery_ok :: bool
  ca_now_ms :: i64

record accepted =
  ac_id :: message_id
  ac_depositor :: string
  ac_class :: string
  ac_evicted :: "message_id list"

datatype tier = Session | Stranger

record admitted =
  adm_tier :: tier
  adm_depositor :: string
  adm_token :: string

record usage =
  us_entries :: nat
  us_bytes :: nat

record custody_store =
  cs_config :: custody_config
  cs_entries :: "(message_id, held_frame) hashmap"
  cs_order :: "message_id list"
  cs_per_depositor :: "(string, usage) hashmap"
  cs_total :: usage
  cs_stats :: custody_stats

definition frame_footprint :: "message \<Rightarrow> nat" where
  "frame_footprint m =
     (let metadata_bytes = sum_list (map (\<lambda>(k, v). length k + length v) (msg_metadata m));
          media_bytes = (case msg_media_metadata m of
              Some media \<Rightarrow> length (mm_mime_type media) + length (mm_file_name media)
                + (case mm_thumbnail_base64 media of Some t \<Rightarrow> length t | None \<Rightarrow> 0)
            | None \<Rightarrow> 0)
      in length (msg_content m) + (case msg_binary_content m of Some b \<Rightarrow> length b | None \<Rightarrow> 0)
         + length (msg_sender m) + length (msg_recipient m) + length (msg_app_id m) + metadata_bytes + media_bytes)"

definition usage_zero :: usage where
  "usage_zero = \<lparr>us_entries = 0, us_bytes = 0\<rparr>"

definition cs_new :: "custody_config \<Rightarrow> custody_store" where
  "cs_new config = \<lparr>cs_config = config, cs_entries = [], cs_order = [], cs_per_depositor = [],
     cs_total = usage_zero, cs_stats = custody_stats_zero\<rparr>"

definition cs_get_stats :: "custody_store \<Rightarrow> custody_stats" where
  "cs_get_stats s = (cs_stats s)\<lparr>st_held := length (cs_entries s), st_held_bytes := us_bytes (cs_total s)\<rparr>"

definition count_refusal :: "custody_refusal \<Rightarrow> custody_store \<Rightarrow> custody_store" where
  "count_refusal r s = s\<lparr>cs_stats := stats_count r (cs_stats s)\<rparr>"

definition depositor_usage :: "string \<Rightarrow> custody_store \<Rightarrow> usage" where
  "depositor_usage depositor s = (case map_of (cs_per_depositor s) depositor of Some u \<Rightarrow> u | None \<Rightarrow> usage_zero)"

definition fits_depositor :: "string \<Rightarrow> nat \<Rightarrow> nat \<Rightarrow> nat \<Rightarrow> custody_store \<Rightarrow> bool" where
  "fits_depositor depositor bytes max_entries max_bytes s = (let usage = depositor_usage depositor s in
     us_entries usage < max_entries \<and> sat_add64 (us_bytes usage) bytes \<le> max_bytes)"

definition fits_store :: "nat \<Rightarrow> custody_store \<Rightarrow> bool" where
  "fits_store bytes s = (us_entries (cs_total s) < cc_max_entries (cs_config s)
     \<and> sat_add64 (us_bytes (cs_total s)) bytes \<le> cc_max_bytes (cs_config s))"

text \<open>\<open>oldest\<close> looks for any held frame, \<open>oldest_of\<close> for one of a depositor.\<close>

definition oldest_where :: "(held_frame \<Rightarrow> bool) \<Rightarrow> custody_store \<Rightarrow> message_id option" where
  "oldest_where P s = find (\<lambda>mid. case map_of (cs_entries s) mid of Some held \<Rightarrow> P held | None \<Rightarrow> False) (cs_order s)"

definition oldest :: "custody_store \<Rightarrow> message_id option" where
  "oldest s = oldest_where (\<lambda>_. True) s"

definition oldest_of :: "string \<Rightarrow> custody_store \<Rightarrow> message_id option" where
  "oldest_of depositor s = oldest_where (\<lambda>held. hf_depositor held = depositor) s"

definition cs_insert :: "held_frame \<Rightarrow> custody_store \<Rightarrow> custody_store" where
  "cs_insert held s = (let u = depositor_usage (hf_depositor held) s in
     s\<lparr>cs_per_depositor := hm_insert (hf_depositor held)
         \<lparr>us_entries = us_entries u + 1, us_bytes = sat_add64 (us_bytes u) (hf_bytes held)\<rparr> (cs_per_depositor s),
       cs_total := \<lparr>us_entries = us_entries (cs_total s) + 1, us_bytes = sat_add64 (us_bytes (cs_total s)) (hf_bytes held)\<rparr>,
       cs_order := cs_order s @ [msg_id (hf_message held)],
       cs_entries := hm_insert (msg_id (hf_message held)) held (cs_entries s)\<rparr>)"

definition release_usage :: "held_frame \<Rightarrow> (string, usage) hashmap \<Rightarrow> (string, usage) hashmap" where
  "release_usage held m = (case map_of m (hf_depositor held) of
       Some u \<Rightarrow> if us_entries u - 1 = 0 then hm_remove (hf_depositor held) m
                 else hm_insert (hf_depositor held) \<lparr>us_entries = us_entries u - 1, us_bytes = us_bytes u - hf_bytes held\<rparr> m
     | None \<Rightarrow> m)"

definition remove_inner :: "message_id \<Rightarrow> custody_store \<Rightarrow> held_frame option \<times> custody_store" where
  "remove_inner mid s = (case map_of (cs_entries s) mid of
       None \<Rightarrow> (None, s)
     | Some held \<Rightarrow> (Some held, s\<lparr>cs_entries := hm_remove mid (cs_entries s),
           cs_per_depositor := release_usage held (cs_per_depositor s),
           cs_total := \<lparr>us_entries = us_entries (cs_total s) - 1, us_bytes = us_bytes (cs_total s) - hf_bytes held\<rparr>,
           cs_order := filter (\<lambda>queued. queued \<noteq> mid) (cs_order s)\<rparr>))"

definition count_evicted :: "custody_store \<Rightarrow> custody_store" where
  "count_evicted s = s\<lparr>cs_stats := (cs_stats s)\<lparr>st_evicted := sat_add64 (st_evicted (cs_stats s)) 1\<rparr>\<rparr>"

lemma oldest_where_held: "oldest_where P s = Some mid \<Longrightarrow> \<exists>held. map_of (cs_entries s) mid = Some held \<and> P held"
  by (auto simp: oldest_where_def find_Some_iff split: option.splits)

lemma remove_inner_shorter:
  "map_of (cs_entries s) mid = Some held \<Longrightarrow> length (cs_entries (snd (remove_inner mid s))) < length (cs_entries s)"
  by (auto simp: remove_inner_def hm_remove_def intro!: length_filter_less dest!: map_of_SomeD)

text \<open>The two loops of \<open>judge\<close> that make room: the first takes the depositor's oldest frames until the
  depositor's budget fits, the second the oldest frames of all until the store's does.  They give the
  refusal, if there is one, and the ids evicted.\<close>

function make_room ::
  "(custody_store \<Rightarrow> bool) \<Rightarrow> (held_frame \<Rightarrow> bool) \<Rightarrow> custody_refusal \<Rightarrow> message_id list \<Rightarrow> custody_store \<Rightarrow>
     (custody_refusal + message_id list) \<times> custody_store" where
  "make_room fits P refusal evicted s =
     (if fits s then (Inr evicted, s)
      else case cc_overflow_policy (cs_config s) of
             DropOldest \<Rightarrow> (case oldest_where P s of
                 Some victim \<Rightarrow> make_room fits P refusal (evicted @ [victim]) (count_evicted (snd (remove_inner victim s)))
               | None \<Rightarrow> (Inl refusal, count_refusal refusal s))
           | DropNewest \<Rightarrow> (Inl refusal, count_refusal refusal s))"
  by pat_completeness auto
termination
  by (relation "measure (\<lambda>(_, _, _, _, s). length (cs_entries s))")
     (auto simp: count_evicted_def dest!: oldest_where_held intro: remove_inner_shorter)

declare make_room.simps [simp del]

definition check_deposit :: "custody_candidate \<Rightarrow> custody_store \<Rightarrow> custody_refusal + admitted" where
  "check_deposit c s = (case ca_request c of
       None \<Rightarrow> Inl NoRequest
     | Some token \<Rightarrow>
         if \<not> cc_enabled (cs_config s) then Inl Disabled
         else if token \<noteq> CUSTODY_CLASS_DATA then Inl UnknownClass
         else if take (length ENCRYPTED_PREFIX) (msg_content (ca_message c)) \<noteq> ENCRYPTED_PREFIX then Inl NotSealed
         else (case ca_arrival_peer c of
                 None \<Rightarrow> Inl UnprovenPeer
               | Some peer \<Rightarrow>
                   if msg_sender (ca_message c) \<noteq> peer then Inl NotDepositor
                   else if hm_contains (msg_id (ca_message c)) (cs_entries s) then Inl CustodyDuplicate
                   else let tier = (if ca_session_tier c then Session else Stranger) in
                     if tier = Stranger \<and> (cc_stranger_max_entries (cs_config s) = 0 \<or> cc_stranger_max_bytes (cs_config s) = 0)
                     then Inl StrangerRefused
                     else if \<not> ca_battery_ok c then Inl Battery
                     else Inr \<lparr>adm_tier = tier, adm_depositor = peer, adm_token = token\<rparr>))"

fun tier_quota :: "tier \<Rightarrow> custody_config \<Rightarrow> nat \<times> nat" where
  "tier_quota Session c = (cc_max_entries_per_depositor c, cc_max_bytes_per_depositor c)"
| "tier_quota Stranger c = (cc_stranger_max_entries c, cc_stranger_max_bytes c)"

text \<open>\<open>judge\<close>, from the point where the table has admitted the frame.\<close>

definition apply_store_budget ::
  "custody_candidate \<Rightarrow> admitted \<Rightarrow> nat \<Rightarrow> message_id list \<Rightarrow> custody_store \<Rightarrow> (custody_refusal + accepted) \<times> custody_store" where
  "apply_store_budget c a bytes evicted0 s =
     (if cc_max_bytes (cs_config s) < bytes then (Inl StoreFull, count_refusal StoreFull s)
      else case make_room (fits_store bytes) (\<lambda>_. True) StoreFull evicted0 s of
             (Inl r, s1) \<Rightarrow> (Inl r, s1)
           | (Inr evicted, s1) \<Rightarrow>
               let s2 = cs_insert \<lparr>hf_message = ca_message c, hf_depositor = adm_depositor a, hf_accepted_at_ms = ca_now_ms c,
                     hf_class = adm_token a, hf_bytes = bytes, hf_tried = {}, hf_in_flight = None\<rparr> s1
               in (Inr \<lparr>ac_id = msg_id (ca_message c), ac_depositor = adm_depositor a, ac_class = adm_token a, ac_evicted = evicted\<rparr>,
                   s2\<lparr>cs_stats := (cs_stats s2)\<lparr>st_accepted := sat_add64 (st_accepted (cs_stats s2)) 1\<rparr>\<rparr>))"

definition apply_budgets ::
  "custody_candidate \<Rightarrow> admitted \<Rightarrow> custody_store \<Rightarrow> (custody_refusal + accepted) \<times> custody_store" where
  "apply_budgets c a s =
     (let bytes = frame_footprint (ca_message c) in
      case tier_quota (adm_tier a) (cs_config s) of
        (max_entries, max_bytes) \<Rightarrow>
          if max_bytes < bytes then (Inl DepositorFull, count_refusal DepositorFull s)
          else (case make_room (fits_depositor (adm_depositor a) bytes max_entries max_bytes)
                       (\<lambda>held. hf_depositor held = adm_depositor a) DepositorFull [] s of
                  (Inl r, s1) \<Rightarrow> (Inl r, s1)
                | (Inr evicted, s1) \<Rightarrow> apply_store_budget c a bytes evicted s1))"

definition judge :: "custody_candidate \<Rightarrow> custody_store \<Rightarrow> (custody_refusal + accepted) \<times> custody_store" where
  "judge c s = (case check_deposit c s of
       Inl refusal \<Rightarrow> (Inl refusal, count_refusal refusal s)
     | Inr a \<Rightarrow> apply_budgets c a s)"

definition admit_restored :: "message \<Rightarrow> string \<Rightarrow> i64 \<Rightarrow> string \<Rightarrow> custody_store \<Rightarrow> bool \<times> custody_store" where
  "admit_restored m depositor accepted_at_ms class s =
     (if hm_contains (msg_id m) (cs_entries s) then (False, s)
      else let bytes = frame_footprint m; c = cs_config s;
               max_entries = max (cc_max_entries_per_depositor c) (cc_stranger_max_entries c);
               max_bytes = max (cc_max_bytes_per_depositor c) (cc_stranger_max_bytes c)
           in if \<not> fits_depositor depositor bytes max_entries max_bytes s \<or> \<not> fits_store bytes s then (False, s)
              else (True, cs_insert \<lparr>hf_message = m, hf_depositor = depositor, hf_accepted_at_ms = accepted_at_ms,
                     hf_class = class, hf_bytes = bytes, hf_tried = {}, hf_in_flight = None\<rparr> s))"

definition hold_over :: "i64 \<Rightarrow> nat \<Rightarrow> held_frame \<Rightarrow> bool" where
  "hold_over now_ms hold_ms held =
     (int (min hold_ms (2 ^ 63 - 1)) < saturating_sub_i64 now_ms (hf_accepted_at_ms held))"

definition expire_one :: "message_id \<Rightarrow> custody_store \<Rightarrow> custody_store" where
  "expire_one mid s = (let s' = snd (remove_inner mid s) in
     s'\<lparr>cs_stats := (cs_stats s')\<lparr>st_expired := sat_add64 (st_expired (cs_stats s')) 1\<rparr>\<rparr>)"

definition cs_expire :: "i64 \<Rightarrow> nat \<Rightarrow> custody_store \<Rightarrow> message_id list \<times> custody_store" where
  "cs_expire now_ms hold_ms s =
     (let expired = map (\<lambda>(_, held). msg_id (hf_message held)) (filter (\<lambda>(_, held). hold_over now_ms hold_ms held) (cs_entries s))
      in (expired, fold expire_one expired s))"

definition eligible_for :: "string \<Rightarrow> held_frame \<Rightarrow> bool" where
  "eligible_for peer held = (hf_depositor held \<noteq> peer \<and> hf_in_flight held = None \<and>
     (msg_recipient (hf_message held) = peer \<or>
      peer \<notin> hf_tried held \<and> card (hf_tried held) < MAX_CUSTODY_NEIGHBOURS_PER_HOLD))"

definition candidates_for :: "string \<Rightarrow> custody_store \<Rightarrow> message_id list" where
  "candidates_for peer s = map (\<lambda>held. msg_id (hf_message held))
     (filter (eligible_for peer) (List.map_filter (map_of (cs_entries s)) (cs_order s)))"

definition update_held :: "message_id \<Rightarrow> (held_frame \<Rightarrow> held_frame) \<Rightarrow> custody_store \<Rightarrow> custody_store" where
  "update_held mid f s = (case map_of (cs_entries s) mid of
       Some held \<Rightarrow> s\<lparr>cs_entries := hm_insert mid (f held) (cs_entries s)\<rparr>
     | None \<Rightarrow> s)"

definition mark_queued :: "message_id \<Rightarrow> string \<Rightarrow> custody_store \<Rightarrow> custody_store" where
  "mark_queued mid peer = update_held mid (\<lambda>held. held\<lparr>hf_tried := insert peer (hf_tried held), hf_in_flight := Some peer\<rparr>)"

definition returned :: "message_id \<Rightarrow> custody_store \<Rightarrow> custody_store" where
  "returned mid = update_held mid (\<lambda>held. case hf_in_flight held of
       Some peer \<Rightarrow> held\<lparr>hf_in_flight := None, hf_tried := hf_tried held - {peer}\<rparr>
     | None \<Rightarrow> held)"

definition record_re_originated :: "message_id \<Rightarrow> custody_store \<Rightarrow> custody_store" where
  "record_re_originated mid s = (let s' = update_held mid (\<lambda>held. held\<lparr>hf_in_flight := None\<rparr>) s in
     s'\<lparr>cs_stats := (cs_stats s')\<lparr>st_re_originated := sat_add64 (st_re_originated (cs_stats s')) 1\<rparr>\<rparr>)"

definition record_delivered :: "message_id \<Rightarrow> custody_store \<Rightarrow> held_frame option \<times> custody_store" where
  "record_delivered mid s = (case remove_inner mid s of
       (None, s') \<Rightarrow> (None, s')
     | (Some held, s') \<Rightarrow> (Some held, s'\<lparr>cs_stats := (cs_stats s')\<lparr>st_delivered := sat_add64 (st_delivered (cs_stats s')) 1\<rparr>\<rparr>))"

definition record_receipt_sent :: "custody_store \<Rightarrow> custody_store" where
  "record_receipt_sent s = s\<lparr>cs_stats := (cs_stats s)\<lparr>st_receipts_sent := sat_add64 (st_receipts_sent (cs_stats s)) 1\<rparr>\<rparr>"

definition record_receipt_dropped :: "custody_store \<Rightarrow> custody_store" where
  "record_receipt_dropped s = s\<lparr>cs_stats := (cs_stats s)\<lparr>st_receipts_dropped := sat_add64 (st_receipts_dropped (cs_stats s)) 1\<rparr>\<rparr>"

definition record_receipt_received :: "custody_store \<Rightarrow> custody_store" where
  "record_receipt_received s = s\<lparr>cs_stats := (cs_stats s)\<lparr>st_receipts_received := sat_add64 (st_receipts_received (cs_stats s)) 1\<rparr>\<rparr>"

definition record_receipt_ignored :: "custody_store \<Rightarrow> custody_store" where
  "record_receipt_ignored s = s\<lparr>cs_stats := (cs_stats s)\<lparr>st_receipts_ignored := sat_add64 (st_receipts_ignored (cs_stats s)) 1\<rparr>\<rparr>"

definition cs_erase :: "custody_store \<Rightarrow> message_id list \<times> custody_store" where
  "cs_erase s = (map fst (cs_entries s), s\<lparr>cs_entries := [], cs_order := [], cs_per_depositor := [],
     cs_total := usage_zero, cs_stats := custody_stats_zero\<rparr>)"

subsection \<open>Receipts\<close>

record custody_receipt =
  cr_v :: nat
  cr_id :: string
  cr_hold_ms :: nat

datatype receipt_decode_error = Malformed | UnknownVersion | EmptyId

text \<open>What the codec uses of \<open>serde_json\<close>: writing a receipt, parsing a text to a value, whether the value is
  an object, its field \<open>v\<close> as a \<open>u64\<close>, and reading the value as a receipt.\<close>

record 'v receipt_json =
  rj_to_string :: "custody_receipt \<Rightarrow> string"
  rj_from_str :: "string \<Rightarrow> 'v option"
  rj_is_object :: "'v \<Rightarrow> bool"
  rj_get_v :: "'v \<Rightarrow> nat option"
  rj_from_value :: "'v \<Rightarrow> custody_receipt option"

definition encode_receipt :: "'v receipt_json \<Rightarrow> string \<Rightarrow> nat \<Rightarrow> string" where
  "encode_receipt j mid hold_ms =
     CUSTODY_RECEIPT_PREFIX @ rj_to_string j \<lparr>cr_v = CUSTODY_RECEIPT_VERSION, cr_id = mid, cr_hold_ms = hold_ms\<rparr>"

definition decode_receipt :: "'v receipt_json \<Rightarrow> string \<Rightarrow> receipt_decode_error + custody_receipt" where
  "decode_receipt j body = (case rj_from_str j body of
       None \<Rightarrow> Inl Malformed
     | Some v \<Rightarrow>
         if \<not> rj_is_object j v then Inl Malformed
         else (case rj_get_v j v of
                 None \<Rightarrow> Inl Malformed
               | Some n \<Rightarrow>
                   if n \<noteq> CUSTODY_RECEIPT_VERSION then Inl UnknownVersion
                   else (case rj_from_value j v of
                           None \<Rightarrow> Inl Malformed
                         | Some receipt \<Rightarrow> if cr_id receipt = [] then Inl EmptyId else Inr receipt)))"

subsection \<open>The store as a machine\<close>

datatype cs_op =
    CsJudge custody_candidate
  | CsRestore message string i64 string
  | CsExpire i64 nat
  | CsQueued message_id string
  | CsReturned message_id
  | CsReOriginated message_id
  | CsDelivered message_id
  | CsReceiptSent
  | CsReceiptDropped
  | CsReceiptReceived
  | CsReceiptIgnored
  | CsErase

fun cs_step :: "cs_op \<Rightarrow> custody_store \<Rightarrow> custody_store" where
  "cs_step (CsJudge c) s = snd (judge c s)"
| "cs_step (CsRestore m d t cl) s = snd (admit_restored m d t cl s)"
| "cs_step (CsExpire now hold) s = snd (cs_expire now hold s)"
| "cs_step (CsQueued i peer) s = mark_queued i peer s"
| "cs_step (CsReturned i) s = returned i s"
| "cs_step (CsReOriginated i) s = record_re_originated i s"
| "cs_step (CsDelivered i) s = snd (record_delivered i s)"
| "cs_step CsReceiptSent s = record_receipt_sent s"
| "cs_step CsReceiptDropped s = record_receipt_dropped s"
| "cs_step CsReceiptReceived s = record_receipt_received s"
| "cs_step CsReceiptIgnored s = record_receipt_ignored s"
| "cs_step CsErase s = snd (cs_erase s)"

text \<open>Sums over the held frames, from which the usage records are read off.\<close>

definition wsum :: "(held_frame \<Rightarrow> nat) \<Rightarrow> (message_id, held_frame) hashmap \<Rightarrow> nat" where
  "wsum w m = sum_list (map (\<lambda>(_, h). w h) m)"

definition of_depositor :: "string \<Rightarrow> (held_frame \<Rightarrow> nat) \<Rightarrow> held_frame \<Rightarrow> nat" where
  "of_depositor d w h = (if hf_depositor h = d then w h else 0)"

definition usage_of :: "string \<Rightarrow> (message_id, held_frame) hashmap \<Rightarrow> usage" where
  "usage_of d m = \<lparr>us_entries = wsum (of_depositor d (\<lambda>_. 1)) m, us_bytes = wsum (of_depositor d hf_bytes) m\<rparr>"

definition usage_all :: "(message_id, held_frame) hashmap \<Rightarrow> usage" where
  "usage_all m = \<lparr>us_entries = wsum (\<lambda>_. 1) m, us_bytes = wsum hf_bytes m\<rparr>"

definition usage_map :: "(message_id, held_frame) hashmap \<Rightarrow> string \<Rightarrow> usage option" where
  "usage_map m d = (if us_entries (usage_of d m) = 0 then None else Some (usage_of d m))"

definition keyed_by_id :: "(message_id, held_frame) hashmap \<Rightarrow> bool" where
  "keyed_by_id m \<longleftrightarrow> list_all (\<lambda>(k, h). msg_id (hf_message h) = k) m"

text \<open>The books are right: one record per held frame, in the order of acceptance, and the usage of every
  depositor and of the store is that of the frames held.\<close>

definition cs_books :: "custody_store \<Rightarrow> bool" where
  "cs_books s \<longleftrightarrow> hm_inv (cs_entries s) \<and> keyed_by_id (cs_entries s) \<and> distinct (cs_order s)
     \<and> set (cs_order s) = dom (map_of (cs_entries s))
     \<and> map_of (cs_per_depositor s) = usage_map (cs_entries s)
     \<and> cs_total s = usage_all (cs_entries s)"

definition cs_quotas :: "custody_config \<Rightarrow> (message_id, held_frame) hashmap \<Rightarrow> bool" where
  "cs_quotas c m \<longleftrightarrow> us_entries (usage_all m) \<le> cc_max_entries c \<and> us_bytes (usage_all m) \<le> cc_max_bytes c
     \<and> (\<forall>d. us_entries (usage_of d m) \<le> max (cc_max_entries_per_depositor c) (cc_stranger_max_entries c)
          \<and> us_bytes (usage_of d m) \<le> max (cc_max_bytes_per_depositor c) (cc_stranger_max_bytes c))"

definition cs_inv :: "custody_config \<Rightarrow> custody_store \<Rightarrow> bool" where
  "cs_inv c s \<longleftrightarrow> cs_config s = c \<and> cs_books s \<and> cs_quotas c (cs_entries s)"

text \<open>The byte budget lies below the point where a \<open>usize\<close> sum saturates.\<close>

definition bytes_exact :: "custody_config \<Rightarrow> bool" where
  "bytes_exact c \<longleftrightarrow> cc_max_bytes c < u64_max"

subsection \<open>Sums\<close>

lemma wsum_fresh: "map_of m k = None \<Longrightarrow> wsum w (hm_insert k h m) = wsum w m + w h"
  by (simp add: wsum_def hm_insert_fresh map_of_eq_None_iff)

lemma wsum_absent: "map_of m k = None \<Longrightarrow> hm_remove k m = m"
  by (induction m) (auto simp: hm_remove_def split: if_splits)

lemma wsum_remove: "hm_inv m \<Longrightarrow> map_of m k = Some h \<Longrightarrow> wsum w m = wsum w (hm_remove k m) + w h"
proof (induction m)
  case (Cons p m)
  show ?case
  proof (cases "fst p = k")
    case True
    then have "k \<notin> fst ` set m" using Cons.prems(1) by (auto simp: hm_inv_def)
    then have "hm_remove k (p # m) = m" using True wsum_absent[of m k] by (simp add: hm_remove_def map_of_eq_None_iff)
    then show ?thesis using True Cons.prems(2) by (cases p) (simp add: wsum_def)
  next
    case False
    then have "hm_remove k (p # m) = p # hm_remove k m" by (simp add: hm_remove_def)
    then show ?thesis using False Cons by (cases p) (simp add: wsum_def hm_inv_def)
  qed
qed simp

lemma wsum_update: "map_of m k = Some h \<Longrightarrow> w h' = w h \<Longrightarrow> wsum w (hm_insert k h' m) = wsum w m"
  by (induction m) (auto simp: wsum_def split: if_splits)

lemma wsum_le: "(\<And>h. w h \<le> v h) \<Longrightarrow> wsum w m \<le> wsum v m"
  unfolding wsum_def by (intro sum_list_mono) auto

lemma wsum_zero: "wsum w m = 0 \<longleftrightarrow> list_all (\<lambda>(_, h). w h = 0) m"
  by (induction m) (auto simp: wsum_def)

lemma of_depositor_le: "wsum (of_depositor d w) m \<le> wsum w m"
  by (rule wsum_le) (simp add: of_depositor_def)

lemma usage_zero_bytes: "us_entries (usage_of d m) = 0 \<Longrightarrow> us_bytes (usage_of d m) = 0"
  by (auto simp: usage_of_def wsum_zero of_depositor_def list_all_iff split: if_splits)

lemma usage_bytes_le: "us_bytes (usage_of d m) \<le> us_bytes (usage_all m)"
  by (simp add: usage_of_def usage_all_def of_depositor_le)

lemma usage_fresh:
  assumes "map_of m k = None"
  shows "usage_of d (hm_insert k h m) = (if hf_depositor h = d
      then \<lparr>us_entries = us_entries (usage_of d m) + 1, us_bytes = us_bytes (usage_of d m) + hf_bytes h\<rparr> else usage_of d m)"
    and "usage_all (hm_insert k h m) = \<lparr>us_entries = us_entries (usage_all m) + 1, us_bytes = us_bytes (usage_all m) + hf_bytes h\<rparr>"
  using wsum_fresh[OF assms] by (simp_all add: usage_of_def usage_all_def of_depositor_def)

lemma usage_remove:
  assumes "hm_inv m" "map_of m k = Some h"
  shows "usage_of d m = (if hf_depositor h = d
      then \<lparr>us_entries = us_entries (usage_of d (hm_remove k m)) + 1, us_bytes = us_bytes (usage_of d (hm_remove k m)) + hf_bytes h\<rparr>
      else usage_of d (hm_remove k m))"
    and "usage_all m = \<lparr>us_entries = us_entries (usage_all (hm_remove k m)) + 1, us_bytes = us_bytes (usage_all (hm_remove k m)) + hf_bytes h\<rparr>"
  using wsum_remove[OF assms] by (simp_all add: usage_of_def usage_all_def of_depositor_def)

lemma usage_update:
  assumes "map_of m k = Some h" "hf_depositor h' = hf_depositor h" "hf_bytes h' = hf_bytes h"
  shows "usage_of d (hm_insert k h' m) = usage_of d m" "usage_all (hm_insert k h' m) = usage_all m"
  using wsum_update[OF assms(1)] assms(2,3) by (simp_all add: usage_of_def usage_all_def of_depositor_def)

lemma keyed_insert: "keyed_by_id m \<Longrightarrow> msg_id (hf_message h) = k \<Longrightarrow> keyed_by_id (hm_insert k h m)"
  unfolding keyed_by_id_def by (induction m) auto

lemma keyed_remove: "keyed_by_id m \<Longrightarrow> keyed_by_id (hm_remove k m)"
  by (auto simp: keyed_by_id_def hm_remove_def list_all_iff)

lemma keyed_by_id_get: "keyed_by_id m \<Longrightarrow> map_of m k = Some h \<Longrightarrow> msg_id (hf_message h) = k"
  by (auto simp: keyed_by_id_def list_all_iff dest!: map_of_SomeD)

lemma depositor_usage_books: "cs_books s \<Longrightarrow> depositor_usage d s = usage_of d (cs_entries s)"
proof -
  assume "cs_books s"
  then have "map_of (cs_per_depositor s) d = usage_map (cs_entries s) d"
    by (simp add: cs_books_def)
  moreover have "us_entries (usage_of d (cs_entries s)) = 0 \<Longrightarrow> usage_of d (cs_entries s) = usage_zero"
    using usage_zero_bytes[of d "cs_entries s"] by (simp add: usage_zero_def)
  ultimately show ?thesis by (auto simp: depositor_usage_def usage_map_def)
qed

subsection \<open>Every operation keeps the books\<close>

lemma cs_books_insert:
  assumes "cs_books s" "map_of (cs_entries s) (msg_id (hf_message h)) = None"
    "us_bytes (usage_all (cs_entries s)) + hf_bytes h \<le> u64_max"
  shows "cs_books (cs_insert h s)"
proof -
  let ?k = "msg_id (hf_message h)" and ?m = "cs_entries s"
  note fresh = usage_fresh[OF assms(2)]
  have u: "depositor_usage (hf_depositor h) s = usage_of (hf_depositor h) ?m" by (rule depositor_usage_books[OF assms(1)])
  have sat: "sat_add64 (us_bytes (usage_of d ?m)) (hf_bytes h) = us_bytes (usage_of d ?m) + hf_bytes h" for d
    using usage_bytes_le[of d ?m] assms(3) by (simp add: sat_add64_def)
  have tot: "cs_total s = usage_all ?m" using assms(1) by (simp add: cs_books_def)
  have "sat_add64 (us_bytes (usage_all ?m)) (hf_bytes h) = us_bytes (usage_all ?m) + hf_bytes h"
    using assms(3) by (simp add: sat_add64_def)
  then have total: "cs_total (cs_insert h s) = usage_all (hm_insert ?k h ?m)"
    using tot fresh(2) by (simp add: cs_insert_def Let_def)
  have "map_of (cs_per_depositor s) = usage_map ?m" using assms(1) by (simp add: cs_books_def)
  then have per: "map_of (cs_per_depositor (cs_insert h s)) = usage_map (hm_insert ?k h ?m)"
    using u sat by (auto simp: cs_insert_def Let_def usage_map_def fresh(1) fun_eq_iff)
  have "?k \<notin> set (cs_order s)" using assms(1,2) by (auto simp: cs_books_def)
  moreover have ins: "cs_entries (cs_insert h s) = hm_insert ?k h ?m" "cs_order (cs_insert h s) = cs_order s @ [?k]"
    by (simp_all add: cs_insert_def Let_def)
  ultimately show ?thesis using assms(1) total per unfolding cs_books_def ins by (auto simp: keyed_insert)
qed

lemma remove_inner_eq:
  "remove_inner mid s = (map_of (cs_entries s) mid, if map_of (cs_entries s) mid = None then s else snd (remove_inner mid s))"
  by (simp add: remove_inner_def split: option.split)

lemma remove_inner_parts:
  "cs_entries (snd (remove_inner mid s)) = hm_remove mid (cs_entries s)"
  "cs_config (snd (remove_inner mid s)) = cs_config s"
  "cs_stats (snd (remove_inner mid s)) = cs_stats s"
  by (auto simp: remove_inner_def wsum_absent split: option.split)

lemma remove_inner_order:
  "cs_books s \<Longrightarrow> cs_order (snd (remove_inner mid s)) = filter (\<lambda>i. i \<noteq> mid) (cs_order s)"
proof (cases "map_of (cs_entries s) mid")
  case None
  assume "cs_books s"
  then have "mid \<notin> set (cs_order s)" using None by (auto simp: cs_books_def)
  then have "filter (\<lambda>i. i \<noteq> mid) (cs_order s) = cs_order s" by (auto simp: filter_id_conv)
  then show ?thesis using None by (simp add: remove_inner_def)
qed (simp add: remove_inner_def)

lemma cs_books_remove:
  assumes "cs_books s"
  shows "cs_books (snd (remove_inner mid s))"
proof (cases "map_of (cs_entries s) mid")
  case (Some h)
  let ?m = "cs_entries s" and ?m' = "hm_remove mid (cs_entries s)"
  have inv: "hm_inv ?m" using assms by (simp add: cs_books_def)
  note gone = usage_remove[OF inv Some]
  let ?s = "snd (remove_inner mid s)"
  have s': "cs_per_depositor ?s = release_usage h (cs_per_depositor s)"
    "cs_total ?s = \<lparr>us_entries = us_entries (cs_total s) - 1, us_bytes = us_bytes (cs_total s) - hf_bytes h\<rparr>"
    using Some by (simp_all add: remove_inner_def)
  have total: "cs_total ?s = usage_all ?m'" using assms gone(2) s'(2) by (simp add: cs_books_def)
  have old: "map_of (cs_per_depositor s) = usage_map ?m"
    using assms by (simp add: cs_books_def)
  have "us_entries (usage_of (hf_depositor h) ?m) \<noteq> 0" using gone(1)[of "hf_depositor h"] by simp
  then have per: "map_of (cs_per_depositor ?s) = usage_map ?m'"
    using gone(1) unfolding s'(1) release_usage_def by (auto simp: old usage_map_def fun_eq_iff split: if_splits)
  have "set (cs_order ?s) = dom (map_of ?m')"
    using assms remove_inner_order[OF assms, of mid] by (auto simp: cs_books_def)
  moreover have "distinct (cs_order ?s)" using assms remove_inner_order[OF assms, of mid] by (simp add: cs_books_def)
  ultimately show ?thesis using assms total per by (simp add: cs_books_def remove_inner_parts keyed_remove)
next
  case None
  then show ?thesis using assms by (simp add: remove_inner_def)
qed

lemma cs_books_hm: "cs_books s \<Longrightarrow> hm_inv (cs_entries s)"
  by (simp add: cs_books_def)

lemma cs_quotas_remove:
  assumes "cs_quotas c m" "hm_inv m"
  shows "cs_quotas c (hm_remove k m)"
proof (cases "map_of m k")
  case (Some h)
  note gone = usage_remove[OF assms(2) Some]
  have "us_entries (usage_of d (hm_remove k m)) \<le> us_entries (usage_of d m)" "us_bytes (usage_of d (hm_remove k m)) \<le> us_bytes (usage_of d m)" for d
    using gone(1)[of d] by (auto split: if_splits)
  moreover have "us_entries (usage_all (hm_remove k m)) \<le> us_entries (usage_all m)" "us_bytes (usage_all (hm_remove k m)) \<le> us_bytes (usage_all m)"
    using gone(2) by simp_all
  ultimately show ?thesis using assms(1) by (meson cs_quotas_def order_trans)
qed (use assms in \<open>simp add: wsum_absent\<close>)

lemma cs_inv_remove: "cs_inv c s \<Longrightarrow> cs_inv c (snd (remove_inner mid s))"
  by (simp add: cs_inv_def cs_books_remove remove_inner_parts cs_quotas_remove cs_books_hm)

lemma cs_inv_stats [simp]: "cs_inv c (s\<lparr>cs_stats := n\<rparr>) = cs_inv c s"
  by (simp add: cs_inv_def cs_books_def)

lemma cs_inv_count [simp]: "cs_inv c (count_refusal r s) = cs_inv c s" "cs_inv c (count_evicted s) = cs_inv c s"
  by (simp_all add: count_refusal_def count_evicted_def)

text \<open>The ids an eviction can take, oldest first, and the loop that takes them.\<close>

definition evictable :: "(held_frame \<Rightarrow> bool) \<Rightarrow> custody_store \<Rightarrow> message_id list" where
  "evictable P s = filter (\<lambda>i. case map_of (cs_entries s) i of Some h \<Rightarrow> P h | None \<Rightarrow> False) (cs_order s)"

lemma find_filter: "find P xs = (case filter P xs of [] \<Rightarrow> None | x # _ \<Rightarrow> Some x)"
  by (induction xs) auto

lemma oldest_where_hd: "oldest_where P s = (case evictable P s of [] \<Rightarrow> None | i # _ \<Rightarrow> Some i)"
  unfolding oldest_where_def evictable_def by (rule find_filter)

lemma evictable_held: "i \<in> set (evictable P s) \<Longrightarrow> \<exists>h. map_of (cs_entries s) i = Some h \<and> P h"
  by (auto simp: evictable_def split: option.splits)

lemma evictable_empty:
  assumes "cs_books s" "evictable P s = []" "map_of (cs_entries s) i = Some h"
  shows "\<not> P h"
proof -
  have "i \<in> set (cs_order s)" using assms(1,3) by (auto simp: cs_books_def)
  then show ?thesis using assms(2,3) by (auto simp: evictable_def filter_empty_conv)
qed

definition evict_one :: "message_id \<Rightarrow> custody_store \<Rightarrow> custody_store" where
  "evict_one v s = count_evicted (snd (remove_inner v s))"

lemma cs_inv_evict: "cs_inv c s \<Longrightarrow> cs_inv c (evict_one v s)"
  by (simp add: evict_one_def cs_inv_remove)

lemma evict_one_parts:
  assumes "cs_books s"
  shows "cs_entries (evict_one v s) = hm_remove v (cs_entries s)"
    "cs_order (evict_one v s) = filter (\<lambda>i. i \<noteq> v) (cs_order s)" "cs_config (evict_one v s) = cs_config s"
  using remove_inner_order[OF assms, of v] by (simp_all add: evict_one_def count_evicted_def remove_inner_parts)

lemma evictable_evict:
  assumes "cs_books s" "evictable P s = v # vs"
  shows "evictable P (evict_one v s) = vs"
proof -
  have "distinct (evictable P s)" using assms(1) by (simp add: cs_books_def evictable_def)
  then have "v \<notin> set vs" using assms(2) by simp
  then have "filter (\<lambda>i. i \<noteq> v) vs = vs" by (intro filter_True) auto
  then have "vs = filter (\<lambda>i. i \<noteq> v) (evictable P s)" using assms(2) by simp
  also have "\<dots> = evictable P (evict_one v s)"
    unfolding evictable_def evict_one_parts[OF assms(1)] filter_filter by (rule filter_cong) auto
  finally show ?thesis by simp
qed

lemma cs_inv_books: "cs_inv c s \<Longrightarrow> cs_books s"
  by (simp add: cs_inv_def)

lemma make_room_spec:
  "make_room fits P r ev s = (res, s') \<Longrightarrow> cs_inv c s \<Longrightarrow>
     (\<exists>vs. res = Inr (ev @ vs) \<and> fits s' \<and> cs_inv c s' \<and> (\<exists>rest. evictable P s = vs @ rest)
        \<and> cs_entries s' = filter (\<lambda>p. fst p \<notin> set vs) (cs_entries s) \<and> cs_order s' = filter (\<lambda>i. i \<notin> set vs) (cs_order s)
        \<and> (cc_overflow_policy c = DropOldest \<or> vs = []) \<and> (vs = [] \<longrightarrow> s' = s))
     \<or> (\<exists>s0. res = Inl r \<and> s' = count_refusal r s0 \<and> \<not> fits s0 \<and> cs_inv c s0
        \<and> (s0 = s \<and> cc_overflow_policy c = DropNewest \<or> cc_overflow_policy c = DropOldest \<and> evictable P s0 = []))"
proof (induction "length (cs_entries s)" arbitrary: ev s rule: less_induct)
  case less
  have c: "cs_config s = c" and b: "cs_books s" using less.prems(2) by (simp_all add: cs_inv_def)
  note run = less.prems(1)[unfolded make_room.simps[of fits P r ev s]]
  show ?case
  proof (cases "fits s")
    case True
    then have "res = Inr (ev @ [])" "s' = s" using run by simp_all
    then show ?thesis using True less.prems(2) by (intro disjI1 exI[of _ "[]"]) simp
  next
    case False
    show ?thesis
    proof (cases "cc_overflow_policy c = DropNewest \<or> evictable P s = []")
      case True
      then have "res = Inl r \<and> s' = count_refusal r s"
        using run False c by (cases "cc_overflow_policy c") (simp_all add: oldest_where_hd)
      then show ?thesis using True False less.prems(2) by (cases "cc_overflow_policy c") auto
    next
      case drop: False
      then have pol: "cc_overflow_policy c = DropOldest" by (cases "cc_overflow_policy c") auto
      obtain v vs0 where v: "evictable P s = v # vs0" using drop by (cases "evictable P s") auto
      have "make_room fits P r (ev @ [v]) (evict_one v s) = (res, s')"
        using run False pol c v by (simp add: oldest_where_hd evict_one_def)
      moreover have "length (cs_entries (evict_one v s)) < length (cs_entries s)"
        using remove_inner_shorter evictable_held[of v P s] v by (fastforce simp: evict_one_def count_evicted_def)
      ultimately consider
        (made) vs where "res = Inr ((ev @ [v]) @ vs)" "fits s'" "cs_inv c s'" "\<exists>rest. evictable P (evict_one v s) = vs @ rest"
          "cs_entries s' = filter (\<lambda>p. fst p \<notin> set vs) (cs_entries (evict_one v s))"
          "cs_order s' = filter (\<lambda>i. i \<notin> set vs) (cs_order (evict_one v s))"
        | (refused) s0 where "res = Inl r" "s' = count_refusal r s0" "\<not> fits s0" "cs_inv c s0"
          "cc_overflow_policy c = DropOldest" "evictable P s0 = []"
        using less.hyps[of "evict_one v s" "ev @ [v]"] cs_inv_evict[OF less.prems(2), of v] pol by fastforce
      then show ?thesis
      proof cases
        case made
        have "cs_entries s' = filter (\<lambda>p. fst p \<notin> set (v # vs)) (cs_entries s)"
          unfolding made(5) evict_one_parts(1)[OF b] hm_remove_def filter_filter by (rule filter_cong) auto
        moreover have "cs_order s' = filter (\<lambda>i. i \<notin> set (v # vs)) (cs_order s)"
          unfolding made(6) evict_one_parts(2)[OF b] filter_filter by (rule filter_cong) auto
        moreover have "\<exists>rest. evictable P s = (v # vs) @ rest" using made(4) v evictable_evict[OF b v] by simp
        moreover have "res = Inr (ev @ v # vs)" using made(1) by simp
        ultimately show ?thesis using made(2,3) pol by (intro disjI1 exI[of _ "v # vs"]) blast
      next
        case refused
        then show ?thesis by blast
      qed
    qed
  qed
qed

lemma make_room_cases:
  assumes "make_room fits P r ev s = (res, s')" "cs_inv c s"
  obtains (made) vs rest where "res = Inr (ev @ vs)" "fits s'" "cs_inv c s'" "evictable P s = vs @ rest"
      "cs_entries s' = filter (\<lambda>p. fst p \<notin> set vs) (cs_entries s)" "cs_order s' = filter (\<lambda>i. i \<notin> set vs) (cs_order s)"
      "cc_overflow_policy c = DropOldest \<or> vs = []" "vs = [] \<Longrightarrow> s' = s"
    | (refused) s0 where "res = Inl r" "s' = count_refusal r s0" "\<not> fits s0" "cs_inv c s0"
      "s0 = s \<and> cc_overflow_policy c = DropNewest \<or> cc_overflow_policy c = DropOldest \<and> evictable P s0 = []"
  using make_room_spec[OF assms] by blast

subsection \<open>Deposits\<close>

definition custody_ok :: "nat \<Rightarrow> custody_config \<Rightarrow> bool" where
  "custody_ok lifetime c \<longleftrightarrow> validate_custody lifetime c = Inr () \<and> cc_enabled c \<and> bytes_exact c"

lemma custody_okD:
  assumes "custody_ok lifetime c"
  shows "0 < cc_max_entries_per_depositor c" "0 < cc_max_entries c"
    "cc_max_bytes_per_depositor c \<le> cc_max_bytes c" "cc_stranger_max_bytes c \<le> cc_max_bytes c" "bytes_exact c"
proof -
  have "cc_max_entries_per_depositor c \<noteq> 0" "cc_max_entries_per_depositor c \<le> cc_max_entries c"
    "cc_max_bytes_per_depositor c \<le> cc_max_bytes c" "cc_stranger_max_bytes c \<le> cc_max_bytes c"
    using assms by (auto simp: custody_ok_def validate_custody_def Let_def split: if_splits)
  then show "0 < cc_max_entries_per_depositor c" "0 < cc_max_entries c"
    "cc_max_bytes_per_depositor c \<le> cc_max_bytes c" "cc_stranger_max_bytes c \<le> cc_max_bytes c" by simp_all
  show "bytes_exact c" using assms by (simp add: custody_ok_def)
qed

lemma check_depositD:
  assumes "check_deposit c s = Inr a"
  shows "ca_request c = Some CUSTODY_CLASS_DATA" "cc_enabled (cs_config s)"
    "take (length ENCRYPTED_PREFIX) (msg_content (ca_message c)) = ENCRYPTED_PREFIX"
    "ca_arrival_peer c = Some (msg_sender (ca_message c))" "map_of (cs_entries s) (msg_id (ca_message c)) = None"
    "ca_battery_ok c" "adm_depositor a = msg_sender (ca_message c)" "adm_token a = CUSTODY_CLASS_DATA"
    "adm_tier a = (if ca_session_tier c then Session else Stranger)"
    "adm_tier a = Stranger \<Longrightarrow> 0 < cc_stranger_max_entries (cs_config s) \<and> 0 < cc_stranger_max_bytes (cs_config s)"
  using assms by (auto simp: check_deposit_def Let_def hm_contains_def split: option.splits if_splits)

lemma usage_none: "list_all (\<lambda>(_, h). hf_depositor h \<noteq> d) m \<Longrightarrow> usage_of d m = usage_zero"
  by (auto simp: usage_of_def usage_zero_def wsum_zero of_depositor_def list_all_iff)

lemma depositor_fits_empty:
  assumes "cs_books s" "evictable (\<lambda>h. hf_depositor h = d) s = []" "0 < max_entries" "bytes \<le> max_bytes"
  shows "fits_depositor d bytes max_entries max_bytes s"
proof -
  have "list_all (\<lambda>(_, h). hf_depositor h \<noteq> d) (cs_entries s)"
    using evictable_empty[OF assms(1,2)] cs_books_hm[OF assms(1)] by (auto simp: list_all_iff hm_inv_def)
  then have "depositor_usage d s = usage_zero" using depositor_usage_books[OF assms(1)] usage_none by simp
  then show ?thesis using assms(3,4) by (simp add: fits_depositor_def usage_zero_def sat_add64_def)
qed

lemma store_fits_empty:
  assumes "cs_books s" "evictable (\<lambda>_. True) s = []" "0 < cc_max_entries (cs_config s)" "bytes \<le> cc_max_bytes (cs_config s)"
  shows "fits_store bytes s"
proof -
  have "cs_entries s = []"
    using evictable_empty[OF assms(1,2)] cs_books_hm[OF assms(1)] by (metis hm_in_set_get list.set_intros(1) neq_Nil_conv surj_pair)
  then have "cs_total s = usage_zero" using assms(1) by (simp add: cs_books_def usage_all_def usage_zero_def wsum_def)
  then show ?thesis using assms(3,4) by (simp add: fits_store_def usage_zero_def sat_add64_def)
qed

lemma evictable_all: "cs_books s \<Longrightarrow> evictable (\<lambda>_. True) s = cs_order s"
  unfolding evictable_def by (rule filter_True) (auto simp: cs_books_def split: option.split)

lemma filter_keys: "map_of (filter (\<lambda>p. fst p \<notin> X) m) i = (if i \<in> X then None else map_of m i)"
  by (induction m) auto

lemma wsum_filter_le: "wsum w (filter Q m) \<le> wsum w m"
  by (induction m) (auto simp: wsum_def)

lemma usage_filter_le:
  "us_entries (usage_of d (filter Q m)) \<le> us_entries (usage_of d m)" "us_bytes (usage_of d (filter Q m)) \<le> us_bytes (usage_of d m)"
  by (simp_all add: usage_of_def wsum_filter_le)

text \<open>Taking a frame on within the budgets keeps the store in order.\<close>

lemma cs_inv_insert:
  assumes "cs_inv c s" "bytes_exact c" "map_of (cs_entries s) (msg_id (hf_message h)) = None" "fits_store (hf_bytes h) s"
    "us_entries (usage_of (hf_depositor h) (cs_entries s)) < max_entries"
    "sat_add64 (us_bytes (usage_of (hf_depositor h) (cs_entries s))) (hf_bytes h) \<le> max_bytes"
    "max_entries \<le> max (cc_max_entries_per_depositor c) (cc_stranger_max_entries c)"
    "max_bytes \<le> max (cc_max_bytes_per_depositor c) (cc_stranger_max_bytes c)"
  shows "cs_inv c (cs_insert h s)"
proof -
  let ?m = "cs_entries s" and ?d = "hf_depositor h"
  have c: "cs_config s = c" and b: "cs_books s" and q: "cs_quotas c ?m" using assms(1) by (simp_all add: cs_inv_def)
  have t: "cs_total s = usage_all ?m" using b by (simp add: cs_books_def)
  have fit: "us_entries (usage_all ?m) < cc_max_entries c" "sat_add64 (us_bytes (usage_all ?m)) (hf_bytes h) \<le> cc_max_bytes c"
    using assms(4) c t by (simp_all add: fits_store_def)
  then have bytes: "us_bytes (usage_all ?m) + hf_bytes h \<le> cc_max_bytes c" "cc_max_bytes c < u64_max"
    using assms(2) by (auto simp: bytes_exact_def sat_add64_def min_def split: if_splits)
  have "us_bytes (usage_of ?d ?m) + hf_bytes h \<le> max_bytes"
    using assms(6) bytes usage_bytes_le[of ?d ?m] by (auto simp: sat_add64_def min_def split: if_splits)
  then have "cs_quotas c (hm_insert (msg_id (hf_message h)) h ?m)"
    using q fit(1) bytes(1) assms(5,7,8) by (auto simp: cs_quotas_def usage_fresh[OF assms(3)])
  moreover have "cs_books (cs_insert h s)" using bytes by (intro cs_books_insert[OF b assms(3)]) simp
  ultimately show ?thesis using c by (simp add: cs_inv_def cs_insert_def Let_def)
qed

text \<open>The outcome of \<open>judge\<close>.  A refusal by the table or by a full budget leaves every held frame; an
  acceptance evicts some of the depositor's oldest frames and then some of the oldest of all.\<close>

lemma apply_store_budget_spec:
  assumes inv: "cs_inv c s" "bytes_exact c" and fresh: "map_of (cs_entries s) (msg_id (ca_message cand)) = None"
    and fits: "fits_depositor (adm_depositor a) bytes max_entries max_bytes s"
    and q: "max_entries \<le> max (cc_max_entries_per_depositor c) (cc_stranger_max_entries c)"
      "max_bytes \<le> max (cc_max_bytes_per_depositor c) (cc_stranger_max_bytes c)"
    and run: "apply_store_budget cand a bytes ev s = (res, s')"
  shows "(\<exists>s0. res = Inl StoreFull \<and> s' = count_refusal StoreFull s0 \<and> cs_inv c s0
        \<and> (s0 = s \<and> (cc_max_bytes c < bytes \<or> cc_overflow_policy c = DropNewest)
            \<or> bytes \<le> cc_max_bytes c \<and> \<not> fits_store bytes s0 \<and> evictable (\<lambda>_. True) s0 = []))
    \<or> (\<exists>vs rest h. res = Inr \<lparr>ac_id = msg_id (ca_message cand), ac_depositor = adm_depositor a, ac_class = adm_token a, ac_evicted = ev @ vs\<rparr>
        \<and> cs_order s = vs @ rest \<and> cs_inv c s'
        \<and> h = \<lparr>hf_message = ca_message cand, hf_depositor = adm_depositor a, hf_accepted_at_ms = ca_now_ms cand,
               hf_class = adm_token a, hf_bytes = bytes, hf_tried = {}, hf_in_flight = None\<rparr>
        \<and> cs_entries s' = hm_insert (msg_id (ca_message cand)) h (filter (\<lambda>p. fst p \<notin> set vs) (cs_entries s)))"
proof -
  have c: "cs_config s = c" and b: "cs_books s" using inv(1) by (simp_all add: cs_inv_def)
  show ?thesis
  proof (cases "cc_max_bytes c < bytes")
    case True
    then have "res = Inl StoreFull" "s' = count_refusal StoreFull s" using run c by (simp_all add: apply_store_budget_def)
    then show ?thesis using True inv(1) by blast
  next
    case False
    obtain r1 s1 where room: "make_room (fits_store bytes) (\<lambda>_. True) StoreFull ev s = (r1, s1)" by fastforce
    from this inv(1) show ?thesis
    proof (cases rule: make_room_cases)
      case (made vs rest)
      define h where "h = \<lparr>hf_message = ca_message cand, hf_depositor = adm_depositor a, hf_accepted_at_ms = ca_now_ms cand,
               hf_class = adm_token a, hf_bytes = bytes, hf_tried = {}, hf_in_flight = None\<rparr>"
      have u: "us_entries (usage_of (adm_depositor a) (cs_entries s)) < max_entries"
        "sat_add64 (us_bytes (usage_of (adm_depositor a) (cs_entries s))) bytes \<le> max_bytes"
        using fits depositor_usage_books[OF b] by (simp_all add: fits_depositor_def Let_def)
      have "us_entries (usage_of (adm_depositor a) (cs_entries s1)) < max_entries"
        using u(1) usage_filter_le(1)[of "adm_depositor a" _ "cs_entries s"] unfolding made(5) by (meson order_le_less_trans)
      moreover have "sat_add64 (us_bytes (usage_of (adm_depositor a) (cs_entries s1))) bytes \<le> max_bytes"
        using u(2) usage_filter_le(2)[of "adm_depositor a" "\<lambda>p. fst p \<notin> set vs" "cs_entries s"] unfolding made(5) sat_add64_def by linarith
      moreover have "map_of (cs_entries s1) (msg_id (hf_message h)) = None" using fresh by (simp add: made(5) filter_keys h_def)
      ultimately have ok: "cs_inv c (cs_insert h s1)"
        using made(2) q by (intro cs_inv_insert[OF made(3) inv(2)]) (simp_all add: h_def)
      have "res = Inr \<lparr>ac_id = msg_id (ca_message cand), ac_depositor = adm_depositor a, ac_class = adm_token a, ac_evicted = ev @ vs\<rparr>"
        "\<exists>n. s' = (cs_insert h s1)\<lparr>cs_stats := n\<rparr>"
        using run c False room made(1) by (auto simp: apply_store_budget_def Let_def h_def)
      moreover have "cs_entries (cs_insert h s1) = hm_insert (msg_id (ca_message cand)) h (cs_entries s1)"
        by (simp add: cs_insert_def Let_def h_def)
      ultimately have "res = Inr \<lparr>ac_id = msg_id (ca_message cand), ac_depositor = adm_depositor a, ac_class = adm_token a, ac_evicted = ev @ vs\<rparr>"
        "cs_entries s' = hm_insert (msg_id (ca_message cand)) h (filter (\<lambda>p. fst p \<notin> set vs) (cs_entries s))" "cs_inv c s'"
        using made(5) ok by auto
      moreover have "cs_order s = vs @ rest" using made(4) evictable_all[OF b] by simp
      ultimately show ?thesis using h_def by blast
    next
      case (refused s0)
      then have "res = Inl StoreFull" "s' = count_refusal StoreFull s0" using run c False room by (simp_all add: apply_store_budget_def)
      then show ?thesis using refused(3-5) False by (intro disjI1 exI[of _ s0]) (auto simp: not_less)
    qed
  qed
qed

lemma tier_quota_bounds:
  "tier_quota t c = (max_entries, max_bytes) \<Longrightarrow>
     max_entries \<le> max (cc_max_entries_per_depositor c) (cc_stranger_max_entries c)
     \<and> max_bytes \<le> max (cc_max_bytes_per_depositor c) (cc_stranger_max_bytes c)"
  by (cases t) auto

text \<open>Behind the table, \<open>judge\<close> is one of four: the frame is too large for its tier, the depositor's budget
  is full, the store's is, or the frame is taken on.\<close>

lemma apply_budgets_cases:
  assumes inv: "cs_inv c s" "bytes_exact c" and adm: "check_deposit cand s = Inr a"
    and run: "apply_budgets cand a s = (res, s')"
    and quota: "tier_quota (adm_tier a) c = (max_entries, max_bytes)"
  obtains (large) "res = Inl DepositorFull" "s' = count_refusal DepositorFull s"
    | (depositor) s0 where "res = Inl DepositorFull" "s' = count_refusal DepositorFull s0" "cs_inv c s0"
      "frame_footprint (ca_message cand) \<le> max_bytes"
      "\<not> fits_depositor (adm_depositor a) (frame_footprint (ca_message cand)) max_entries max_bytes s0"
      "s0 = s \<or> evictable (\<lambda>h. hf_depositor h = adm_depositor a) s0 = []"
    | (store) s1 s0 where "res = Inl StoreFull" "s' = count_refusal StoreFull s0" "cs_inv c s0" "cs_inv c s1"
      "frame_footprint (ca_message cand) \<le> max_bytes" "cc_overflow_policy c = DropOldest \<or> s1 = s"
      "s0 = s1 \<and> (cc_max_bytes c < frame_footprint (ca_message cand) \<or> cc_overflow_policy c = DropNewest)
        \<or> frame_footprint (ca_message cand) \<le> cc_max_bytes c \<and> \<not> fits_store (frame_footprint (ca_message cand)) s0
          \<and> evictable (\<lambda>_. True) s0 = []"
    | (taken) own rest others rest' h where
      "res = Inr \<lparr>ac_id = msg_id (ca_message cand), ac_depositor = adm_depositor a, ac_class = adm_token a, ac_evicted = own @ others\<rparr>"
      "evictable (\<lambda>h. hf_depositor h = adm_depositor a) s = own @ rest"
      "filter (\<lambda>i. i \<notin> set own) (cs_order s) = others @ rest'" "cs_inv c s'"
      "h = \<lparr>hf_message = ca_message cand, hf_depositor = adm_depositor a, hf_accepted_at_ms = ca_now_ms cand,
            hf_class = adm_token a, hf_bytes = frame_footprint (ca_message cand), hf_tried = {}, hf_in_flight = None\<rparr>"
      "cs_entries s' = hm_insert (msg_id (ca_message cand)) h (filter (\<lambda>p. fst p \<notin> set (own @ others)) (cs_entries s))"
proof -
  let ?d = "adm_depositor a" and ?n = "frame_footprint (ca_message cand)"
  have c: "cs_config s = c" and b: "cs_books s" using inv(1) by (simp_all add: cs_inv_def)
  have fresh: "map_of (cs_entries s) (msg_id (ca_message cand)) = None" by (rule check_depositD(5)[OF adm])
  note q = tier_quota_bounds[OF quota]
  show thesis
  proof (cases "max_bytes < ?n")
    case True
    then show thesis using run c quota by (intro large) (simp_all add: apply_budgets_def Let_def)
  next
    case False
    obtain r1 s1 where room: "make_room (fits_depositor ?d ?n max_entries max_bytes) (\<lambda>h. hf_depositor h = ?d) DepositorFull [] s = (r1, s1)"
      by fastforce
    from this inv(1) show thesis
    proof (cases rule: make_room_cases)
      case (refused s0)
      then have "res = Inl DepositorFull" "s' = count_refusal DepositorFull s0"
        using run c quota False room by (simp_all add: apply_budgets_def Let_def)
      then show thesis using refused False by (intro depositor[of s0]) (auto simp: not_less)
    next
      case (made own rest)
      have "apply_store_budget cand a ?n own s1 = (res, s')"
        using run c quota False room made(1) by (simp add: apply_budgets_def Let_def)
      moreover have "map_of (cs_entries s1) (msg_id (ca_message cand)) = None" using fresh by (simp add: made(5) filter_keys)
      ultimately consider
        (full) s0 where "res = Inl StoreFull" "s' = count_refusal StoreFull s0" "cs_inv c s0"
          "s0 = s1 \<and> (cc_max_bytes c < ?n \<or> cc_overflow_policy c = DropNewest)
            \<or> ?n \<le> cc_max_bytes c \<and> \<not> fits_store ?n s0 \<and> evictable (\<lambda>_. True) s0 = []"
        | (ok) others rest' h where "res = Inr \<lparr>ac_id = msg_id (ca_message cand), ac_depositor = ?d, ac_class = adm_token a, ac_evicted = own @ others\<rparr>"
          "cs_order s1 = others @ rest'" "cs_inv c s'"
          "h = \<lparr>hf_message = ca_message cand, hf_depositor = ?d, hf_accepted_at_ms = ca_now_ms cand,
                hf_class = adm_token a, hf_bytes = ?n, hf_tried = {}, hf_in_flight = None\<rparr>"
          "cs_entries s' = hm_insert (msg_id (ca_message cand)) h (filter (\<lambda>p. fst p \<notin> set others) (cs_entries s1))"
        using apply_store_budget_spec[OF made(3) inv(2) _ made(2) conjunct1[OF q] conjunct2[OF q]] by blast
      then show thesis
      proof cases
        case full
        then show thesis using made(3,7,8) False by (intro store[of s0 s1]) (auto simp: not_less)
      next
        case ok
        have "cs_entries s' = hm_insert (msg_id (ca_message cand)) h (filter (\<lambda>p. fst p \<notin> set (own @ others)) (cs_entries s))"
          unfolding ok(5) made(5) filter_filter by (rule arg_cong, rule filter_cong) auto
        then show thesis using ok made(4,6) by (intro taken[of own others rest rest' h]) simp_all
      qed
    qed
  qed
qed

lemma cs_inv_config: "cs_inv c s \<Longrightarrow> cs_config s = c"
  by (simp add: cs_inv_def)

lemma judge_ok:
  assumes "cs_inv c s" "bytes_exact c"
  shows "cs_inv c (snd (judge cand s))"
proof (cases "check_deposit cand s")
  case (Inl r)
  then show ?thesis using assms by (simp add: judge_def)
next
  case (Inr a)
  obtain res s' where run: "apply_budgets cand a s = (res, s')" by fastforce
  obtain me mb where quota: "tier_quota (adm_tier a) c = (me, mb)" by fastforce
  have "cs_inv c s'" by (rule apply_budgets_cases[OF assms Inr run quota]) (use assms in simp_all)
  then show ?thesis using Inr run by (simp add: judge_def)
qed

lemma admit_restored_ok:
  assumes "cs_inv c s" "bytes_exact c"
  shows "cs_inv c (snd (admit_restored m d t cl s))"
proof -
  have c: "cs_config s = c" and b: "cs_books s" using assms(1) by (simp_all add: cs_inv_def)
  let ?me = "max (cc_max_entries_per_depositor c) (cc_stranger_max_entries c)"
  let ?mb = "max (cc_max_bytes_per_depositor c) (cc_stranger_max_bytes c)"
  let ?h = "\<lparr>hf_message = m, hf_depositor = d, hf_accepted_at_ms = t, hf_class = cl, hf_bytes = frame_footprint m,
    hf_tried = {}, hf_in_flight = None\<rparr>"
  show ?thesis
  proof (cases "hm_contains (msg_id m) (cs_entries s) \<or> \<not> fits_depositor d (frame_footprint m) ?me ?mb s \<or> \<not> fits_store (frame_footprint m) s")
    case False
    then have "cs_inv c (cs_insert ?h s)"
      using depositor_usage_books[OF b, of d]
      by (intro cs_inv_insert[OF assms, where max_entries = ?me and max_bytes = ?mb]) (simp_all add: hm_contains_def fits_depositor_def Let_def)
    then show ?thesis using False c by (simp add: admit_restored_def Let_def)
  qed (use assms c in \<open>auto simp: admit_restored_def Let_def\<close>)
qed

lemma expire_one_ok: "cs_inv c s \<Longrightarrow> cs_inv c (expire_one mid s)"
  by (simp add: expire_one_def Let_def cs_inv_remove)

lemma expire_fold_ok: "cs_inv c s \<Longrightarrow> cs_inv c (fold expire_one ids s)"
  by (induction ids arbitrary: s) (simp_all add: expire_one_ok)

lemma cs_expire_ok: "cs_inv c s \<Longrightarrow> cs_inv c (snd (cs_expire now hold s))"
  by (simp add: cs_expire_def Let_def expire_fold_ok)

lemma update_held_ok:
  assumes "cs_inv c s" "\<And>h. hf_message (f h) = hf_message h \<and> hf_depositor (f h) = hf_depositor h \<and> hf_bytes (f h) = hf_bytes h"
  shows "cs_inv c (update_held mid f s)"
proof (cases "map_of (cs_entries s) mid")
  case (Some h)
  let ?m = "hm_insert mid (f h) (cs_entries s)"
  have b: "cs_books s" using assms(1) by (simp add: cs_inv_def)
  have "usage_of d ?m = usage_of d (cs_entries s)" "usage_all ?m = usage_all (cs_entries s)" for d
    using usage_update[OF Some, of "f h"] assms(2)[of h] by simp_all
  then have u: "usage_map ?m = usage_map (cs_entries s)" "usage_all ?m = usage_all (cs_entries s)" "cs_quotas c ?m = cs_quotas c (cs_entries s)"
    by (simp_all add: usage_map_def fun_eq_iff cs_quotas_def)
  have "keyed_by_id (cs_entries s)" using b by (simp add: cs_books_def)
  then have "keyed_by_id ?m" using keyed_by_id_get[OF _ Some] assms(2)[of h] by (intro keyed_insert) simp_all
  moreover have "insert mid (dom (map_of (cs_entries s))) = dom (map_of (cs_entries s))" using Some by auto
  ultimately show ?thesis using Some assms(1) b u by (simp add: update_held_def cs_inv_def cs_books_def)
qed (use assms in \<open>simp add: update_held_def\<close>)

lemma record_delivered_ok: "cs_inv c s \<Longrightarrow> cs_inv c (snd (record_delivered mid s))"
  using cs_inv_remove[of c s mid] by (cases "remove_inner mid s") (auto simp: record_delivered_def split: option.split)

lemma cs_inv_empty: "cs_inv c (s\<lparr>cs_config := c, cs_entries := [], cs_order := [], cs_per_depositor := [], cs_total := usage_zero\<rparr>)"
  by (simp add: cs_inv_def cs_books_def cs_quotas_def keyed_by_id_def usage_map_def usage_of_def usage_all_def usage_zero_def
    wsum_def fun_eq_iff)

lemma cs_inv_new: "cs_inv c (cs_new c)"
  using cs_inv_empty[of c "cs_new c"] by (simp add: cs_new_def)

lemma cs_erase_ok:
  assumes "cs_inv c s"
  shows "cs_inv c (snd (cs_erase s))"
proof -
  have "snd (cs_erase s) = (s\<lparr>cs_config := c, cs_entries := [], cs_order := [], cs_per_depositor := [], cs_total := usage_zero\<rparr>)\<lparr>cs_stats := custody_stats_zero\<rparr>"
    using cs_inv_config[OF assms] by (simp add: cs_erase_def)
  then show ?thesis by (simp only: cs_inv_stats cs_inv_empty)
qed

lemma cs_step_ok:
  assumes "cs_inv c s" "bytes_exact c"
  shows "cs_inv c (cs_step op s)"
proof (cases op)
  case (CsReOriginated i)
  then show ?thesis using assms by (simp add: record_re_originated_def Let_def update_held_ok)
qed (use assms in \<open>simp_all add: judge_ok admit_restored_ok cs_expire_ok record_delivered_ok cs_erase_ok
  mark_queued_def returned_def update_held_ok record_receipt_sent_def record_receipt_dropped_def record_receipt_received_def
  record_receipt_ignored_def split: option.split\<close>)

interpretation csm: machine cs_step "\<lambda>_ _. bytes_exact c" "cs_inv c" for c
  by unfold_locales (rule cs_step_ok)

lemma custody_run_inv:
  assumes "bytes_exact c"
  shows "cs_inv c (fold cs_step ops (cs_new c))"
proof -
  have "legal cs_step (\<lambda>_ _. bytes_exact c) ops s" for s using assms by (induction ops arbitrary: s) simp_all
  then show ?thesis by (rule csm.run_inv[OF cs_inv_new])
qed

text \<open>A refused deposit costs nobody a held frame, in a configuration that passes the check.\<close>

lemma refused_keeps:
  assumes ok: "custody_ok lifetime c" and inv: "cs_inv c s" and run: "judge cand s = (Inl r, s')"
  shows "s' = count_refusal r s"
proof (cases "check_deposit cand s")
  case (Inl r')
  then show ?thesis using run by (auto simp: judge_def)
next
  case (Inr a)
  note D = custody_okD[OF ok]
  have c: "cs_config s = c" using inv by (simp add: cs_inv_def)
  obtain me mb where quota: "tier_quota (adm_tier a) c = (me, mb)" by fastforce
  have budgets: "apply_budgets cand a s = (Inl r, s')" using run Inr by (simp add: judge_def)
  have me: "0 < me" "mb \<le> cc_max_bytes c"
    using quota D check_depositD(10)[OF Inr] c by (cases "adm_tier a"; auto)+
  show ?thesis
  proof (rule apply_budgets_cases[OF inv D(5) Inr budgets quota], goal_cases)
    case (2 s0)
    have "s0 = s" using 2(3-6) depositor_fits_empty[OF cs_inv_books[OF 2(3)] _ me(1) 2(4)] by blast
    then show ?case using 2 by simp
  next
    case (3 s1 s0)
    have fp: "frame_footprint (ca_message cand) \<le> cc_max_bytes c" using 3(5) me(2) by simp
    have "\<not> evictable (\<lambda>_. True) s0 = [] \<or> fits_store (frame_footprint (ca_message cand)) s0"
      using store_fits_empty[OF cs_inv_books[OF 3(3)]] cs_inv_config[OF 3(3)] D(2) fp by blast
    then have "s0 = s1" "cc_overflow_policy c = DropNewest" using 3(7) fp by auto
    then show ?case using 3(1,2,6) by auto
  qed simp_all
qed

lemma accepted_spec:
  assumes inv: "cs_inv c s" "bytes_exact c" and run: "judge cand s = (Inr a, s')"
  obtains adm own rest others rest' h where "check_deposit cand s = Inr adm"
    "a = \<lparr>ac_id = msg_id (ca_message cand), ac_depositor = adm_depositor adm, ac_class = adm_token adm, ac_evicted = own @ others\<rparr>"
    "evictable (\<lambda>h. hf_depositor h = adm_depositor adm) s = own @ rest"
    "filter (\<lambda>i. i \<notin> set own) (cs_order s) = others @ rest'" "cs_inv c s'"
    "h = \<lparr>hf_message = ca_message cand, hf_depositor = adm_depositor adm, hf_accepted_at_ms = ca_now_ms cand,
          hf_class = adm_token adm, hf_bytes = frame_footprint (ca_message cand), hf_tried = {}, hf_in_flight = None\<rparr>"
    "cs_entries s' = hm_insert (msg_id (ca_message cand)) h (filter (\<lambda>p. fst p \<notin> set (own @ others)) (cs_entries s))"
proof (cases "check_deposit cand s")
  case (Inl r)
  then show thesis using run by (simp add: judge_def)
next
  case (Inr adm)
  obtain me mb where quota: "tier_quota (adm_tier adm) c = (me, mb)" by fastforce
  have budgets: "apply_budgets cand adm s = (Inr a, s')" using run Inr by (simp add: judge_def)
  show thesis
    by (rule apply_budgets_cases[OF inv Inr budgets quota]) (use that[OF Inr] in auto)
qed

lemma stats_count_refusals: "refusals (stats_count r s) q = (if q = r then sat_add64 (refusals s q) 1 else refusals s q)"
  by (cases r; cases q) simp_all

lemma wsum_count: "wsum (of_depositor d (\<lambda>_. 1)) m = length (filter (\<lambda>(_, h). hf_depositor h = d) m)"
  and wsum_bytes: "wsum (of_depositor d hf_bytes) m = sum_list (map (\<lambda>(_, h). hf_bytes h) (filter (\<lambda>(_, h). hf_depositor h = d) m))"
  and wsum_length: "wsum (\<lambda>_. 1) m = length m"
  by (induction m) (auto simp: wsum_def of_depositor_def)

subsection \<open>Expiry and redelivery\<close>

lemma expire_fold_entries: "cs_entries (fold expire_one ids s) = filter (\<lambda>p. fst p \<notin> set ids) (cs_entries s)"
proof (induction ids arbitrary: s)
  case (Cons i ids)
  have "cs_entries (expire_one i s) = hm_remove i (cs_entries s)" by (simp add: expire_one_def Let_def remove_inner_parts)
  then show ?case using Cons.IH[of "expire_one i s"] by (simp add: hm_remove_def conj_commute)
qed simp

lemma cs_expire_exact:
  assumes "cs_books s"
  shows "cs_entries (snd (cs_expire now hold s)) = filter (\<lambda>(_, h). \<not> hold_over now hold h) (cs_entries s)"
    "fst (cs_expire now hold s) = map fst (filter (\<lambda>(_, h). hold_over now hold h) (cs_entries s))"
proof -
  let ?m = "cs_entries s" and ?ids = "fst (cs_expire now hold s)"
  have k: "msg_id (hf_message h) = i" if "(i, h) \<in> set ?m" for i h
    using that assms by (auto simp: cs_books_def keyed_by_id_def list_all_iff)
  then show ids: "?ids = map fst (filter (\<lambda>(_, h). hold_over now hold h) ?m)"
    by (auto simp: cs_expire_def Let_def)
  have inv: "hm_inv ?m" by (rule cs_books_hm[OF assms])
  have "fst p \<notin> set ?ids \<longleftrightarrow> \<not> hold_over now hold (snd p)" if p: "p \<in> set ?m" for p
  proof
    assume fresh: "\<not> hold_over now hold (snd p)"
    have "h = snd p" if "(fst p, h) \<in> set ?m" for h
      using that p hm_in_set_get[OF inv, of "fst p" h] hm_in_set_get[OF inv, of "fst p" "snd p"] by simp
    then show "fst p \<notin> set ?ids" using fresh unfolding ids by auto
  qed (use p in \<open>force simp: ids\<close>)
  then have "filter (\<lambda>p. fst p \<notin> set ?ids) ?m = filter (\<lambda>(_, h). \<not> hold_over now hold h) ?m"
    by (intro filter_cong) auto
  then show "cs_entries (snd (cs_expire now hold s)) = filter (\<lambda>(_, h). \<not> hold_over now hold h) ?m"
    using expire_fold_entries[of ?ids s] by (simp add: cs_expire_def Let_def)
qed

lemma candidates_for_iff:
  assumes "cs_books s"
  shows "i \<in> set (candidates_for peer s) \<longleftrightarrow> (\<exists>h. map_of (cs_entries s) i = Some h \<and> eligible_for peer h)"
proof -
  have "set (List.map_filter (map_of (cs_entries s)) (cs_order s)) = {h. \<exists>j\<in>set (cs_order s). map_of (cs_entries s) j = Some h}"
    by (auto simp: List.map_filter_def image_iff) force
  moreover have "j \<in> set (cs_order s) \<longleftrightarrow> map_of (cs_entries s) j \<noteq> None" for j using assms by (auto simp: cs_books_def)
  moreover have "map_of (cs_entries s) j = Some h \<Longrightarrow> msg_id (hf_message h) = j" for j h
    using assms keyed_by_id_get by (auto simp: cs_books_def)
  ultimately show ?thesis unfolding candidates_for_def by (auto simp: image_iff) blast+
qed

lemma update_held_get:
  "map_of (cs_entries (update_held i f s)) j = (if j = i then map_option f (map_of (cs_entries s) i) else map_of (cs_entries s) j)"
  by (auto simp: update_held_def split: option.split)

subsection \<open>Receipts\<close>

text \<open>What the receipt codec relies on: a receipt written out parses to an object that carries its version
  and reads back as the receipt.\<close>

definition receipt_json_laws :: "'v receipt_json \<Rightarrow> bool" where
  "receipt_json_laws j \<longleftrightarrow> (\<forall>r. \<exists>v. rj_from_str j (rj_to_string j r) = Some v \<and> rj_is_object j v
     \<and> rj_get_v j v = Some (cr_v r) \<and> rj_from_value j v = Some r)"

lemma receipt_roundtrip:
  assumes "receipt_json_laws j" "mid \<noteq> []"
  shows "decode_receipt j (drop (length CUSTODY_RECEIPT_PREFIX) (encode_receipt j mid hold_ms))
    = Inr \<lparr>cr_v = 1, cr_id = mid, cr_hold_ms = hold_ms\<rparr>"
proof -
  let ?r = "\<lparr>cr_v = 1, cr_id = mid, cr_hold_ms = hold_ms\<rparr>"
  obtain v where "rj_from_str j (rj_to_string j ?r) = Some v" "rj_is_object j v" "rj_get_v j v = Some (cr_v ?r)" "rj_from_value j v = Some ?r"
    using assms(1) unfolding receipt_json_laws_def by blast
  then show ?thesis using assms(2) by (simp add: encode_receipt_def decode_receipt_def)
qed

subsection \<open>Properties\<close>

definition custody_example_config :: custody_config where
  "custody_example_config = custody_config_default\<lparr>cc_enabled := True, cc_max_entries_per_depositor := 1\<rparr>"

definition deposit_example :: "nat \<Rightarrow> custody_candidate" where
  "deposit_example n = \<lparr>ca_message = message_from_parts [of_nat n] ''alice'' ''bob'' ''chat'' ''__MLS_ENC__x'' 5,
     ca_request = Some ''data'', ca_arrival_peer = Some ''alice'', ca_session_tier = True, ca_battery_ok = True, ca_now_ms = 7\<rparr>"

lemma custody_example_ok: "custody_ok 86400000 custody_example_config"
  by (simp add: custody_ok_def validate_custody_def custody_example_config_def custody_config_default_def bytes_exact_def)

text \<open>C36. Through any sequence of deposits, restores, expiries, redeliveries and erasures the custody store
  keeps its books: the frames held stay within the entry and byte budgets, each depositor within the
  larger of the two tiers, the usage recorded for a depositor is the number and the bytes of the frames
  held for it, the gauges show what is held, and the order lists every held frame once.\<close>

theorem custody_books_balance:
  assumes "bytes_exact c"
  shows "let s = fold cs_step ops (cs_new c);
             own = filter (\<lambda>(_, h). hf_depositor h = d) (cs_entries s)
    in length (cs_entries s) \<le> cc_max_entries c \<and> sum_list (map (\<lambda>(_, h). hf_bytes h) (cs_entries s)) \<le> cc_max_bytes c
      \<and> length own \<le> max (cc_max_entries_per_depositor c) (cc_stranger_max_entries c)
      \<and> sum_list (map (\<lambda>(_, h). hf_bytes h) own) \<le> max (cc_max_bytes_per_depositor c) (cc_stranger_max_bytes c)
      \<and> depositor_usage d s = \<lparr>us_entries = length own, us_bytes = sum_list (map (\<lambda>(_, h). hf_bytes h) own)\<rparr>
      \<and> st_held (cs_get_stats s) = length (cs_entries s)
      \<and> st_held_bytes (cs_get_stats s) = sum_list (map (\<lambda>(_, h). hf_bytes h) (cs_entries s))
      \<and> distinct (cs_order s) \<and> set (cs_order s) = fst ` set (cs_entries s)"
proof -
  define s where "s = fold cs_step ops (cs_new c)"
  have inv: "cs_inv c s" unfolding s_def by (rule custody_run_inv[OF assms])
  have b: "cs_books s" and q: "cs_quotas c (cs_entries s)" using inv by (simp_all add: cs_inv_def)
  note sums = wsum_count wsum_bytes wsum_length
  have bytes: "sum_list (map (\<lambda>(_, h). hf_bytes h) (cs_entries s)) = wsum hf_bytes (cs_entries s)" by (simp add: wsum_def)
  have "length (cs_entries s) \<le> cc_max_entries c" "wsum hf_bytes (cs_entries s) \<le> cc_max_bytes c"
    using q by (simp_all add: cs_quotas_def usage_all_def wsum_length del: One_nat_def)
  moreover have "us_entries (usage_of d (cs_entries s)) \<le> max (cc_max_entries_per_depositor c) (cc_stranger_max_entries c)"
    "us_bytes (usage_of d (cs_entries s)) \<le> max (cc_max_bytes_per_depositor c) (cc_stranger_max_bytes c)"
    using q by (simp_all add: cs_quotas_def)
  moreover have "depositor_usage d s = usage_of d (cs_entries s)" by (rule depositor_usage_books[OF b])
  moreover have "st_held_bytes (cs_get_stats s) = wsum hf_bytes (cs_entries s)"
    using b by (simp add: cs_get_stats_def cs_books_def usage_all_def)
  moreover have "set (cs_order s) = fst ` set (cs_entries s)" "distinct (cs_order s)"
    using b by (simp_all add: cs_books_def dom_map_of_conv_image_fst)
  ultimately show ?thesis unfolding s_def[symmetric] Let_def bytes
    by (simp add: usage_of_def wsum_count wsum_bytes cs_get_stats_def del: One_nat_def)
qed

theorem custody_books_balance_witness:
  "length (cs_entries (fold cs_step [CsJudge (deposit_example 1), CsJudge (deposit_example 2)] (cs_new custody_example_config))) \<le> 512"
proof -
  have c: "bytes_exact custody_example_config" "cc_max_entries custody_example_config = 512"
    by (simp_all add: bytes_exact_def custody_example_config_def custody_config_default_def)
  show ?thesis using custody_books_balance[OF c(1), of "[CsJudge (deposit_example 1), CsJudge (deposit_example 2)]"] c(2)
    unfolding Let_def by metis
qed

text \<open>C35. The outcome of a deposit.  A refused one, whatever the reason, leaves every held frame and only
  counts the reason, so no deposit is refused after frames have been evicted for it.  An accepted one
  was asked for, is sealed, came over a link that proved its sender, was not held before, and is held
  now; gone are exactly the frames the acceptance names, which are first some of the depositor's own
  frames, oldest first, and then some of the oldest frames of the store.\<close>

theorem deposit_outcome:
  assumes "custody_ok lifetime c" "cs_inv c s"
  shows "case judge cand s of
      (Inl r, s') \<Rightarrow> cs_entries s' = cs_entries s \<and> cs_order s' = cs_order s
        \<and> refusals (cs_stats s') r = sat_add64 (refusals (cs_stats s) r) 1
    | (Inr a, s') \<Rightarrow> ca_request cand = Some CUSTODY_CLASS_DATA \<and> ca_battery_ok cand
        \<and> ca_arrival_peer cand = Some (msg_sender (ca_message cand))
        \<and> take (length ENCRYPTED_PREFIX) (msg_content (ca_message cand)) = ENCRYPTED_PREFIX
        \<and> hm_contains (msg_id (ca_message cand)) (cs_entries s) = False
        \<and> map_option hf_message (map_of (cs_entries s') (msg_id (ca_message cand))) = Some (ca_message cand)
        \<and> (\<forall>i. i = msg_id (ca_message cand) \<or>
              map_of (cs_entries s') i = (if i \<in> set (ac_evicted a) then None else map_of (cs_entries s) i))
        \<and> (\<exists>own others rest rest'. ac_evicted a = own @ others
              \<and> filter (\<lambda>i. map_option hf_depositor (map_of (cs_entries s) i) = Some (ac_depositor a)) (cs_order s) = own @ rest
              \<and> filter (\<lambda>i. i \<notin> set own) (cs_order s) = others @ rest')"
proof -
  obtain res s' where j: "judge cand s = (res, s')" by fastforce
  show ?thesis
  proof (cases res)
    case (Inl r)
    have "s' = count_refusal r s" using refused_keeps[OF assms] j Inl by blast
    then show ?thesis using j Inl by (simp add: count_refusal_def stats_count_refusals)
  next
    case (Inr a)
    have run: "judge cand s = (Inr a, s')" using j Inr by simp
    show ?thesis
    proof (rule accepted_spec[OF assms(2) custody_okD(5)[OF assms(1)] run], goal_cases)
      case (1 adm own rest others rest' h)
      note table = check_depositD[OF 1(1)]
      have ev: "ac_evicted a = own @ others" "ac_depositor a = adm_depositor adm" using 1(2) by simp_all
      have get: "map_of (cs_entries s') = (map_of (filter (\<lambda>p. fst p \<notin> set (own @ others)) (cs_entries s)))(msg_id (ca_message cand) \<mapsto> h)"
        unfolding 1(7) by (rule hm_insert_get)
      have own: "filter (\<lambda>i. map_option hf_depositor (map_of (cs_entries s) i) = Some (ac_depositor a)) (cs_order s) = own @ rest"
        unfolding 1(3)[symmetric] evictable_def ev(2) by (rule filter_cong) (auto split: option.split)
      have "\<forall>i. i = msg_id (ca_message cand) \<or>
              map_of (cs_entries s') i = (if i \<in> set (ac_evicted a) then None else map_of (cs_entries s) i)"
        unfolding get ev(1) fun_upd_apply filter_keys by simp
      moreover have "map_option hf_message (map_of (cs_entries s') (msg_id (ca_message cand))) = Some (ca_message cand)"
        unfolding get 1(6) by simp
      moreover have "\<exists>own others rest rest'. ac_evicted a = own @ others
              \<and> filter (\<lambda>i. map_option hf_depositor (map_of (cs_entries s) i) = Some (ac_depositor a)) (cs_order s) = own @ rest
              \<and> filter (\<lambda>i. i \<notin> set own) (cs_order s) = others @ rest'" using ev(1) own 1(4) by blast
      ultimately show ?case unfolding run using table by (simp add: hm_contains_def)
    qed
  qed
qed

theorem deposit_outcome_witness:
  "let s = snd (judge (deposit_example 1) (cs_new custody_example_config)) in
     map_option ac_evicted (case fst (judge (deposit_example 2) s) of Inr a \<Rightarrow> Some a | Inl _ \<Rightarrow> None) = Some [[1]]
     \<and> hm_contains [2] (cs_entries s) = False"
proof -
  let ?s = "snd (judge (deposit_example 1) (cs_new custody_example_config))"
  have inv: "cs_inv custody_example_config ?s"
    by (rule judge_ok[OF cs_inv_new custody_okD(5)[OF custody_example_ok]])
  have "map_option ac_evicted (case fst (judge (deposit_example 2) ?s) of Inr a \<Rightarrow> Some a | Inl _ \<Rightarrow> None) = Some [[1]]"
    by code_simp
  then obtain a s' where j: "judge (deposit_example 2) ?s = (Inr a, s')" "ac_evicted a = [[1]]"
    by (cases "judge (deposit_example 2) ?s") (auto split: sum.splits)
  have "msg_id (ca_message (deposit_example 2)) = [2]" by (simp add: deposit_example_def message_from_parts_def)
  then show ?thesis using deposit_outcome[OF custody_example_ok inv, of "deposit_example 2"] j by (simp add: Let_def)
qed

end
