(* ===== verification/State_Store.thy ===== *)
theory State_Store
  imports Bytes "HOL-Library.Char_ord" "HOL-Library.List_Lexorder"
begin

text \<open>
  Durable protocol state: \<open>protocol/state_crypto.rs\<close>, the record chokepoint of \<open>protocol/storage.rs\<close>, the
  storage trait of \<open>protocol_state_storage.rs\<close> and the in-memory store of the web crate
  (\<open>memory_store.rs\<close>), all under \<open>src/crates\<close>.

  \<^item> A host store is a value of \<open>'s storage_ops\<close>, the four methods of the trait on a state \<open>'s\<close>.  The
    locale \<open>state_storage\<close> is the contract the trait documents; the in-memory store is an instance of it.
  \<^item> \<open>write_state_record\<close> and \<open>read_state_record_detailed_budgeted\<close> are the one way records go in and come
    out: the size limit, the decision whether a category is sealed, and the sealing itself.
  \<^item> ChaCha20-Poly1305 is the parameter \<open>aead\<close>; the nonce the code draws is an argument of \<open>seal\<close>.  The
    envelope and the data it is bound to are modelled to the byte.
  \<^item> The pools and budgets of deletes on the restore path are modelled with the counters they share: a
    budget holds what is left of its pool, and \<open>give_back\<close> is the end of the borrow.

  The text of an error is not modelled.
\<close>

subsection \<open>Categories and their key types\<close>

datatype state_category =
    PendingMessages | PendingMessageEntries | PendingDecryptEntries | CustodyEntries | Outbox
  | MediaDescriptors | PeerKeyPackages | PeerCapabilities | SessionStates | WelcomeLifecycles
  | BlockedUsers | BothCreateAwaitingDecrypt | LamportClock | DedupSeenIds | NostrWatermark
  | NostrKeyPackageSlots | NostrDiscoveryClaim | StateAdoption | DataDocs | DataDeltaLog
  | DataSpaces | DataSync | DataDocMeta

fun key_type :: "state_category \<Rightarrow> string" where
  "key_type PendingMessages = ''pending_messages''"
| "key_type PendingMessageEntries = ''pending_message_entries''"
| "key_type PendingDecryptEntries = ''pending_decrypt_entries''"
| "key_type CustodyEntries = ''custody_entries''"
| "key_type Outbox = ''outbox''"
| "key_type MediaDescriptors = ''media_descriptors''"
| "key_type PeerKeyPackages = ''peer_key_packages''"
| "key_type PeerCapabilities = ''peer_capabilities''"
| "key_type SessionStates = ''session_states''"
| "key_type WelcomeLifecycles = ''welcome_lifecycles''"
| "key_type BlockedUsers = ''blocked_users''"
| "key_type BothCreateAwaitingDecrypt = ''both_create_awaiting_decrypt''"
| "key_type LamportClock = ''lamport_clock''"
| "key_type DedupSeenIds = ''dedup_seen_ids''"
| "key_type NostrWatermark = ''nostr_watermark''"
| "key_type NostrKeyPackageSlots = ''nostr_key_package_slots''"
| "key_type NostrDiscoveryClaim = ''nostr_discovery_claim''"
| "key_type StateAdoption = ''protocol_state_adoption''"
| "key_type DataDocs = ''data_docs''"
| "key_type DataDeltaLog = ''data_delta_log''"
| "key_type DataSpaces = ''data_spaces''"
| "key_type DataSync = ''data_sync''"
| "key_type DataDocMeta = ''data_doc_meta''"

abbreviation CUSTODY_KEY_TYPE :: string where "CUSTODY_KEY_TYPE \<equiv> ''custody_entries''"
abbreviation LAMPORT_CLOCK_KEY_TYPE :: string where "LAMPORT_CLOCK_KEY_TYPE \<equiv> ''lamport_clock''"
abbreviation LAMPORT_CLOCK_ID :: string where "LAMPORT_CLOCK_ID \<equiv> ''current''"

definition from_key_type :: "string \<Rightarrow> state_category option" where
  "from_key_type t =
     (if t = ''pending_messages'' then Some PendingMessages
      else if t = ''pending_message_entries'' then Some PendingMessageEntries
      else if t = ''pending_decrypt_entries'' then Some PendingDecryptEntries
      else if t = ''custody_entries'' then Some CustodyEntries
      else if t = ''outbox'' then Some Outbox
      else if t = ''media_descriptors'' then Some MediaDescriptors
      else if t = ''peer_key_packages'' then Some PeerKeyPackages
      else if t = ''peer_capabilities'' then Some PeerCapabilities
      else if t = ''session_states'' then Some SessionStates
      else if t = ''welcome_lifecycles'' then Some WelcomeLifecycles
      else if t = ''blocked_users'' then Some BlockedUsers
      else if t = ''both_create_awaiting_decrypt'' then Some BothCreateAwaitingDecrypt
      else if t = ''lamport_clock'' then Some LamportClock
      else if t = ''dedup_seen_ids'' then Some DedupSeenIds
      else if t = ''nostr_watermark'' then Some NostrWatermark
      else if t = ''nostr_key_package_slots'' then Some NostrKeyPackageSlots
      else if t = ''nostr_discovery_claim'' then Some NostrDiscoveryClaim
      else if t = ''protocol_state_adoption'' then Some StateAdoption
      else if t = ''data_docs'' then Some DataDocs
      else if t = ''data_delta_log'' then Some DataDeltaLog
      else if t = ''data_spaces'' then Some DataSpaces
      else if t = ''data_sync'' then Some DataSync
      else if t = ''data_doc_meta'' then Some DataDocMeta
      else None)"

definition StateCategory_ALL :: "state_category list" where
  "StateCategory_ALL = [PendingMessages, PendingMessageEntries, PendingDecryptEntries, CustodyEntries, Outbox,
     MediaDescriptors, PeerKeyPackages, PeerCapabilities, SessionStates, WelcomeLifecycles,
     BlockedUsers, BothCreateAwaitingDecrypt, LamportClock, DedupSeenIds, NostrWatermark,
     NostrKeyPackageSlots, NostrDiscoveryClaim, StateAdoption, DataDocs, DataDeltaLog,
     DataSpaces, DataSync, DataDocMeta]"

fun requires_sealing :: "state_category \<Rightarrow> bool" where
  "requires_sealing PeerCapabilities = False"
| "requires_sealing SessionStates = False"
| "requires_sealing WelcomeLifecycles = False"
| "requires_sealing BlockedUsers = False"
| "requires_sealing BothCreateAwaitingDecrypt = False"
| "requires_sealing LamportClock = False"
| "requires_sealing NostrWatermark = False"
| "requires_sealing StateAdoption = False"
| "requires_sealing _ = True"

definition sealed_state_key_types :: "string list" where
  "sealed_state_key_types = map key_type (filter requires_sealing StateCategory_ALL)"

definition record_requires_sealing :: "string \<Rightarrow> bool" where
  "record_requires_sealing t = (case from_key_type t of Some category \<Rightarrow> requires_sealing category | None \<Rightarrow> False)"

subsection \<open>Sealing\<close>

text \<open>The cipher under the record key of the install: encryption and decryption for a nonce, associated data
  and a text.\<close>

record aead =
  ae_encrypt :: "bytes \<Rightarrow> bytes \<Rightarrow> bytes \<Rightarrow> bytes option"
  ae_decrypt :: "bytes \<Rightarrow> bytes \<Rightarrow> bytes \<Rightarrow> bytes option"

definition RECORD_MAGIC :: bytes where "RECORD_MAGIC = str_bytes ''OPS1''"
abbreviation NONCE_BYTES :: nat where "NONCE_BYTES \<equiv> 12"
abbreviation TAG_BYTES :: nat where "TAG_BYTES \<equiv> 16"
abbreviation AAD_SEPARATOR :: u8 where "AAD_SEPARATOR \<equiv> 0x1f"

definition SEALED_RECORD_OVERHEAD :: nat where
  "SEALED_RECORD_OVERHEAD = length RECORD_MAGIC + NONCE_BYTES + TAG_BYTES"

definition associated_data :: "string \<Rightarrow> string \<Rightarrow> bytes" where
  "associated_data kt kid = RECORD_MAGIC @ str_bytes kt @ [AAD_SEPARATOR] @ str_bytes kid"

definition seal :: "aead \<Rightarrow> bytes \<Rightarrow> string \<Rightarrow> string \<Rightarrow> bytes \<Rightarrow> bytes option" where
  "seal A nonce_bytes kt kid plaintext =
     map_option (\<lambda>ciphertext. RECORD_MAGIC @ nonce_bytes @ ciphertext)
       (ae_encrypt A nonce_bytes (associated_data kt kid) plaintext)"

definition open_record :: "aead \<Rightarrow> string \<Rightarrow> string \<Rightarrow> bytes \<Rightarrow> bytes option" where
  "open_record A kt kid sealed =
     (let header = length RECORD_MAGIC + NONCE_BYTES in
      if length sealed \<le> header \<or> take (length RECORD_MAGIC) sealed \<noteq> RECORD_MAGIC then None
      else ae_decrypt A (take NONCE_BYTES (drop (length RECORD_MAGIC) sealed)) (associated_data kt kid) (drop header sealed))"

subsection \<open>The storage trait\<close>

datatype state_error = NotFound | Corrupted | StoreFailed | LoadFailed | DeleteFailed

record 's storage_ops =
  so_store :: "string \<Rightarrow> string \<Rightarrow> bytes \<Rightarrow> 's \<Rightarrow> (state_error + unit) \<times> 's"
  so_load :: "string \<Rightarrow> string \<Rightarrow> 's \<Rightarrow> (state_error + bytes option) \<times> 's"
  so_delete :: "string \<Rightarrow> string \<Rightarrow> 's \<Rightarrow> (state_error + unit) \<times> 's"
  so_list_keys :: "string \<Rightarrow> 's \<Rightarrow> (state_error + string list) \<times> 's"

type_synonym memory_store = "(string \<times> string, bytes) hashmap"

definition ms_store :: "string \<Rightarrow> string \<Rightarrow> bytes \<Rightarrow> memory_store \<Rightarrow> (state_error + unit) \<times> memory_store" where
  "ms_store kt kid d s = (Inr (), hm_insert (kt, kid) d s)"

definition ms_load :: "string \<Rightarrow> string \<Rightarrow> memory_store \<Rightarrow> (state_error + bytes option) \<times> memory_store" where
  "ms_load kt kid s = (Inr (map_of s (kt, kid)), s)"

definition ms_delete :: "string \<Rightarrow> string \<Rightarrow> memory_store \<Rightarrow> (state_error + unit) \<times> memory_store" where
  "ms_delete kt kid s = (Inr (), hm_remove (kt, kid) s)"

definition ms_list_keys :: "string \<Rightarrow> memory_store \<Rightarrow> (state_error + string list) \<times> memory_store" where
  "ms_list_keys kt s = (Inr (sort (remdups (map snd (filter (\<lambda>k. fst k = kt) (map fst s))))), s)"

definition memory_storage :: "memory_store storage_ops" where
  "memory_storage = \<lparr>so_store = ms_store, so_load = ms_load, so_delete = ms_delete, so_list_keys = ms_list_keys\<rparr>"

subsection \<open>Pools and budgets of deletes\<close>

abbreviation MAX_RESTORE_PRUNE_DELETES :: nat where "MAX_RESTORE_PRUNE_DELETES \<equiv> 512"
abbreviation ADVISORY_PRUNE_WALKS :: nat where "ADVISORY_PRUNE_WALKS \<equiv> 5"
abbreviation MIN_ADVISORY_PRUNE_DELETES :: nat where "MIN_ADVISORY_PRUNE_DELETES \<equiv> 64"

record prune_allowance =
  pa_remaining :: nat
  pa_advisory_walks_left :: nat

record prune_budget =
  pb_remaining :: nat
  pb_ceiling :: nat
  pb_drawn :: nat
  pb_spent :: nat
  pb_exhausted :: bool
  pb_refusable :: bool

definition pool :: prune_allowance where
  "pool = \<lparr>pa_remaining = MAX_RESTORE_PRUNE_DELETES, pa_advisory_walks_left = ADVISORY_PRUNE_WALKS\<rparr>"

definition pb_new :: "nat \<Rightarrow> nat \<Rightarrow> bool \<Rightarrow> prune_budget" where
  "pb_new remaining ceiling refusable = \<lparr>pb_remaining = remaining, pb_ceiling = ceiling, pb_drawn = 0,
     pb_spent = 0, pb_exhausted = False, pb_refusable = refusable\<rparr>"

definition refusing :: "prune_allowance \<Rightarrow> prune_budget \<times> prune_allowance" where
  "refusing a =
     (let later = pa_advisory_walks_left a - 1; reserved = min (later * MIN_ADVISORY_PRUNE_DELETES) u64_max
      in (pb_new (pa_remaining a) (pa_remaining a - reserved) True, a\<lparr>pa_advisory_walks_left := later\<rparr>))"

definition refusing_private :: "prune_allowance \<Rightarrow> prune_budget" where
  "refusing_private a = pb_new (pa_remaining a) (pa_remaining a) True"

definition counting :: "prune_allowance \<Rightarrow> prune_budget" where
  "counting a = pb_new (pa_remaining a) (pa_remaining a) False"

definition give_back :: "prune_budget \<Rightarrow> prune_allowance \<Rightarrow> prune_allowance" where
  "give_back b a = a\<lparr>pa_remaining := pb_remaining b\<rparr>"

definition is_spent :: "prune_budget \<Rightarrow> bool" where
  "is_spent b \<longleftrightarrow> pb_remaining b = 0 \<or> pb_ceiling b \<le> pb_drawn b"

definition claim :: "prune_budget \<Rightarrow> bool \<times> prune_budget" where
  "claim b =
     (if is_spent b
      then (if pb_refusable b then (False, b\<lparr>pb_exhausted := True\<rparr>)
            else (True, b\<lparr>pb_exhausted := True, pb_spent := sat_add64 (pb_spent b) 1\<rparr>))
      else (True, b\<lparr>pb_remaining := pb_remaining b - 1, pb_drawn := sat_add64 (pb_drawn b) 1,
                    pb_spent := sat_add64 (pb_spent b) 1\<rparr>))"

definition claim_prune :: "prune_budget option \<Rightarrow> bool \<times> prune_budget option" where
  "claim_prune budget = (case budget of
       Some b \<Rightarrow> (case claim b of (ok, b') \<Rightarrow> (ok, Some b'))
     | None \<Rightarrow> (True, None))"

subsection \<open>Records in and out\<close>

abbreviation MAX_PROTOCOL_STATE_RECORD_BYTES :: nat where "MAX_PROTOCOL_STATE_RECORD_BYTES \<equiv> 4 * 1024 * 1024"

text \<open>The cipher is an option: the record key may not be loaded.\<close>

definition write_state_record ::
  "'s storage_ops \<Rightarrow> aead option \<Rightarrow> bytes \<Rightarrow> string \<Rightarrow> string \<Rightarrow> bytes \<Rightarrow> 's \<Rightarrow> (state_error + unit) \<times> 's" where
  "write_state_record S cipher nonce kt kid d s =
     (if MAX_PROTOCOL_STATE_RECORD_BYTES < length d then (Inl StoreFailed, s)
      else (case from_key_type kt of
              None \<Rightarrow> (Inl StoreFailed, s)
            | Some category \<Rightarrow>
                if \<not> requires_sealing category then so_store S kt kid d s
                else (case cipher of
                        None \<Rightarrow> (Inl StoreFailed, s)
                      | Some A \<Rightarrow>
                          (case seal A nonce kt kid d of
                             None \<Rightarrow> (Inl StoreFailed, s)
                           | Some sealed \<Rightarrow> so_store S kt kid sealed s))))"

datatype state_record = Missing | Unreadable | Unavailable | Present bytes

fun into_bytes :: "state_record \<Rightarrow> bytes option" where
  "into_bytes (Present d) = Some d"
| "into_bytes Missing = None"
| "into_bytes Unreadable = None"
| "into_bytes Unavailable = None"

text \<open>The unlink of a record that can never be returned, if the budget allows it; its outcome is ignored.\<close>

definition drop_unreadable ::
  "'s storage_ops \<Rightarrow> string \<Rightarrow> string \<Rightarrow> prune_budget option \<Rightarrow> 's \<Rightarrow>
     (state_error + state_record) \<times> prune_budget option \<times> 's" where
  "drop_unreadable S kt kid budget s = (case claim_prune budget of
       (True, budget') \<Rightarrow> (Inr Unreadable, budget', snd (so_delete S kt kid s))
     | (False, budget') \<Rightarrow> (Inr Unreadable, budget', s))"

definition read_state_record_detailed_budgeted ::
  "'s storage_ops \<Rightarrow> aead option \<Rightarrow> string \<Rightarrow> string \<Rightarrow> prune_budget option \<Rightarrow> 's \<Rightarrow>
     (state_error + state_record) \<times> prune_budget option \<times> 's" where
  "read_state_record_detailed_budgeted S cipher kt kid budget s = (case so_load S kt kid s of
       (Inr None, s') \<Rightarrow> (Inr Missing, budget, s')
     | (Inl NotFound, s') \<Rightarrow> (Inr Missing, budget, s')
     | (Inl Corrupted, s') \<Rightarrow> drop_unreadable S kt kid budget s'
     | (Inl e, s') \<Rightarrow> (Inl e, budget, s')
     | (Inr (Some d), s') \<Rightarrow>
         let sealed = record_requires_sealing kt;
             limit = MAX_PROTOCOL_STATE_RECORD_BYTES + (if sealed then SEALED_RECORD_OVERHEAD else 0)
         in if limit < length d then drop_unreadable S kt kid budget s'
            else if \<not> sealed then (Inr (Present d), budget, s')
            else (case cipher of
                    None \<Rightarrow> (Inr Unavailable, budget, s')
                  | Some A \<Rightarrow>
                      (case open_record A kt kid d of
                         Some plaintext \<Rightarrow> (Inr (Present plaintext), budget, s')
                       | None \<Rightarrow> drop_unreadable S kt kid budget s')))"

definition read_state_record_detailed ::
  "'s storage_ops \<Rightarrow> aead option \<Rightarrow> string \<Rightarrow> string \<Rightarrow> 's \<Rightarrow> (state_error + state_record) \<times> 's" where
  "read_state_record_detailed S cipher kt kid s =
     (case read_state_record_detailed_budgeted S cipher kt kid None s of (r, _, s') \<Rightarrow> (r, s'))"

definition read_state_record ::
  "'s storage_ops \<Rightarrow> aead option \<Rightarrow> string \<Rightarrow> string \<Rightarrow> 's \<Rightarrow> (state_error + bytes option) \<times> 's" where
  "read_state_record S cipher kt kid s = (case read_state_record_detailed S cipher kt kid s of
       (Inl e, s') \<Rightarrow> (Inl e, s')
     | (Inr r, s') \<Rightarrow> (Inr (into_bytes r), s'))"

definition load_state_bytes :: "'s storage_ops \<Rightarrow> string \<Rightarrow> string \<Rightarrow> 's \<Rightarrow> (state_error + bytes option) \<times> 's" where
  "load_state_bytes S kt kid s = (case so_load S kt kid s of
       (Inl NotFound, s') \<Rightarrow> (Inr None, s')
     | (Inl Corrupted, s') \<Rightarrow> (Inr None, s')
     | r \<Rightarrow> r)"

definition list_state_keys :: "'s storage_ops \<Rightarrow> string \<Rightarrow> 's \<Rightarrow> (state_error + string list) \<times> 's" where
  "list_state_keys S kt s = (case so_list_keys S kt s of
       (Inl NotFound, s') \<Rightarrow> (Inr [], s')
     | r \<Rightarrow> r)"

subsection \<open>The contract of a store\<close>

text \<open>What the trait documents of a working store: it behaves as a map from pairs of key type and id to byte
  strings, listing a key type names its ids once each, and a value up to the transfer ceiling is taken.\<close>

abbreviation MAX_PROTOCOL_STATE_RECORD_TRANSFER_BYTES :: nat where
  "MAX_PROTOCOL_STATE_RECORD_TRANSFER_BYTES \<equiv> 8 * 1024 * 1024"

locale state_storage =
  fixes S :: "'s storage_ops" and inv :: "'s \<Rightarrow> bool" and view :: "'s \<Rightarrow> string \<times> string \<Rightarrow> bytes option"
  assumes load: "inv s \<Longrightarrow> so_load S kt kid s = (Inr (view s (kt, kid)), s)"
    and store: "inv s \<Longrightarrow> length d \<le> MAX_PROTOCOL_STATE_RECORD_TRANSFER_BYTES \<Longrightarrow>
      fst (so_store S kt kid d s) = Inr () \<and> inv (snd (so_store S kt kid d s))
        \<and> view (snd (so_store S kt kid d s)) = (view s)((kt, kid) := Some d)"
    and delete: "inv s \<Longrightarrow> fst (so_delete S kt kid s) = Inr () \<and> inv (snd (so_delete S kt kid s))
        \<and> view (snd (so_delete S kt kid s)) = (view s)((kt, kid) := None)"
    and list_keys: "inv s \<Longrightarrow> \<exists>ks. so_list_keys S kt s = (Inr ks, s) \<and> distinct ks
        \<and> set ks = {kid. view s (kt, kid) \<noteq> None}"
begin

lemma wipe_listed:
  assumes "inv s"
  shows "inv (fold (\<lambda>kid s. snd (so_delete S kt kid s)) ks s)
    \<and> view (fold (\<lambda>kid s. snd (so_delete S kt kid s)) ks s) =
        (\<lambda>(t, i). if t = kt \<and> i \<in> set ks then None else view s (t, i))"
  using assms
proof (induction ks arbitrary: s)
  case (Cons k ks)
  have d: "inv (snd (so_delete S kt k s))" "view (snd (so_delete S kt k s)) = (view s)((kt, k) := None)"
    using delete[OF Cons.prems] by auto
  show ?case using Cons.IH[OF d(1)] d(2) by (auto simp: fun_eq_iff)
qed (auto simp: fun_eq_iff)

lemma drop_unreadable_parts:
  assumes "inv s"
  shows "fst (drop_unreadable S kt kid budget s) = Inr Unreadable"
    and "inv (snd (snd (drop_unreadable S kt kid budget s)))"
    and "view (snd (snd (drop_unreadable S kt kid budget s))) =
      (if fst (claim_prune budget) then (view s)((kt, kid) := None) else view s)"
  using delete[OF assms, of kt kid] assms by (auto simp: drop_unreadable_def split: prod.splits bool.splits)

end

lemma ms_view_remove: "map_of (hm_remove k m) = (map_of m)(k := None)"
  by (auto simp: fun_eq_iff hm_remove_get)

lemma ms_view_insert: "map_of (hm_insert k v m) = (map_of m)(k := Some v)"
  by (auto simp: fun_eq_iff hm_insert_get)

interpretation ms: state_storage memory_storage hm_inv map_of
proof (unfold_locales, goal_cases)
  case (4 s kt)
  have "snd ` {k \<in> fst ` set s. fst k = kt} = {kid. map_of s (kt, kid) \<noteq> None}"
    by (force simp: map_of_eq_None_iff)
  then show ?case by (simp add: memory_storage_def ms_list_keys_def)
qed (simp_all add: memory_storage_def ms_load_def ms_store_def ms_delete_def ms_view_insert ms_view_remove
    hm_inv_insert hm_inv_remove)

subsection \<open>Slots\<close>

lemma from_key_type_table: "from_key_type t = map_of (map (\<lambda>c. (key_type c, c)) StateCategory_ALL) t"
  by (simp add: from_key_type_def StateCategory_ALL_def)

lemma from_key_type_key_type: "from_key_type (key_type c) = Some c"
  by (cases c) (simp_all add: from_key_type_def)

lemma from_key_type_Some: "from_key_type t = Some c \<longleftrightarrow> t = key_type c"
  using map_of_SomeD[of "map (\<lambda>c. (key_type c, c)) StateCategory_ALL" t c]
  by (auto simp: from_key_type_table[symmetric] from_key_type_key_type)

lemma StateCategory_ALL_complete: "c \<in> set StateCategory_ALL"
  by (cases c) (simp_all add: StateCategory_ALL_def)

lemma key_type_no_separator: "AAD_SEPARATOR \<notin> set (str_bytes (key_type c))"
  by (cases c) (simp_all add: str_bytes_def)

lemma split_at_separator:
  "x \<notin> set as \<Longrightarrow> x \<notin> set cs \<Longrightarrow> as @ x # bs = cs @ x # ds \<longleftrightarrow> as = cs \<and> bs = ds"
  by (induction as arbitrary: cs) (case_tac cs; auto)+

lemma associated_data_inj:
  assumes "from_key_type kt = Some c" "from_key_type kt' = Some c'"
  shows "associated_data kt kid = associated_data kt' kid' \<longleftrightarrow> kt = kt' \<and> kid = kid'"
  using assms split_at_separator[OF key_type_no_separator[of c] key_type_no_separator[of c'], of "str_bytes kid" "str_bytes kid'"]
  by (auto simp: associated_data_def from_key_type_Some str_bytes_inj)

lemma magic_length [simp]: "length RECORD_MAGIC = 4" by (simp add: RECORD_MAGIC_def str_bytes_length)

lemma open_sealed:
  assumes "length nonce = NONCE_BYTES"
  shows "open_record A kt kid (RECORD_MAGIC @ nonce @ ct) =
    (if ct = [] then None else ae_decrypt A nonce (associated_data kt kid) ct)"
  using assms by (simp add: open_record_def)

text \<open>What a cipher promises: it encrypts, adds a tag of sixteen bytes, and decrypts what it encrypted; and a
  ciphertext opens under the associated data it was made for and under no other.\<close>

definition aead_laws :: "aead \<Rightarrow> bool" where
  "aead_laws A \<longleftrightarrow> (\<forall>n a m. length n = NONCE_BYTES \<longrightarrow>
     (\<exists>c. ae_encrypt A n a m = Some c \<and> length c = length m + TAG_BYTES \<and> ae_decrypt A n a c = Some m))"

definition aead_binds :: "aead \<Rightarrow> bool" where
  "aead_binds A \<longleftrightarrow> (\<forall>n a a' m c. ae_encrypt A n a m = Some c \<and> ae_decrypt A n a' c \<noteq> None \<longrightarrow> a' = a)"

lemma aead_lawsE:
  assumes "aead_laws A" "length n = NONCE_BYTES"
  obtains c where "ae_encrypt A n a m = Some c" "length c = length m + TAG_BYTES" "ae_decrypt A n a c = Some m"
  using assms unfolding aead_laws_def by blast

lemma sealed_record_opens:
  assumes "aead_laws A" "length nonce = NONCE_BYTES"
  obtains ct where "ae_encrypt A nonce (associated_data kt kid) d = Some ct"
    and "seal A nonce kt kid d = Some (RECORD_MAGIC @ nonce @ ct)"
    and "length (RECORD_MAGIC @ nonce @ ct) = length d + SEALED_RECORD_OVERHEAD"
    and "open_record A kt kid (RECORD_MAGIC @ nonce @ ct) = Some d"
proof -
  obtain ct where ct: "ae_encrypt A nonce (associated_data kt kid) d = Some ct" "length ct = length d + TAG_BYTES"
    "ae_decrypt A nonce (associated_data kt kid) ct = Some d" by (rule aead_lawsE[OF assms])
  then show ?thesis using assms(2)
    by (intro that[of ct]) (auto simp: seal_def open_sealed SEALED_RECORD_OVERHEAD_def)
qed

context state_storage
begin

lemma read_present:
  assumes "inv s" "view s (kt, kid) = Some d" "from_key_type kt = Some c" "length d \<le> MAX_PROTOCOL_STATE_RECORD_BYTES"
    "\<not> requires_sealing c"
  shows "read_state_record_detailed_budgeted S cipher kt kid b s = (Inr (Present d), b, s)"
  using assms load[OF assms(1), of kt kid] by (simp add: read_state_record_detailed_budgeted_def record_requires_sealing_def)

lemma read_sealed:
  assumes "inv s" "view s (kt, kid) = Some e" "from_key_type kt = Some c" "requires_sealing c"
    "length e \<le> MAX_PROTOCOL_STATE_RECORD_BYTES + SEALED_RECORD_OVERHEAD"
  shows "read_state_record_detailed_budgeted S (Some A) kt kid b s =
    (case open_record A kt kid e of Some d \<Rightarrow> (Inr (Present d), b, s) | None \<Rightarrow> drop_unreadable S kt kid b s)"
  using assms load[OF assms(1), of kt kid]
  by (simp add: read_state_record_detailed_budgeted_def record_requires_sealing_def)

lemma read_unopened:
  assumes "inv s" "view s (kt, kid) = Some e" "from_key_type kt = Some c" "requires_sealing c"
    "open_record A kt kid e = None"
  shows "read_state_record_detailed_budgeted S (Some A) kt kid b s = drop_unreadable S kt kid b s"
  using assms load[OF assms(1), of kt kid]
  by (simp add: read_state_record_detailed_budgeted_def record_requires_sealing_def Let_def)

lemma write_then_read:
  assumes "inv s" "aead_laws A" "length nonce = NONCE_BYTES" "from_key_type kt = Some c"
    "length d \<le> MAX_PROTOCOL_STATE_RECORD_BYTES"
  obtains e where "fst (write_state_record S (Some A) nonce kt kid d s) = Inr ()"
    and "inv (snd (write_state_record S (Some A) nonce kt kid d s))"
    and "view (snd (write_state_record S (Some A) nonce kt kid d s)) = (view s)((kt, kid) := Some e)"
    and "if requires_sealing c then seal A nonce kt kid d = Some e else e = d"
    and "read_state_record_detailed_budgeted S (Some A) kt kid b
      (snd (write_state_record S (Some A) nonce kt kid d s)) =
        (Inr (Present d), b, snd (write_state_record S (Some A) nonce kt kid d s))"
proof (cases "requires_sealing c")
  case False
  have w: "write_state_record S (Some A) nonce kt kid d s = so_store S kt kid d s"
    using assms(4,5) False by (simp add: write_state_record_def)
  have len: "length d \<le> MAX_PROTOCOL_STATE_RECORD_TRANSFER_BYTES" using assms(5) by simp
  note st = store[OF assms(1) len, of kt kid]
  show ?thesis using st assms(4,5) False
    by (intro that[of d]) (auto simp: w intro!: read_present)
next
  case True
  obtain ct where ct: "seal A nonce kt kid d = Some (RECORD_MAGIC @ nonce @ ct)"
    "length (RECORD_MAGIC @ nonce @ ct) = length d + SEALED_RECORD_OVERHEAD"
    "open_record A kt kid (RECORD_MAGIC @ nonce @ ct) = Some d"
    by (rule sealed_record_opens[OF assms(2,3)])
  let ?e = "RECORD_MAGIC @ nonce @ ct"
  have w: "write_state_record S (Some A) nonce kt kid d s = so_store S kt kid ?e s"
    using assms(4,5) True ct(1) by (simp add: write_state_record_def)
  have len: "length ?e \<le> MAX_PROTOCOL_STATE_RECORD_TRANSFER_BYTES"
    "length ?e \<le> MAX_PROTOCOL_STATE_RECORD_BYTES + SEALED_RECORD_OVERHEAD"
    using assms(5) unfolding ct(2) by (simp_all add: SEALED_RECORD_OVERHEAD_def)
  note st = store[OF assms(1) len(1), of kt kid]
  show ?thesis using st True ct(1)
    by (intro that[of ?e]) (simp_all add: w read_sealed[OF _ _ assms(4) True len(2)] ct(3))
qed

end

subsection \<open>Walks over a shared pool\<close>

text \<open>A walk claims a number of deletes, one after the other; \<open>claims\<close> counts the granted ones.  The advisory
  walks draw on one pool in order.\<close>

fun claims :: "nat \<Rightarrow> prune_budget \<Rightarrow> nat \<times> prune_budget" where
  "claims 0 b = (0, b)"
| "claims (Suc n) b = (case claim b of (ok, b') \<Rightarrow>
     case claims n b' of (granted, b'') \<Rightarrow> ((if ok then Suc granted else granted), b''))"

definition advisory_walk :: "nat \<Rightarrow> prune_allowance \<Rightarrow> nat \<times> prune_allowance" where
  "advisory_walk n a = (case refusing a of (b, a') \<Rightarrow> case claims n b of (granted, b') \<Rightarrow> (granted, give_back b' a'))"

fun advisory_walks :: "nat list \<Rightarrow> prune_allowance \<Rightarrow> nat list \<times> prune_allowance" where
  "advisory_walks [] a = ([], a)"
| "advisory_walks (n # ns) a = (case advisory_walk n a of (g, a') \<Rightarrow>
     case advisory_walks ns a' of (gs, a'') \<Rightarrow> (g # gs, a''))"

lemma claims_refusable:
  assumes "pb_refusable b" "pb_drawn b \<le> pb_ceiling b" "pb_ceiling b - pb_drawn b \<le> pb_remaining b" "pb_ceiling b \<le> u64_max"
  shows "fst (claims n b) = min n (pb_ceiling b - pb_drawn b)
    \<and> pb_remaining (snd (claims n b)) = pb_remaining b - min n (pb_ceiling b - pb_drawn b)"
  using assms
proof (induction n arbitrary: b)
  case (Suc n)
  show ?case
  proof (cases "is_spent b")
    case True
    then have "pb_ceiling b - pb_drawn b = 0" using Suc.prems by (auto simp: is_spent_def)
    moreover have "claim b = (False, b\<lparr>pb_exhausted := True\<rparr>)" using True Suc.prems(1) by (simp add: claim_def)
    ultimately show ?thesis using Suc.IH[of "b\<lparr>pb_exhausted := True\<rparr>"] Suc.prems by (auto split: prod.splits)
  next
    case False
    define b' where "b' = b\<lparr>pb_remaining := pb_remaining b - 1, pb_drawn := pb_drawn b + 1, pb_spent := sat_add64 (pb_spent b) 1\<rparr>"
    have less: "pb_drawn b < pb_ceiling b" "0 < pb_remaining b" using False by (auto simp: is_spent_def)
    then have "sat_add64 (pb_drawn b) 1 = pb_drawn b + 1" using Suc.prems(4) by (simp add: sat_add64_def)
    then have c: "claim b = (True, b')" using False by (simp add: claim_def b'_def)
    have "fst (claims n b') = min n (pb_ceiling b - pb_drawn b - 1)
      \<and> pb_remaining (snd (claims n b')) = pb_remaining b - 1 - min n (pb_ceiling b - pb_drawn b - 1)"
      using Suc.IH[of b'] Suc.prems less by (simp add: b'_def)
    moreover have "min (Suc n) (pb_ceiling b - pb_drawn b) = Suc (min n (pb_ceiling b - pb_drawn b - 1))"
      using less by auto
    ultimately show ?thesis using c by (auto split: prod.splits)
  qed
qed auto

lemma advisory_walk_parts:
  assumes "pa_remaining a \<le> u64_max" "pa_advisory_walks_left a * MIN_ADVISORY_PRUNE_DELETES \<le> pa_remaining a"
    "0 < pa_advisory_walks_left a"
  defines "share \<equiv> pa_remaining a - (pa_advisory_walks_left a - 1) * MIN_ADVISORY_PRUNE_DELETES"
  shows "advisory_walk n a = (min n share, \<lparr>pa_remaining = pa_remaining a - min n share,
    pa_advisory_walks_left = pa_advisory_walks_left a - 1\<rparr>)" and "MIN_ADVISORY_PRUNE_DELETES \<le> share"
proof -
  define later where "later = pa_advisory_walks_left a - 1"
  have walks: "pa_advisory_walks_left a = Suc later" using assms(3) by (simp add: later_def)
  have le: "later * MIN_ADVISORY_PRUNE_DELETES \<le> pa_remaining a" using assms(2) by (simp add: walks)
  then have res: "min (later * MIN_ADVISORY_PRUNE_DELETES) u64_max = later * MIN_ADVISORY_PRUNE_DELETES"
    using assms(1) by (simp add: min_def)
  show "MIN_ADVISORY_PRUNE_DELETES \<le> share" using assms(2) unfolding share_def walks by simp
  have b: "refusing a = (pb_new (pa_remaining a) share True, a\<lparr>pa_advisory_walks_left := later\<rparr>)"
    unfolding refusing_def Let_def share_def later_def[symmetric] res by simp
  obtain g b' where cl: "claims n (pb_new (pa_remaining a) share True) = (g, b')" by fastforce
  have "fst (claims n (pb_new (pa_remaining a) share True)) = min n share
    \<and> pb_remaining (snd (claims n (pb_new (pa_remaining a) share True))) = pa_remaining a - min n share"
    using claims_refusable[of "pb_new (pa_remaining a) share True" n] assms(1) by (simp add: pb_new_def share_def)
  then show "advisory_walk n a = (min n share, \<lparr>pa_remaining = pa_remaining a - min n share,
    pa_advisory_walks_left = pa_advisory_walks_left a - 1\<rparr>)"
    unfolding advisory_walk_def b by (simp add: cl give_back_def later_def)
qed

lemma advisory_walks_spec:
  assumes "pa_remaining a \<le> u64_max" "pa_advisory_walks_left a * MIN_ADVISORY_PRUNE_DELETES \<le> pa_remaining a"
    "length ns \<le> pa_advisory_walks_left a"
  defines "gs \<equiv> fst (advisory_walks ns a)"
  shows "length gs = length ns \<and> sum_list gs \<le> pa_remaining a
    \<and> (\<forall>i < length ns. gs ! i = min (ns ! i) (pa_remaining a - sum_list (take i gs)
          - (pa_advisory_walks_left a - 1 - i) * MIN_ADVISORY_PRUNE_DELETES)
        \<and> min (ns ! i) MIN_ADVISORY_PRUNE_DELETES \<le> gs ! i)"
  using assms(1-3) unfolding gs_def
proof (induction ns arbitrary: a)
  case (Cons n ns)
  define share where "share = pa_remaining a - (pa_advisory_walks_left a - 1) * MIN_ADVISORY_PRUNE_DELETES"
  define a' where "a' = \<lparr>pa_remaining = pa_remaining a - min n share, pa_advisory_walks_left = pa_advisory_walks_left a - 1\<rparr>"
  have pos: "0 < pa_advisory_walks_left a" using Cons.prems(3) by simp
  note walk = advisory_walk_parts[OF Cons.prems(1,2) pos, folded share_def]
  have w: "advisory_walk n a = (min n share, a')" using walk(1)[of n] by (simp add: a'_def)
  have share: "MIN_ADVISORY_PRUNE_DELETES \<le> share" "share \<le> pa_remaining a" using walk(2) by (simp_all add: share_def)
  have "pa_advisory_walks_left a' * MIN_ADVISORY_PRUNE_DELETES \<le> pa_remaining a'" "pa_remaining a' \<le> u64_max"
    "length ns \<le> pa_advisory_walks_left a'"
    using Cons.prems pos by (auto simp: a'_def share_def min_def diff_mult_distrib)
  note IHa = Cons.IH[OF this(2,1,3)]
  have IH: "length (fst (advisory_walks ns a')) = length ns" "sum_list (fst (advisory_walks ns a')) \<le> pa_remaining a'"
    "\<And>i. i < length ns \<Longrightarrow> fst (advisory_walks ns a') ! i = min (ns ! i) (pa_remaining a' - sum_list (take i (fst (advisory_walks ns a')))
          - (pa_advisory_walks_left a' - 1 - i) * MIN_ADVISORY_PRUNE_DELETES)
        \<and> min (ns ! i) MIN_ADVISORY_PRUNE_DELETES \<le> fst (advisory_walks ns a') ! i"
    using IHa by blast+
  have gs: "fst (advisory_walks (n # ns) a) = min n share # fst (advisory_walks ns a')"
    by (simp add: w split: prod.splits)
  have step: "fst (advisory_walks (n # ns) a) ! i = min ((n # ns) ! i) (pa_remaining a - sum_list (take i (fst (advisory_walks (n # ns) a)))
          - (pa_advisory_walks_left a - 1 - i) * MIN_ADVISORY_PRUNE_DELETES)
        \<and> min ((n # ns) ! i) MIN_ADVISORY_PRUNE_DELETES \<le> fst (advisory_walks (n # ns) a) ! i"
    if "i < length (n # ns)" for i
  proof (cases i)
    case 0
    then show ?thesis using share unfolding gs by (simp add: share_def[symmetric] del: One_nat_def)
  next
    case (Suc j)
    define g where "g = fst (advisory_walks ns a')"
    have "j < length ns" using that Suc by simp
    from IH(3)[OF this] have "g ! j = min (ns ! j) (pa_remaining a' - sum_list (take j g) - (pa_advisory_walks_left a' - 1 - j) * MIN_ADVISORY_PRUNE_DELETES)"
      and le: "min (ns ! j) MIN_ADVISORY_PRUNE_DELETES \<le> g ! j"
      unfolding g_def by (blast, blast)
    then have "g ! j = min (ns ! j) (pa_remaining a - (min n share + sum_list (take j g)) - (pa_advisory_walks_left a - 1 - Suc j) * MIN_ADVISORY_PRUNE_DELETES)"
      by (simp add: a'_def)
    then show ?thesis using le unfolding gs Suc g_def[symmetric] by (simp only: nth_Cons_Suc take_Suc_Cons sum_list.Cons)
  qed
  have "sum_list (fst (advisory_walks (n # ns) a)) \<le> pa_remaining a"
    using IH(2) share(2) unfolding gs by (simp add: a'_def)
  moreover have "length (fst (advisory_walks (n # ns) a)) = length (n # ns)" using IH(1) unfolding gs by simp
  ultimately show ?case using step by blast
qed simp

subsection \<open>Properties\<close>

text \<open>Two ciphers for examples: one appends a tag of sixteen zero bytes, the other spells the associated data out
  in front of the text.\<close>

definition zero_tag_cipher :: aead where
  "zero_tag_cipher = \<lparr>ae_encrypt = (\<lambda>n a m. Some (m @ replicate TAG_BYTES 0)),
     ae_decrypt = (\<lambda>n a c. if drop (length c - TAG_BYTES) c = replicate TAG_BYTES 0 then Some (take (length c - TAG_BYTES) c) else None)\<rparr>"

fun spell :: "bytes \<Rightarrow> bytes" where
  "spell [] = [0]"
| "spell (b # bs) = 1 # b # spell bs"

fun unspell :: "bytes \<Rightarrow> (bytes \<times> bytes) option" where
  "unspell (x # xs) = (if x = 0 then Some ([], xs)
     else (case xs of [] \<Rightarrow> None | b # bs \<Rightarrow> map_option (\<lambda>(as, r). (b # as, r)) (unspell bs)))"
| "unspell [] = None"

definition spelling_cipher :: aead where
  "spelling_cipher = \<lparr>ae_encrypt = (\<lambda>n a m. Some (spell a @ m)),
     ae_decrypt = (\<lambda>n a c. case unspell c of Some (b, m) \<Rightarrow> if a = b then Some m else None | None \<Rightarrow> None)\<rparr>"

lemma unspell_spell: "unspell (spell a @ m) = Some (a, m)"
  by (induction a) auto

lemma zero_tag_cipher_laws: "aead_laws zero_tag_cipher"
  by (simp add: aead_laws_def zero_tag_cipher_def)

lemma spelling_cipher_binds: "aead_binds spelling_cipher"
  by (auto simp: aead_binds_def spelling_cipher_def unspell_spell split: if_splits)

text \<open>C37. A record comes back as it was written.  In every category the code knows, a value within the size
  limit is written, changes no other record, and is read back, whatever budget of deletes the reader has;
  in the sensitive categories the store holds the sealed form of it, and without the record key nothing
  is written rather than a value in the clear.\<close>

theorem record_survives_the_store:
  assumes "state_storage S ok view" "ok s" "aead_laws A" "length nonce = NONCE_BYTES"
    "from_key_type kt = Some c" "length d \<le> MAX_PROTOCOL_STATE_RECORD_BYTES"
  shows "case write_state_record S (Some A) nonce kt kid d s of (r, s') \<Rightarrow>
      r = Inr () \<and> ok s' \<and> read_state_record_detailed_budgeted S (Some A) kt kid b s' = (Inr (Present d), b, s')
      \<and> (\<forall>slot. slot \<noteq> (kt, kid) \<longrightarrow> view s' slot = view s slot)
      \<and> view s' (kt, kid) = (if requires_sealing c then seal A nonce kt kid d else Some d)
      \<and> (requires_sealing c \<longrightarrow> write_state_record S None nonce kt kid d s = (Inl StoreFailed, s))"
proof -
  obtain e where e: "fst (write_state_record S (Some A) nonce kt kid d s) = Inr ()"
    "ok (snd (write_state_record S (Some A) nonce kt kid d s))"
    "view (snd (write_state_record S (Some A) nonce kt kid d s)) = (view s)((kt, kid) := Some e)"
    "if requires_sealing c then seal A nonce kt kid d = Some e else e = d"
    "read_state_record_detailed_budgeted S (Some A) kt kid b (snd (write_state_record S (Some A) nonce kt kid d s)) =
        (Inr (Present d), b, snd (write_state_record S (Some A) nonce kt kid d s))"
    by (rule state_storage.write_then_read[OF assms])
  have "requires_sealing c \<longrightarrow> write_state_record S None nonce kt kid d s = (Inl StoreFailed, s)"
    using assms(5) by (simp add: write_state_record_def)
  then show ?thesis using e by (auto simp: split_beta)
qed

theorem record_survives_the_store_witness:
  "fst (write_state_record memory_storage (Some zero_tag_cipher) (replicate 12 0) ''outbox'' ''m1'' [1, 2, 3] []) = Inr ()"
  using record_survives_the_store[OF ms.state_storage_axioms hm_inv_Nil zero_tag_cipher_laws, of "replicate 12 0" "''outbox''"
      Outbox "[1, 2, 3]" "''m1''" None] by (simp add: from_key_type_Some split_beta)



text \<open>C39. No restore walk starves the ones after it.  The five advisory walks draw deletes from one pool of 512 in
  order.  Whatever the walks want, together they get at most 512; each gets what it wants up to what the
  pool holds beyond 64 for every walk still to come, and so never less than 64 if it wants that many.\<close>

theorem no_walk_starves_the_next:
  assumes "length ns \<le> ADVISORY_PRUNE_WALKS"
  shows "let gs = fst (advisory_walks ns pool) in
    sum_list gs \<le> 512
    \<and> (\<forall>i < length ns. gs ! i = min (ns ! i) (512 - sum_list (take i gs) - (4 - i) * 64) \<and> min (ns ! i) 64 \<le> gs ! i)"
proof -
  have p: "pa_remaining pool = 512" "pa_advisory_walks_left pool = 5" and five: "5 - 1 = (4::nat)" by (simp_all add: pool_def)
  have c: "512 \<le> u64_max" "5 * 64 \<le> (512::nat)" by simp_all
  show ?thesis using advisory_walks_spec[of pool ns, unfolded p five, OF c assms] unfolding Let_def by blast
qed

theorem no_walk_starves_the_next_witness:
  "fst (advisory_walks [600, 600, 10, 600, 600] pool) ! 0 = 256"
proof -
  let ?ns = "[600, 600, 10, 600, 600] :: nat list"
  have len: "length ?ns \<le> ADVISORY_PRUNE_WALKS" and pos: "0 < length ?ns" by simp_all
  have "fst (advisory_walks ?ns pool) ! 0 = min (?ns ! 0) (512 - sum_list (take 0 (fst (advisory_walks ?ns pool))) - (4 - 0) * 64)"
    by (rule no_walk_starves_the_next[OF len, unfolded Let_def, THEN conjunct2, rule_format, OF pos, THEN conjunct1])
  also have "\<dots> = 256" by (simp only: take_0 nth_Cons_0) simp
  finally show ?thesis .
qed

end
