(* ===== verification/Mesh_Engine.thy ===== *)
theory Mesh_Engine
  imports Canonical State_Store Mesh_Relay Custody Peer_Stream_Transport
begin

text \<open>
  The part of the protocol engine that carries other people's frames: \<open>protocol/custodian.rs\<close> whole, the
  relaying section of \<open>protocol/receive.rs\<close>, \<open>offer_to_mesh\<close> of \<open>protocol/send.rs\<close> and the mesh links of
  \<open>transport_manager.rs\<close>.  It composes the forwarding governor, the custody store, the two transports that
  hold direct links and the durable records.

  The engine is the record \<open>mesh_engine\<close>, with the fields of \<open>OfflineProtocol\<close> this code touches.  What it
  asks of the world is the record \<open>engine_env\<close>: clocks, battery, random ids, the JSON reader, the signing
  identity and the outcome of each call of the host's store.  Each such question has a number, counted in
  \<open>me_reads\<close>, and the answer is a function of that number.

  Durable records are modelled as values: \<open>State_Store\<close> shows that what is written comes back.  The text
  of log lines, and the calls that mark an id in the deduplicator (kept as the list \<open>me_marked_local\<close>), are
  not followed further.
\<close>

subsection \<open>State and environment\<close>

datatype relay_priority = Never | Auto | Always

abbreviation CRITICAL_RELAY_BATTERY_LEVEL :: nat where "CRITICAL_RELAY_BATTERY_LEVEL \<equiv> 15"
abbreviation MAX_CUSTODY_RECEIPTS_PER_MESSAGE :: nat where "MAX_CUSTODY_RECEIPTS_PER_MESSAGE \<equiv> 64"
abbreviation CUSTODY_SWEEP_INTERVAL :: duration where "CUSTODY_SWEEP_INTERVAL \<equiv> 60000000000"
abbreviation (input) CUSTODY_RECORD_VERSION :: nat where "CUSTODY_RECORD_VERSION \<equiv> 1"
abbreviation LAMPORT_PERSIST_INTERVAL :: u64 where "LAMPORT_PERSIST_INTERVAL \<equiv> 64"
abbreviation NO_ALERT_KEY :: string where "NO_ALERT_KEY \<equiv> ''no_alert''"
abbreviation CTRL_SIG_META_KEY :: string where "CTRL_SIG_META_KEY \<equiv> ''__ctrl_sig''"
abbreviation CTRL_PK_META_KEY :: string where "CTRL_PK_META_KEY \<equiv> ''__ctrl_pk''"
abbreviation DATA_V1_PREFIX :: string where "DATA_V1_PREFIX \<equiv> ''__DATA_V1__''"
abbreviation (input) DATA_SYNC_V1 :: nat where "DATA_SYNC_V1 \<equiv> 1"

record custody_record =
  ctr_version :: nat
  ctr_depositor :: string
  ctr_message :: message
  ctr_accepted_at_ms :: i64
  ctr_class :: string

datatype sync_kind = Versions | Delta | Snapshot | BlobGone | NeedSnapshot | NeedBlob | Chunk

datatype read_outcome = ReadOk | ReadNone | ReadUnreadable | ReadFailed | ReadCorrupt
datatype list_outcome = ListOk | ListNotFound | ListFailed

text \<open>What \<open>serde_json\<close> makes of a replication body: the value it parses to, the field \<open>v\<close>, and the kind it names.\<close>

record 'w sync_json =
  sj_from_str :: "string \<Rightarrow> 'w option"
  sj_get_v :: "'w \<Rightarrow> nat option"
  sj_kind :: "'w \<Rightarrow> sync_kind option"

record ('v, 'w) engine_env =
  ee_clock :: "nat \<Rightarrow> instant"
  ee_wall :: "nat \<Rightarrow> i64"
  ee_battery :: "nat \<Rightarrow> nat option \<times> bool"
  ee_new_id :: "nat \<Rightarrow> message_id"
  ee_hash :: "string list \<Rightarrow> nat"
  ee_idstr :: "message_id \<Rightarrow> string"
  ee_id_from_str :: "string \<Rightarrow> message_id option"
  ee_receipt_json :: "'v receipt_json"
  ee_sync_json :: "'w sync_json"
  ee_public_key :: "bytes option"
  ee_sign :: "bytes \<Rightarrow> bytes option"
  ee_base64 :: "bytes \<Rightarrow> string"
  ee_persists :: "nat \<Rightarrow> bool"
  ee_deletes :: "nat \<Rightarrow> bool"
  ee_reads_record :: "nat \<Rightarrow> read_outcome"
  ee_lists :: "nat \<Rightarrow> list_outcome"

record message_relayed =
  ev_message_id :: string
  ev_sender :: string
  ev_recipient :: string
  ev_hop_count :: hop_count
  ev_remaining_ttl :: ttl

record engine_config =
  ec_local_id :: string
  ec_app_id :: string
  ec_initial_ttl :: u8
  ec_allow_relay :: bool
  ec_relay_priority :: relay_priority
  ec_min_battery_for_relay :: nat
  ec_outbox_max_lifetime_ms :: nat

record mesh_links =
  ml_wifi :: "wifi_direct_transport option"
  ml_ble :: "ble_transport option"
  ml_binary_wire :: "string set"

text \<open>What the rest of the engine knows when this code asks: the sessions and capabilities of peers, whether there is
  an MLS identity, and, for the messages in the outbox and the ones staged for it, the plaintext kept for
  sealing again.\<close>

record peer_facts =
  pf_confirmed_sessions :: "string set"
  pf_data_custody :: "string set"
  pf_ctrl_freshness :: "string set"
  pf_mls :: bool
  pf_outbox :: "(message_id, string option) hashmap"
  pf_pending_reseal :: "(message_id, string) hashmap"

record mesh_engine =
  me_config :: engine_config
  me_peers :: peer_facts
  me_links :: mesh_links
  me_governor :: mesh_relay_governor
  me_custody :: custody_store
  me_receipts :: "(message_id, (string, int) hashmap) hashmap"
  me_last_sweep :: instant
  me_lamport :: lamport_clock
  me_last_persisted_lamport :: u64
  me_storage :: bool
  me_records :: "(string, custody_record) hashmap"
  me_marked_local :: "message_id list"
  me_events :: "message_relayed list"
  me_reads :: nat

definition next_read :: "mesh_engine \<Rightarrow> mesh_engine" where
  "next_read e = e\<lparr>me_reads := Suc (me_reads e)\<rparr>"

text \<open>The governor after an operation, and the custody store after one.\<close>

definition set_governor :: "mesh_relay_governor \<Rightarrow> mesh_engine \<Rightarrow> mesh_engine" where
  "set_governor g e = e\<lparr>me_governor := g\<rparr>"

definition set_custody :: "custody_store \<Rightarrow> mesh_engine \<Rightarrow> mesh_engine" where
  "set_custody s e = e\<lparr>me_custody := s\<rparr>"

subsection \<open>Direct links\<close>

record mesh_neighbor =
  mn_peer_id :: string
  mn_rssi :: "int option"
  mn_transport :: transport_type

definition mn_link_quality :: "mesh_neighbor \<Rightarrow> nat" where
  "mn_link_quality n = (case mn_rssi n of
       Some rssi \<Rightarrow> LinkQuality_from_rssi rssi
     | None \<Rightarrow> DEFAULT_LINK_QUALITY_WITHOUT_RSSI)"

fun add_links :: "transport_type \<Rightarrow> peer_link list \<Rightarrow> mesh_neighbor list \<Rightarrow> mesh_neighbor list" where
  "add_links t [] neighbors = neighbors"
| "add_links t (l # ls) neighbors =
     (if list_ex (\<lambda>n. mn_peer_id n = pl_peer_id l) neighbors then add_links t ls neighbors
      else add_links t ls (neighbors @ [\<lparr>mn_peer_id = pl_peer_id l, mn_rssi = pl_rssi l, mn_transport = t\<rparr>]))"

definition mesh_neighbors :: "mesh_links \<Rightarrow> mesh_neighbor list" where
  "mesh_neighbors l =
     add_links TtBLE (case ml_ble l of Some t \<Rightarrow> connected_peers t | None \<Rightarrow> [])
       (add_links TtWiFiDirect (case ml_wifi l of Some t \<Rightarrow> wd_connected_peers t | None \<Rightarrow> []) [])"

definition neighbor_entry :: "mesh_neighbor \<Rightarrow> neighbor" where
  "neighbor_entry n = (mn_peer_id n, mn_link_quality n, mn_transport n)"

definition stamp_for_neighbor :: "string \<Rightarrow> message \<Rightarrow> mesh_links \<Rightarrow> message" where
  "stamp_for_neighbor peer_id m l =
     (if msg_wire_codec m \<noteq> WcBinaryV1 \<and> peer_id \<in> ml_binary_wire l then m\<lparr>msg_wire_codec := WcBinaryV1\<rparr>
      else if msg_wire_codec m = WcBinaryV1 \<and> peer_id \<notin> ml_binary_wire l then m\<lparr>msg_wire_codec := WcJson\<rparr>
      else m)"

definition try_wifi :: "string \<Rightarrow> message \<Rightarrow> mesh_links \<Rightarrow> bool \<times> mesh_links" where
  "try_wifi peer_id m l = (case ml_wifi l of
       None \<Rightarrow> (False, l)
     | Some t \<Rightarrow> if wd_status t \<noteq> Available then (False, l)
         else (case wd_send_to_peer peer_id m t of (r, t') \<Rightarrow> (r = Inr (), l\<lparr>ml_wifi := Some t'\<rparr>)))"

definition try_ble :: "string \<Rightarrow> message \<Rightarrow> mesh_links \<Rightarrow> bool \<times> mesh_links" where
  "try_ble peer_id m l = (case ml_ble l of
       None \<Rightarrow> (False, l)
     | Some t \<Rightarrow> if bt_status t \<noteq> Available then (False, l)
         else (case bt_send_to_peer peer_id m t of (r, t') \<Rightarrow> (r = Inr (), l\<lparr>ml_ble := Some t'\<rparr>)))"

text \<open>The carriers in their order, Wi-Fi Direct first; the result is the carrier that took the frame.\<close>

definition send_to_neighbor :: "string \<Rightarrow> message \<Rightarrow> mesh_links \<Rightarrow> transport_type option \<times> mesh_links" where
  "send_to_neighbor peer_id m l =
     (let frame = stamp_for_neighbor peer_id m l in
      case try_wifi peer_id frame l of
        (True, l1) \<Rightarrow> (Some TtWiFiDirect, l1)
      | (False, l1) \<Rightarrow> (case try_ble peer_id frame l1 of
            (True, l2) \<Rightarrow> (Some TtBLE, l2)
          | (False, l2) \<Rightarrow> (None, l2)))"

subsection \<open>Taking on a frame\<close>

definition relay_battery_floor :: "bool \<Rightarrow> mesh_engine \<Rightarrow> nat" where
  "relay_battery_floor is_charging e =
     (if is_charging \<or> ec_relay_priority (me_config e) = Always then CRITICAL_RELAY_BATTERY_LEVEL
      else max (ec_min_battery_for_relay (me_config e)) CRITICAL_RELAY_BATTERY_LEVEL)"

definition battery_allows_relaying_with :: "nat option \<Rightarrow> bool \<Rightarrow> mesh_engine \<Rightarrow> bool" where
  "battery_allows_relaying_with battery_level is_charging e = (case battery_level of
       None \<Rightarrow> True
     | Some level \<Rightarrow> relay_battery_floor is_charging e \<le> level)"

definition battery_allows_relaying :: "('v, 'w) engine_env \<Rightarrow> mesh_engine \<Rightarrow> bool \<times> mesh_engine" where
  "battery_allows_relaying E e = (case ee_battery E (me_reads e) of
       (battery_level, is_charging) \<Rightarrow> (battery_allows_relaying_with battery_level is_charging e, next_read e))"

definition relay_admit :: "('v, 'w) engine_env \<Rightarrow> message \<Rightarrow> string option \<Rightarrow> mesh_engine \<Rightarrow> mesh_engine" where
  "relay_admit E m arrival_peer e =
     (let n = me_reads e; degree = length (mesh_neighbors (me_links e))
      in set_governor (snd (admit (ee_hash E) (ee_idstr E) (ee_clock E n) (ee_clock E (n + 1)) (ee_clock E (n + 2))
           (ee_clock E (n + 3)) m arrival_peer degree (me_governor e))) (e\<lparr>me_reads := n + 4\<rparr>))"

definition try_relay_message :: "('v, 'w) engine_env \<Rightarrow> message \<Rightarrow> string option \<Rightarrow> mesh_engine \<Rightarrow> mesh_engine" where
  "try_relay_message E m arrival_peer e =
     (case absorb_settled_duplicate (ee_idstr E) (ee_clock E (me_reads e)) m arrival_peer (me_governor e) of
        (absorbed, g) \<Rightarrow>
          let e1 = set_governor g (next_read e) in
          if absorbed then e1
          else if \<not> (ec_allow_relay (me_config e1) \<and> ec_relay_priority (me_config e1) \<noteq> Never) then e1
          else (case battery_allows_relaying E e1 of
                  (False, e2) \<Rightarrow> e2
                | (True, e2) \<Rightarrow> relay_admit E m arrival_peer e2))"

text \<open>The head of the receive loop: whether the frame was for someone else, and the engine after it.\<close>

definition route_inbound :: "('v, 'w) engine_env \<Rightarrow> message \<Rightarrow> mesh_engine \<Rightarrow> bool \<times> mesh_engine" where
  "route_inbound E m e =
     (if msg_recipient m \<noteq> ec_local_id (me_config e)
      then (True, if msg_sender m = ec_local_id (me_config e) then e else try_relay_message E m (msg_transport_peer_id m) e)
      else (False, e))"

subsection \<open>Durable custody records\<close>

text \<open>The form a message has after \<open>serde\<close>: the two fields it skips are back at their defaults.\<close>

definition stored_message :: "message \<Rightarrow> message" where
  "stored_message m = m\<lparr>msg_transport_peer_id := None, msg_wire_codec := WcJson\<rparr>"

definition record_of :: "held_frame \<Rightarrow> custody_record" where
  "record_of held = \<lparr>ctr_version = CUSTODY_RECORD_VERSION, ctr_depositor = hf_depositor held,
     ctr_message = stored_message (hf_message held), ctr_accepted_at_ms = hf_accepted_at_ms held, ctr_class = hf_class held\<rparr>"

definition persist_custody_record :: "('v, 'w) engine_env \<Rightarrow> held_frame \<Rightarrow> mesh_engine \<Rightarrow> mesh_engine" where
  "persist_custody_record E held e =
     (if \<not> me_storage e then e
      else if ee_persists E (me_reads e)
      then next_read (e\<lparr>me_records := hm_insert (ee_idstr E (msg_id (hf_message held))) (record_of held) (me_records e)\<rparr>)
      else next_read e)"

definition delete_custody_record_by_key :: "('v, 'w) engine_env \<Rightarrow> string \<Rightarrow> mesh_engine \<Rightarrow> mesh_engine" where
  "delete_custody_record_by_key E key e =
     (if \<not> me_storage e then e
      else if ee_deletes E (me_reads e) then next_read (e\<lparr>me_records := hm_remove key (me_records e)\<rparr>)
      else next_read e)"

definition delete_custody_record :: "('v, 'w) engine_env \<Rightarrow> message_id \<Rightarrow> mesh_engine \<Rightarrow> mesh_engine" where
  "delete_custody_record E mid e = delete_custody_record_by_key E (ee_idstr E mid) e"

subsection \<open>Making and signing a control message\<close>

definition write_lamport_clock_to_storage :: "('v, 'w) engine_env \<Rightarrow> u64 \<Rightarrow> mesh_engine \<Rightarrow> mesh_engine" where
  "write_lamport_clock_to_storage E v e =
     (if \<not> me_storage e then e
      else if ee_persists E (me_reads e) then next_read (e\<lparr>me_last_persisted_lamport := v\<rparr>)
      else next_read e)"

definition persist_lamport_clock :: "('v, 'w) engine_env \<Rightarrow> mesh_engine \<Rightarrow> mesh_engine" where
  "persist_lamport_clock E e =
     (if me_lamport e - me_last_persisted_lamport e < LAMPORT_PERSIST_INTERVAL then e
      else write_lamport_clock_to_storage E (me_lamport e) e)"

text \<open>For the configured application and without a reply: the clock ticks before the hop budget is looked at.\<close>

definition create_message_for_app ::
  "('v, 'w) engine_env \<Rightarrow> string \<Rightarrow> string \<Rightarrow> message_priority \<Rightarrow> mesh_engine \<Rightarrow> (core_error + message) \<times> mesh_engine" where
  "create_message_for_app E recipient content priority e =
     (case UserId_new (ec_local_id (me_config e)) of Inl er \<Rightarrow> (Inl er, e) | Inr sender \<Rightarrow>
      case UserId_new recipient of Inl er \<Rightarrow> (Inl er, e) | Inr recipient \<Rightarrow>
      case AppId_new (ec_app_id (me_config e)) of Inl er \<Rightarrow> (Inl er, e) | Inr app \<Rightarrow>
        let clock_value = Lamport_tick (me_lamport e);
            e1 = persist_lamport_clock E (e\<lparr>me_lamport := clock_value\<rparr>)
        in case TTL_new (ec_initial_ttl (me_config e)) of
             Inl er \<Rightarrow> (Inl er, e1)
           | Inr ttl \<Rightarrow>
               let n = me_reads e1
               in (Inr ((message_from_parts (ee_new_id E n) sender recipient app content (ee_wall E (n + 1)))
                     \<lparr>msg_priority := priority, msg_ttl := ttl, msg_lamport_clock := clock_value\<rparr>),
                   e1\<lparr>me_reads := n + 2\<rparr>))"

definition create_message ::
  "('v, 'w) engine_env \<Rightarrow> string \<Rightarrow> string \<Rightarrow> message_priority \<Rightarrow> mesh_engine \<Rightarrow> (core_error + message) \<times> mesh_engine" where
  "create_message E recipient content priority e = (case create_message_for_app E recipient content priority e of
       (Inl er, e1) \<Rightarrow> (Inl er, e1)
     | (Inr m, e1) \<Rightarrow> (Inr (m\<lparr>msg_metadata := hm_insert NO_ALERT_KEY ''1'' (msg_metadata m)\<rparr>), e1))"

definition signs_freshness_bound_control_to :: "string \<Rightarrow> mesh_engine \<Rightarrow> bool" where
  "signs_freshness_bound_control_to recipient e \<longleftrightarrow>
     recipient = ec_local_id (me_config e) \<or> recipient \<in> pf_ctrl_freshness (me_peers e)"

definition sign_control_message_with :: "('v, 'w) engine_env \<Rightarrow> message \<Rightarrow> bool \<Rightarrow> message option" where
  "sign_control_message_with E m freshness_bound = (case ee_public_key E of
       None \<Rightarrow> None
     | Some public_key \<Rightarrow>
         (case (if freshness_bound then control_signing_payload_v2 (ee_idstr E) m else control_signing_payload (ee_idstr E) m) of
            Inl _ \<Rightarrow> None
          | Inr canonical \<Rightarrow>
              (case ee_sign E canonical of
                 None \<Rightarrow> None
               | Some signature \<Rightarrow> Some (m\<lparr>msg_metadata := hm_insert CTRL_PK_META_KEY (ee_base64 E public_key)
                   (hm_insert CTRL_SIG_META_KEY (ee_base64 E signature) (msg_metadata m))\<rparr>))))"

definition sign_control_message :: "('v, 'w) engine_env \<Rightarrow> message \<Rightarrow> mesh_engine \<Rightarrow> message option" where
  "sign_control_message E m e =
     (if \<not> pf_mls (me_peers e) then Some m
      else sign_control_message_with E m (signs_freshness_bound_control_to (msg_recipient m) e))"

subsection \<open>The drop point\<close>

definition map_custody :: "(custody_store \<Rightarrow> custody_store) \<Rightarrow> mesh_engine \<Rightarrow> mesh_engine" where
  "map_custody f e = set_custody (f (me_custody e)) e"

definition relay_mark_handled :: "('v, 'w) engine_env \<Rightarrow> message_id \<Rightarrow> mesh_engine \<Rightarrow> mesh_engine" where
  "relay_mark_handled E mid e =
     (let n = me_reads e
      in set_governor (mark_handled (ee_clock E n) (ee_clock E (n + 1)) (ee_idstr E mid) (me_governor e)) (e\<lparr>me_reads := n + 2\<rparr>))"

definition put_on_arrival_link :: "('v, 'w) engine_env \<Rightarrow> string \<Rightarrow> message \<Rightarrow> mesh_engine \<Rightarrow> mesh_engine" where
  "put_on_arrival_link E depositor m e =
     (let e1 = relay_mark_handled E (msg_id m) (e\<lparr>me_marked_local := me_marked_local e @ [msg_id m]\<rparr>)
      in case send_to_neighbor depositor m (me_links e1) of
           (Some _, l) \<Rightarrow> map_custody record_receipt_sent (e1\<lparr>me_links := l\<rparr>)
         | (None, l) \<Rightarrow> map_custody record_receipt_dropped (e1\<lparr>me_links := l\<rparr>))"

definition send_custody_receipt :: "('v, 'w) engine_env \<Rightarrow> string \<Rightarrow> message_id \<Rightarrow> mesh_engine \<Rightarrow> mesh_engine" where
  "send_custody_receipt E depositor held_id e =
     (if depositor \<notin> pf_data_custody (me_peers e) then map_custody record_receipt_dropped e
      else if \<not> pf_mls (me_peers e) then map_custody record_receipt_dropped e
      else (case create_message E depositor
                   (encode_receipt (ee_receipt_json E) (ee_idstr E held_id) (cc_hold_ms (cs_config (me_custody e)))) Low e of
              (Inl _, e1) \<Rightarrow> map_custody record_receipt_dropped e1
            | (Inr m, e1) \<Rightarrow>
                (case sign_control_message E (m\<lparr>msg_requires_ack := False\<rparr>) e1 of
                   None \<Rightarrow> map_custody record_receipt_dropped e1
                 | Some receipt \<Rightarrow> put_on_arrival_link E depositor receipt e1)))"

definition return_held_to_store :: "pending_relay \<Rightarrow> mesh_engine \<Rightarrow> mesh_engine" where
  "return_held_to_store relay e = map_custody (returned (msg_id (pr_message relay))) e"

text \<open>The battery is asked for only when the acceptance table can reach that row.\<close>

definition deposit_battery_ok :: "('v, 'w) engine_env \<Rightarrow> pending_relay \<Rightarrow> mesh_engine \<Rightarrow> bool \<times> mesh_engine" where
  "deposit_battery_ok E relay e =
     (if \<not> cc_enabled (cs_config (me_custody e)) \<or> pr_custody_request relay = None then (True, e)
      else battery_allows_relaying E e)"

definition deposit_candidate :: "pending_relay \<Rightarrow> bool \<Rightarrow> i64 \<Rightarrow> mesh_engine \<Rightarrow> custody_candidate" where
  "deposit_candidate relay battery_ok now_ms e =
     \<lparr>ca_message = pr_message relay, ca_request = pr_custody_request relay, ca_arrival_peer = pr_arrival_peer relay,
      ca_session_tier = (case pr_arrival_peer relay of Some peer \<Rightarrow> peer \<in> pf_confirmed_sessions (me_peers e) | None \<Rightarrow> False),
      ca_battery_ok = battery_ok, ca_now_ms = now_ms\<rparr>"

definition settle_deposit :: "('v, 'w) engine_env \<Rightarrow> accepted \<Rightarrow> mesh_engine \<Rightarrow> mesh_engine" where
  "settle_deposit E accepted e =
     (let e1 = fold (delete_custody_record E) (ac_evicted accepted) e;
          e2 = (case map_of (cs_entries (me_custody e1)) (ac_id accepted) of
                  Some held \<Rightarrow> persist_custody_record E held e1
                | None \<Rightarrow> e1)
      in send_custody_receipt E (ac_depositor accepted) (ac_id accepted) e2)"

definition judge_at_drop_point :: "('v, 'w) engine_env \<Rightarrow> pending_relay \<Rightarrow> mesh_engine \<Rightarrow> mesh_engine" where
  "judge_at_drop_point E relay e =
     (if pr_custody_target relay \<noteq> None then return_held_to_store relay e
      else (case deposit_battery_ok E relay e of (battery_ok, e1) \<Rightarrow>
            case judge (deposit_candidate relay battery_ok (ee_wall E (me_reads e1)) e1) (me_custody e1) of
              (Inr accepted, s) \<Rightarrow> settle_deposit E accepted (set_custody s (next_read e1))
            | (Inl _, s) \<Rightarrow> set_custody s (next_read e1)))"

definition record_custody_transmission :: "('v, 'w) engine_env \<Rightarrow> pending_relay \<Rightarrow> bool \<Rightarrow> mesh_engine \<Rightarrow> mesh_engine" where
  "record_custody_transmission E relay reached_recipient e =
     (let mid = msg_id (pr_message relay) in
      if reached_recipient
      then (case record_delivered mid (me_custody e) of
              (Some _, s) \<Rightarrow> delete_custody_record E mid (set_custody s e)
            | (None, s) \<Rightarrow> set_custody s e)
      else map_custody (record_re_originated mid) e)"

subsection \<open>Transmitting what is due\<close>

definition relay_targets :: "('v, 'w) engine_env \<Rightarrow> mesh_neighbor list \<Rightarrow> pending_relay \<Rightarrow> mesh_relay_governor \<Rightarrow> string list" where
  "relay_targets E neighbors relay g = (case pr_custody_target relay of
       Some target \<Rightarrow> if list_ex (\<lambda>n. mn_peer_id n = target) neighbors then [target] else []
     | None \<Rightarrow>
         let m = pr_message relay; recipient = msg_recipient m;
             exclude = msg_sender m # (case pr_arrival_peer relay of Some peer \<Rightarrow> [peer] | None \<Rightarrow> []) @ pr_heard_from relay;
             onward = select_targets (ee_hash E) (map neighbor_entry neighbors) exclude (ee_idstr E (msg_id m)) g
         in if list_ex (\<lambda>n. mn_peer_id n = recipient) neighbors
            then recipient # filter (\<lambda>peer. peer \<noteq> recipient) onward else onward)"

text \<open>The frame across its targets: how many took it, and whether the recipient was one of them.\<close>

fun send_to_targets ::
  "('v, 'w) engine_env \<Rightarrow> message \<Rightarrow> bool \<Rightarrow> string list \<Rightarrow> mesh_engine \<Rightarrow> nat \<times> bool \<times> mesh_engine" where
  "send_to_targets E m deliver_direct [] e = (0, False, e)"
| "send_to_targets E m deliver_direct (target # targets) e =
     (case take_send_token (ee_clock E (me_reads e)) (me_governor e) of
        (False, g) \<Rightarrow> (0, False, set_governor g (next_read e))
      | (True, g) \<Rightarrow>
          (case send_to_neighbor target m (me_links e) of
             (Some _, l) \<Rightarrow>
               let e1 = (set_governor g (next_read e))\<lparr>me_links := l\<rparr> in
               if deliver_direct \<and> target = msg_recipient m then (1, True, e1)
               else (case send_to_targets E m deliver_direct targets e1 of (n, reached, e2) \<Rightarrow> (Suc n, reached, e2))
           | (None, l) \<Rightarrow> send_to_targets E m deliver_direct targets ((set_governor g (next_read e))\<lparr>me_links := l\<rparr>)))"

definition relayed_event :: "('v, 'w) engine_env \<Rightarrow> message \<Rightarrow> message_relayed" where
  "relayed_event E m = \<lparr>ev_message_id = ee_idstr E (msg_id m), ev_sender = msg_sender m, ev_recipient = msg_recipient m,
     ev_hop_count = msg_hop_count m, ev_remaining_ttl = msg_ttl m\<rparr>"

definition covered_all_around :: "mesh_neighbor list \<Rightarrow> pending_relay \<Rightarrow> bool" where
  "covered_all_around neighbors relay \<longleftrightarrow> pr_custody_target relay = None \<and> pr_heard_from relay \<noteq> []
     \<and> list_ex (\<lambda>n. mn_peer_id n \<in> set (pr_heard_from relay)) neighbors"

definition hand_back :: "('v, 'w) engine_env \<Rightarrow> pending_relay \<Rightarrow> mesh_engine \<Rightarrow> mesh_engine" where
  "hand_back E relay e = (case requeue (ee_idstr E) relay (me_governor e) of
       (Some back, g) \<Rightarrow> return_held_to_store back (set_governor g e)
     | (None, g) \<Rightarrow> set_governor g e)"

definition settle_forward :: "('v, 'w) engine_env \<Rightarrow> pending_relay \<Rightarrow> bool \<Rightarrow> mesh_engine \<Rightarrow> mesh_engine" where
  "settle_forward E relay reached_recipient e =
     (let e1 = (if pr_custody_target relay \<noteq> None then record_custody_transmission E relay reached_recipient e else e)
      in (set_governor (record_forwarded (me_governor e1)) e1)\<lparr>me_events := me_events e1 @ [relayed_event E (pr_message relay)]\<rparr>)"

definition forward_due :: "('v, 'w) engine_env \<Rightarrow> mesh_neighbor list \<Rightarrow> pending_relay \<Rightarrow> mesh_engine \<Rightarrow> mesh_engine" where
  "forward_due E neighbors relay e =
     (let m = pr_message relay; targets = relay_targets E neighbors relay (me_governor e);
          deliver_direct = (case targets of target # _ \<Rightarrow> target = msg_recipient m | [] \<Rightarrow> False)
      in if targets = [] \<and> covered_all_around neighbors relay then set_governor (drop_covered relay (me_governor e)) e
         else (case send_to_targets E m deliver_direct targets e of (delivered_to, reached_recipient, e1) \<Rightarrow>
                 if delivered_to = 0 then hand_back E relay e1 else settle_forward E relay reached_recipient e1))"

definition flush_mesh_relays_at :: "('v, 'w) engine_env \<Rightarrow> instant \<Rightarrow> mesh_engine \<Rightarrow> mesh_engine" where
  "flush_mesh_relays_at E now e = (case release_due (ee_idstr E) now (me_governor e) of ((due, abandoned), g) \<Rightarrow>
     let e1 = fold (judge_at_drop_point E) abandoned (set_governor g e) in
     if due = [] then e1 else fold (forward_due E (mesh_neighbors (me_links e1))) due e1)"

definition flush_mesh_relays :: "('v, 'w) engine_env \<Rightarrow> mesh_engine \<Rightarrow> mesh_engine" where
  "flush_mesh_relays E e = flush_mesh_relays_at E (ee_clock E (me_reads e)) (next_read e)"

subsection \<open>Redelivery, expiry and erasure\<close>

fun redeliver_loop :: "('v, 'w) engine_env \<Rightarrow> string \<Rightarrow> instant \<Rightarrow> message_id list \<Rightarrow> mesh_engine \<Rightarrow> mesh_engine" where
  "redeliver_loop E peer now [] e = e"
| "redeliver_loop E peer now (mid # mids) e =
     (case map_of (cs_entries (me_custody e)) mid of
        None \<Rightarrow> redeliver_loop E peer now mids e
      | Some held \<Rightarrow>
          (case admit_held (ee_idstr E) (hf_message held) peer now (me_governor e) of
             (Inr _, g) \<Rightarrow> redeliver_loop E peer now mids (map_custody (mark_queued mid peer) (set_governor g e))
           | (Inl QueueFull, g) \<Rightarrow> set_governor g e
           | (Inl _, g) \<Rightarrow> redeliver_loop E peer now mids (set_governor g e)))"

definition redeliver_custody_to :: "('v, 'w) engine_env \<Rightarrow> string \<Rightarrow> mesh_engine \<Rightarrow> mesh_engine" where
  "redeliver_custody_to E peer e =
     (if \<not> cc_enabled (cs_config (me_custody e)) \<or> cs_entries (me_custody e) = [] then e
      else if \<not> ec_allow_relay (me_config e) \<or> ec_relay_priority (me_config e) = Never then e
      else if \<not> list_ex (\<lambda>n. mn_peer_id n = peer) (mesh_neighbors (me_links e)) then e
      else (case battery_allows_relaying E e of
              (False, e1) \<Rightarrow> e1
            | (True, e1) \<Rightarrow> redeliver_loop E peer (ee_clock E (me_reads e1)) (candidates_for peer (me_custody e1)) (next_read e1)))"

definition prune_receipts :: "i64 \<Rightarrow> (message_id, (string, int) hashmap) hashmap \<Rightarrow> (message_id, (string, int) hashmap) hashmap" where
  "prune_receipts now_ms receipts =
     filter (\<lambda>(_, custodians). custodians \<noteq> [])
       (map (\<lambda>(mid, custodians). (mid, hm_retain (\<lambda>_ until_ms. sint now_ms < until_ms) custodians)) receipts)"

definition sweep_custody_now :: "('v, 'w) engine_env \<Rightarrow> i64 \<Rightarrow> mesh_engine \<Rightarrow> mesh_engine" where
  "sweep_custody_now E now_ms e =
     (let e1 = e\<lparr>me_receipts := prune_receipts now_ms (me_receipts e)\<rparr> in
      if cs_entries (me_custody e1) = [] then e1
      else (case cs_expire now_ms (cc_hold_ms (cs_config (me_custody e1))) (me_custody e1) of
              (expired, s) \<Rightarrow> fold (delete_custody_record E) expired (set_custody s e1)))"

definition sweep_custody :: "('v, 'w) engine_env \<Rightarrow> mesh_engine \<Rightarrow> mesh_engine" where
  "sweep_custody E e =
     (let now = ee_clock E (me_reads e); e1 = next_read e in
      if now - me_last_sweep e1 < CUSTODY_SWEEP_INTERVAL then e1
      else sweep_custody_now E (ee_wall E (me_reads e1)) (next_read (e1\<lparr>me_last_sweep := now\<rparr>)))"

text \<open>The head of the tick that \<open>process\<close> makes while the engine runs.\<close>

definition process_mesh :: "('v, 'w) engine_env \<Rightarrow> mesh_engine \<Rightarrow> mesh_engine" where
  "process_mesh E e = sweep_custody E (flush_mesh_relays E e)"

text \<open>Deletes that are tried to the end; the result is whether all of them succeeded.\<close>

fun delete_all :: "('v, 'w) engine_env \<Rightarrow> string list \<Rightarrow> mesh_engine \<Rightarrow> bool \<times> mesh_engine" where
  "delete_all E [] e = (True, e)"
| "delete_all E (key # keys) e =
     (case delete_all E keys (delete_custody_record_by_key E key e) of (ok, e') \<Rightarrow> (ee_deletes E (me_reads e) \<and> ok, e'))"

definition erase_custody :: "('v, 'w) engine_env \<Rightarrow> mesh_engine \<Rightarrow> bool \<times> mesh_engine" where
  "erase_custody E e = (case cs_erase (me_custody e) of (mids, s) \<Rightarrow>
     let e1 = (set_governor (drop_held (me_governor e)) (set_custody s e))\<lparr>me_receipts := []\<rparr> in
     if \<not> me_storage e1 then (True, e1)
     else (case delete_all E (map (ee_idstr E) mids) e1 of (ok, e2) \<Rightarrow>
           case ee_lists E (me_reads e2) of
             ListOk \<Rightarrow> (case delete_all E (map fst (me_records e2)) (next_read e2) of (ok', e3) \<Rightarrow> (ok \<and> ok', e3))
           | ListNotFound \<Rightarrow> (ok, next_read e2)
           | ListFailed \<Rightarrow> (False, next_read e2)))"

subsection \<open>Receipts from custodians\<close>

definition saturating_add_i64 :: "int \<Rightarrow> int \<Rightarrow> int" where
  "saturating_add_i64 a b = max (- (2 ^ 63)) (min (2 ^ 63 - 1) (a + b))"

definition room_for_custodian :: "string \<Rightarrow> (string, int) hashmap \<Rightarrow> (string, int) hashmap" where
  "room_for_custodian custodian custodians =
     (if \<not> hm_contains custodian custodians \<and> MAX_CUSTODY_RECEIPTS_PER_MESSAGE \<le> length custodians
      then (case min_on snd custodians of Some (soonest, _) \<Rightarrow> hm_remove soonest custodians | None \<Rightarrow> custodians)
      else custodians)"

definition record_custodian :: "message_id \<Rightarrow> string \<Rightarrow> int \<Rightarrow> mesh_engine \<Rightarrow> mesh_engine" where
  "record_custodian mid custodian until_ms e =
     (let custodians = (case map_of (me_receipts e) mid of Some cs \<Rightarrow> cs | None \<Rightarrow> [])
      in e\<lparr>me_receipts := hm_insert mid (hm_insert custodian until_ms (room_for_custodian custodian custodians)) (me_receipts e)\<rparr>)"

definition handle_custody_receipt :: "('v, 'w) engine_env \<Rightarrow> string \<Rightarrow> string \<Rightarrow> i64 \<Rightarrow> mesh_engine \<Rightarrow> mesh_engine" where
  "handle_custody_receipt E custodian body minted_at_ms e = (case decode_receipt (ee_receipt_json E) body of
       Inl _ \<Rightarrow> map_custody record_receipt_ignored e
     | Inr receipt \<Rightarrow>
         (case ee_id_from_str E (cr_id receipt) of
            None \<Rightarrow> map_custody record_receipt_ignored e
          | Some mid \<Rightarrow>
              if \<not> hm_contains mid (pf_outbox (me_peers e)) then map_custody record_receipt_ignored e
              else let hold_ms = min (cr_hold_ms receipt) (ec_outbox_max_lifetime_ms (me_config e));
                       until_ms = saturating_add_i64 (min (sint minted_at_ms) (sint (ee_wall E (me_reads e))))
                         (int (min hold_ms (2 ^ 63 - 1)))
                   in map_custody record_receipt_received (record_custodian mid custodian until_ms (next_read e))))"

definition custody_suppressed_toward :: "('v, 'w) engine_env \<Rightarrow> message_id \<Rightarrow> string \<Rightarrow> mesh_engine \<Rightarrow> bool \<times> mesh_engine" where
  "custody_suppressed_toward E mid custodian e =
     (case map_of (me_receipts e) mid of
        None \<Rightarrow> (False, e)
      | Some custodians \<Rightarrow>
          (case map_of custodians custodian of
             None \<Rightarrow> (False, e)
           | Some until_ms \<Rightarrow> (sint (ee_wall E (me_reads e)) < until_ms, next_read e)))"

subsection \<open>Handing own frames to the mesh\<close>

fun custody_class :: "sync_kind \<Rightarrow> string option" where
  "custody_class Versions = Some CUSTODY_CLASS_DATA"
| "custody_class Delta = Some CUSTODY_CLASS_DATA"
| "custody_class Snapshot = Some CUSTODY_CLASS_DATA"
| "custody_class BlobGone = Some CUSTODY_CLASS_DATA"
| "custody_class NeedSnapshot = None"
| "custody_class NeedBlob = None"
| "custody_class Chunk = None"

definition custody_class_of_plaintext :: "'w sync_json \<Rightarrow> string \<Rightarrow> string option" where
  "custody_class_of_plaintext J plaintext =
     (if take (length DATA_V1_PREFIX) plaintext \<noteq> DATA_V1_PREFIX then None
      else (case sj_from_str J (drop (length DATA_V1_PREFIX) plaintext) of
              None \<Rightarrow> None
            | Some v \<Rightarrow> if sj_get_v J v \<noteq> Some DATA_SYNC_V1 then None
                else (case sj_kind J v of None \<Rightarrow> None | Some k \<Rightarrow> custody_class k)))"

definition custody_class_for :: "('v, 'w) engine_env \<Rightarrow> message \<Rightarrow> mesh_engine \<Rightarrow> string option" where
  "custody_class_for E m e =
     (if take (length ENCRYPTED_PREFIX) (msg_content m) \<noteq> ENCRYPTED_PREFIX then None
      else (case (case map_of (pf_outbox (me_peers e)) (msg_id m) of
                    Some (Some content) \<Rightarrow> Some content
                  | _ \<Rightarrow> map_of (pf_pending_reseal (me_peers e)) (msg_id m)) of
              None \<Rightarrow> None
            | Some plaintext \<Rightarrow> custody_class_of_plaintext (ee_sync_json E) plaintext))"

definition deposit_frame ::
  "('v, 'w) engine_env \<Rightarrow> message \<Rightarrow> string option \<Rightarrow> string \<Rightarrow> mesh_engine \<Rightarrow> message \<times> mesh_engine" where
  "deposit_frame E m class target e = (case class of
       None \<Rightarrow> (m, e)
     | Some c \<Rightarrow> (case custody_suppressed_toward E (msg_id m) target e of
           (True, e1) \<Rightarrow> (m, e1)
         | (False, e1) \<Rightarrow> (m\<lparr>msg_metadata := hm_insert CUSTODY_META_KEY c (msg_metadata m)\<rparr>, e1)))"

fun offer_loop :: "('v, 'w) engine_env \<Rightarrow> message \<Rightarrow> string option \<Rightarrow> string list \<Rightarrow> mesh_engine \<Rightarrow> nat \<times> mesh_engine" where
  "offer_loop E m class [] e = (0, e)"
| "offer_loop E m class (target # targets) e =
     (case take_own_send_token (ee_clock E (me_reads e)) (me_governor e) of
        (False, g) \<Rightarrow> (0, set_governor g (next_read e))
      | (True, g) \<Rightarrow>
          (case deposit_frame E m class target (set_governor g (next_read e)) of (frame, e1) \<Rightarrow>
           case send_to_neighbor target frame (me_links e1) of
             (Some _, l) \<Rightarrow> (case offer_loop E m class targets (e1\<lparr>me_links := l\<rparr>) of (n, e2) \<Rightarrow> (Suc n, e2))
           | (None, l) \<Rightarrow> offer_loop E m class targets (e1\<lparr>me_links := l\<rparr>)))"

definition offer_targets :: "('v, 'w) engine_env \<Rightarrow> mesh_neighbor list \<Rightarrow> message \<Rightarrow> mesh_relay_governor \<Rightarrow> string list" where
  "offer_targets E neighbors m g =
     (if list_ex (\<lambda>n. mn_peer_id n = msg_recipient m) neighbors then [msg_recipient m]
      else select_origination_targets (ee_hash E) (map neighbor_entry neighbors) [] (ee_idstr E (msg_id m)) g)"

definition offer_to_mesh :: "('v, 'w) engine_env \<Rightarrow> message \<Rightarrow> mesh_engine \<Rightarrow> nat \<times> mesh_engine" where
  "offer_to_mesh E m e =
     (if msg_recipient m = ec_local_id (me_config e) then (0, e)
      else let neighbors = mesh_neighbors (me_links e) in
           if neighbors = [] then (0, e)
           else let e1 = relay_mark_handled E (msg_id m) e
                in offer_loop E m (custody_class_for E m e1) (offer_targets E neighbors m (me_governor e1)) e1)"

subsection \<open>Restoring the custody store at launch\<close>

definition claim_delete ::
  "('v, 'w) engine_env \<Rightarrow> string \<Rightarrow> prune_budget \<times> mesh_engine \<Rightarrow> prune_budget \<times> mesh_engine" where
  "claim_delete E key be = (case claim (fst be) of
       (True, b) \<Rightarrow> (b, delete_custody_record_by_key E key (snd be))
     | (False, b) \<Rightarrow> (b, snd be))"

text \<open>One key of the listing: the records kept so far grow by at most the one read.  A record whose bytes do not open is
  removed by the reader itself, outside the budget; one that opens and does not parse is claimed for.\<close>

definition restore_key ::
  "('v, 'w) engine_env \<Rightarrow> i64 \<Rightarrow> string \<Rightarrow> custody_record list \<times> prune_budget \<times> mesh_engine \<Rightarrow>
     custody_record list \<times> prune_budget \<times> mesh_engine" where
  "restore_key E now_ms key = (\<lambda>(records, b, e).
     if \<not> cc_enabled (cs_config (me_custody e)) then (records, claim_delete E key (b, e))
     else (case (ee_reads_record E (me_reads e), map_of (me_records e) key) of
             (ReadOk, Some r) \<Rightarrow>
               let e1 = next_read e; hold = int (min (cc_hold_ms (cs_config (me_custody e))) (2 ^ 63 - 1)) in
               if ctr_version r \<noteq> CUSTODY_RECORD_VERSION \<or> ee_idstr E (msg_id (ctr_message r)) \<noteq> key
                 \<or> hold < saturating_sub_i64 now_ms (ctr_accepted_at_ms r)
               then (records, claim_delete E key (b, e1))
               else (records @ [r], b, e1)
           | (ReadCorrupt, Some _) \<Rightarrow> (records, claim_delete E key (b, next_read e))
           | (ReadUnreadable, Some _) \<Rightarrow> (records, b, delete_custody_record_by_key E key (next_read e))
           | _ \<Rightarrow> (records, b, next_read e)))"

definition restore_record ::
  "('v, 'w) engine_env \<Rightarrow> custody_record \<Rightarrow> prune_budget \<times> mesh_engine \<Rightarrow> prune_budget \<times> mesh_engine" where
  "restore_record E r = (\<lambda>(b, e).
     case admit_restored (ctr_message r) (ctr_depositor r) (ctr_accepted_at_ms r) (ctr_class r) (me_custody e) of
       (True, s) \<Rightarrow> (b, set_custody s e)
     | (False, s) \<Rightarrow> claim_delete E (ee_idstr E (msg_id (ctr_message r))) (b, set_custody s e))"

definition oldest_first :: "('v, 'w) engine_env \<Rightarrow> custody_record list \<Rightarrow> custody_record list" where
  "oldest_first E records = sort_key (\<lambda>r. (sint (ctr_accepted_at_ms r), ee_idstr E (msg_id (ctr_message r)))) records"

definition restore_custody ::
  "('v, 'w) engine_env \<Rightarrow> prune_allowance \<Rightarrow> mesh_engine \<Rightarrow> prune_allowance \<times> mesh_engine" where
  "restore_custody E allowance e =
     (if \<not> me_storage e then (allowance, e)
      else if ee_lists E (me_reads e) \<noteq> ListOk \<or> me_records e = [] then (allowance, next_read e)
      else let cap = max (min (cc_max_entries (cs_config (me_custody e)) * 4) u64_max) 1;
               keys = take cap (map fst (me_records e));
               now_ms = ee_wall E (me_reads e + 1)
           in case fold (restore_key E now_ms) keys ([], refusing_private allowance, e\<lparr>me_reads := me_reads e + 2\<rparr>) of
                (records, b, e1) \<Rightarrow>
                  (case fold (restore_record E) (oldest_first E records) (b, e1) of
                     (b', e2) \<Rightarrow> (give_back b' allowance, e2)))"

subsection \<open>The engine as a machine\<close>

text \<open>What can happen to it: a frame arrives, the tick runs, a neighbor appears or goes, a receipt arrives, an own frame
  is handed out, an outbox entry is settled, custody is erased, the device's condition is sampled, and the rest
  of the engine or the transports change what this part reads.\<close>

definition forget_neighbor :: "string \<Rightarrow> mesh_engine \<Rightarrow> mesh_engine" where
  "forget_neighbor peer e = set_governor (forget_peer peer (me_governor e)) e"

definition settle_receipts :: "message_id \<Rightarrow> mesh_engine \<Rightarrow> mesh_engine" where
  "settle_receipts mid e = e\<lparr>me_receipts := hm_remove mid (me_receipts e)\<rparr>"

datatype me_op =
    MeInbound message
  | MeTick
  | MeDiscovered string
  | MeLost string
  | MeReceipt string string i64
  | MeOffer message
  | MeSettled message_id
  | MeErase
  | MeConditions instant "nat option" bool bool nat
  | MeWorld peer_facts mesh_links

fun me_step :: "('v, 'w) engine_env \<Rightarrow> me_op \<Rightarrow> mesh_engine \<Rightarrow> mesh_engine" where
  "me_step E (MeInbound m) e = snd (route_inbound E m e)"
| "me_step E MeTick e = process_mesh E e"
| "me_step E (MeDiscovered peer) e = redeliver_custody_to E peer e"
| "me_step E (MeLost peer) e = forget_neighbor peer e"
| "me_step E (MeReceipt custodian body minted_at_ms) e = handle_custody_receipt E custodian body minted_at_ms e"
| "me_step E (MeOffer m) e = snd (offer_to_mesh E m e)"
| "me_step E (MeSettled mid) e = settle_receipts mid e"
| "me_step E MeErase e = snd (erase_custody E e)"
| "me_step E (MeConditions now battery charging eager soft) e =
     set_governor (set_conditions now battery charging eager soft (me_governor e)) e"
| "me_step E (MeWorld facts links) e = e\<lparr>me_peers := facts, me_links := links\<rparr>"

end
