(* ===== verification/Mesh_Custody.thy ===== *)
theory Mesh_Custody
  imports Mesh_Engine
begin

text \<open>
  What the engine of \<open>Mesh_Engine\<close> keeps through everything that can happen to it.

  Every operation is a path of moves (\<open>me_move\<close>): a governor operation, a change of the custody store that
  leaves its frames, the taking of a frame, the giving up of frames, or something aside of these.  What holds
  of every move holds of every operation and every run.
\<close>

subsection \<open>The ids a governor operation can bring into the queue\<close>

abbreviation relay_id :: "pending_relay \<Rightarrow> message_id" where "relay_id r \<equiv> msg_id (pr_message r)"

definition queue_ids :: "mesh_relay_governor \<Rightarrow> message_id set" where
  "queue_ids g = relay_id ` set (mg_pending g)"

fun op_ids :: "mr_op \<Rightarrow> message_id set" where
  "op_ids (MrAdmit now c1 o1 o2 m peer degree) = {msg_id m}"
| "op_ids (MrAdmitHeld m target now) = {msg_id m}"
| "op_ids (MrRequeue relay) = {relay_id relay}"
| "op_ids _ = {}"

lemma queue_ids_simps [simp]:
  "queue_ids (g\<lparr>mg_seen := a\<rparr>) = queue_ids g" "queue_ids (g\<lparr>mg_counters := b\<rparr>) = queue_ids g"
  "queue_ids (g\<lparr>mg_pending := p\<rparr>) = relay_id ` set p"
  "queue_ids (count_duplicate g) = queue_ids g" "queue_ids (count_deferred g) = queue_ids g"
  "queue_ids (snd (has_send_budget now g)) = queue_ids g"
  by (auto simp: queue_ids_def count_duplicate_def count_deferred_def has_send_budget_cases)

lemma queue_ids_room: "queue_ids (snd (queue_room idstr m now g)) \<subseteq> queue_ids g"
  by (auto simp: queue_room_def mr_evict_for_def queue_ids_def split: option.split dest: in_set_takeD in_set_dropD)

lemma prepare_hop_id: "fst (prepare_hop m degree g) = Some f \<Longrightarrow> msg_id f = msg_id m"
  using arg_cong[OF prepare_hop_spec(7), of m degree g f msg_id] by simp

lemma queue_ids_enqueue:
  "queue_ids (snd (admit_enqueue hash idstr now o1 o2 resend m f peer degree g)) \<subseteq> insert (msg_id f) (queue_ids g)"
  using queue_ids_room[of idstr f now g]
  by (cases "queue_room idstr f now g") (auto simp: admit_enqueue_def Let_def new_relay_def queue_ids_def split: bool.split)

lemma queue_ids_hop:
  "queue_ids (snd (admit_hop hash idstr now o1 o2 resend m peer degree g)) \<subseteq> insert (msg_id m) (queue_ids g)"
proof (cases "prepare_hop m degree g")
  case (Pair f g1)
  have q: "queue_ids g1 = queue_ids g" using prepare_hop_state(1)[of m degree g] Pair by (simp add: queue_ids_def)
  show ?thesis
  proof (cases f)
    case (Some f')
    have "msg_id f' = msg_id m" using prepare_hop_id[of m degree g f'] Pair Some by simp
    then show ?thesis using queue_ids_enqueue[of hash idstr now o1 o2 resend m f' peer degree g1] Pair Some q
      by (simp add: admit_hop_def)
  qed (use Pair q in \<open>auto simp: admit_hop_def\<close>)
qed

lemma queue_ids_admit:
  "queue_ids (snd (admit hash idstr now c1 o1 o2 m peer degree g)) \<subseteq> insert (msg_id m) (queue_ids g)"
proof -
  have new: "queue_ids (snd (admit_new hash idstr now o1 o2 resend m peer degree g)) \<subseteq> insert (msg_id m) (queue_ids g)" for resend
  proof (cases "arrival_token peer now g")
    case (Pair ok g1)
    have "queue_ids g1 = queue_ids g" using arrival_token_state(1)[of peer now g] Pair by (simp add: queue_ids_def)
    then show ?thesis using Pair queue_ids_hop[of hash idstr now o1 o2 resend m peer degree g1]
      by (cases ok) (auto simp: admit_new_def)
  qed
  have "relay_id ` set qs = relay_id ` set ps" if "update_first Q (narrow peer) ps = Some qs" for Q ps qs
    using arg_cong[OF update_first_narrow[OF that], of "\<lambda>ms. msg_id ` set ms"] by (simp add: image_image)
  then show ?thesis using new by (auto simp: admit_def Let_def queue_ids_def count_duplicate_def split: option.split)
qed

lemma queue_ids_held:
  "queue_ids (snd (admit_held idstr m target now g)) \<subseteq> insert (msg_id m) (queue_ids g)"
proof (cases "take_peer_token target now g")
  case (Pair ok g1)
  have "queue_ids g1 = queue_ids g" using take_peer_token_state(1)[of target now g] Pair by (simp add: queue_ids_def)
  then show ?thesis using Pair queue_ids_room[of idstr m now g1]
    by (cases ok; cases "queue_room idstr m now g1") (auto simp: admit_held_def queue_ids_def split: bool.split)
qed

lemma release_due_members:
  assumes "release_due idstr now g = ((due, abandoned), g')"
  shows "set due \<subseteq> set (mg_pending g)" "set abandoned \<subseteq> set (mg_pending g)" "set (mg_pending g') \<subseteq> set (mg_pending g)"
proof -
  obtain d a k g1 where r: "release_loop idstr now (mg_pending g) (g\<lparr>mg_seen := rs_expire now (mg_seen g), mg_pending := []\<rparr>) = (d, a, k, g1)"
    "release_due idstr now g = ((d, a), g1\<lparr>mg_pending := k\<rparr>)" by (rule release_due_parts)
  have "set (mg_pending g) = set d \<union> set a \<union> set k"
    using arg_cong[OF release_loop_mset[OF r(1)], of set_mset] by simp
  then show "set due \<subseteq> set (mg_pending g)" "set abandoned \<subseteq> set (mg_pending g)" "set (mg_pending g') \<subseteq> set (mg_pending g)"
    using r(2) assms by auto
qed

lemma queue_ids_step: "queue_ids (mr_step hash idstr op g) \<subseteq> queue_ids g \<union> op_ids op"
proof (cases op)
  case (MrRelease now)
  obtain due abandoned g' where r: "release_due idstr now g = ((due, abandoned), g')" by (metis surj_pair)
  show ?thesis using release_due_members(3)[OF r] MrRelease r by (auto simp: queue_ids_def)
next
  case (MrAdmit now c1 o1 o2 m peer degree)
  then show ?thesis using queue_ids_admit[of hash idstr now c1 o1 o2 m peer degree g] by auto
next
  case (MrAdmitHeld m target now)
  then show ?thesis using queue_ids_held[of idstr m target now g] by auto
next
  case (MrActivity now)
  then show ?thesis by (auto simp: observe_activity_def Let_def queue_ids_def)
next
  case (MrSend now)
  then show ?thesis by (cases "has_send_budget now g")
    (use queue_ids_simps(6)[of now g] in \<open>auto simp: take_send_token_def queue_ids_def count_deferred_def count_transmission_def split: bool.split\<close>)
next
  case (MrOwnSend now)
  then show ?thesis
    by (auto simp: take_own_send_token_def claim_transmission_def queue_ids_def count_deferred_def count_transmission_def split: prod.split bool.split)
qed (auto simp: absorb_settled_duplicate_def Let_def record_forwarded_def requeue_def drop_covered_def drop_held_def mark_handled_def
    forget_peer_def maintain_def set_conditions_def force_inactive_def set_local_id_def queue_ids_def count_duplicate_def)

subsection \<open>Moves\<close>

definition me_core :: "mesh_engine \<Rightarrow> mesh_relay_governor \<times> custody_store \<times> (string, custody_record) hashmap \<times> bool" where
  "me_core e = (me_governor e, me_custody e, me_records e, me_storage e)"

text \<open>Every call of the host's store succeeds.\<close>

definition healthy_host :: "('v, 'w) engine_env \<Rightarrow> bool" where
  "healthy_host E \<longleftrightarrow> (\<forall>n. ee_persists E n \<and> ee_deletes E n)"

definition without_records :: "('v, 'w) engine_env \<Rightarrow> message_id list \<Rightarrow> (string, custody_record) hashmap \<Rightarrow> (string, custody_record) hashmap" where
  "without_records E mids r = fold (\<lambda>i. hm_remove (ee_idstr E i)) mids r"

definition with_record :: "('v, 'w) engine_env \<Rightarrow> held_frame option \<Rightarrow> (string, custody_record) hashmap \<Rightarrow> (string, custody_record) hashmap" where
  "with_record E held r = (case held of Some h \<Rightarrow> hm_insert (ee_idstr E (msg_id (hf_message h))) (record_of h) r | None \<Rightarrow> r)"

text \<open>The custody operations that take no frame and give none up; \<open>P\<close> restricts the frames they may be about.\<close>

fun quiet :: "(message_id \<Rightarrow> bool) \<Rightarrow> custody_store \<Rightarrow> cs_op \<Rightarrow> bool" where
  "quiet P s (CsJudge cand) = (\<exists>r. fst (judge cand s) = Inl r)"
| "quiet P s (CsQueued i peer) = P i"
| "quiet P s (CsReturned i) = P i"
| "quiet P s (CsReOriginated i) = P i"
| "quiet P s CsReceiptSent = True"
| "quiet P s CsReceiptDropped = True"
| "quiet P s CsReceiptReceived = True"
| "quiet P s CsReceiptIgnored = True"
| "quiet P s _ = False"

inductive me_move :: "('v, 'w) engine_env \<Rightarrow> (message_id \<Rightarrow> bool) \<Rightarrow> mesh_engine \<Rightarrow> mesh_engine \<Rightarrow> bool" for E P where
  mv_aside: "me_core e' = me_core e \<Longrightarrow> me_move E P e e'"
| mv_governor: "me_core e' = (mr_step (ee_hash E) (ee_idstr E) op (me_governor e), me_custody e, me_records e, me_storage e)
    \<Longrightarrow> (\<forall>i\<in>op_ids op. P i) \<Longrightarrow> me_move E P e e'"
| mv_quiet: "me_core e' = (me_governor e, cs_step op (me_custody e), me_records e, me_storage e)
    \<Longrightarrow> quiet P (me_custody e) op \<Longrightarrow> me_move E P e e'"
| mv_deposit: "judge cand (me_custody e) = (Inr a, s) \<Longrightarrow> P (ac_id a)
    \<Longrightarrow> me_core e' = (me_governor e, s, r, me_storage e)
    \<Longrightarrow> (healthy_host E \<and> me_storage e \<longrightarrow>
          r = with_record E (map_of (cs_entries s) (ac_id a)) (without_records E (ac_evicted a) (me_records e)))
    \<Longrightarrow> me_move E P e e'"
| mv_gone: "me_core e' = (me_governor e, cs_step op (me_custody e), r, me_storage e)
    \<Longrightarrow> cs_entries (cs_step op (me_custody e)) = filter (\<lambda>p. fst p \<notin> set mids) (cs_entries (me_custody e))
    \<Longrightarrow> (healthy_host E \<and> me_storage e \<longrightarrow> r = without_records E mids (me_records e))
    \<Longrightarrow> me_move E P e e'"
| mv_erase: "me_core e' = (drop_held (me_governor e), snd (cs_erase (me_custody e)), r, me_storage e)
    \<Longrightarrow> (healthy_host E \<and> me_storage e \<longrightarrow> (\<exists>keys. r = fold hm_remove keys (without_records E (map fst (cs_entries (me_custody e))) (me_records e))))
    \<Longrightarrow> me_move E P e e'"

abbreviation me_path :: "('v, 'w) engine_env \<Rightarrow> (message_id \<Rightarrow> bool) \<Rightarrow> mesh_engine \<Rightarrow> mesh_engine \<Rightarrow> bool" where
  "me_path E P \<equiv> (me_move E P)\<^sup>*\<^sup>*"

definition queue_within :: "(message_id \<Rightarrow> bool) \<Rightarrow> mesh_engine \<Rightarrow> bool" where
  "queue_within P e \<longleftrightarrow> (\<forall>i\<in>queue_ids (me_governor e). P i)"

lemma move_queue: "me_move E P e e' \<Longrightarrow> queue_within P e \<Longrightarrow> queue_within P e'"
proof (induction rule: me_move.induct)
  case (mv_governor e' op e)
  have "queue_ids (me_governor e') \<subseteq> queue_ids (me_governor e) \<union> op_ids op"
    using queue_ids_step mv_governor(1) by (simp add: me_core_def)
  then show ?case using mv_governor(2,3) by (auto simp: queue_within_def)
next
  case (mv_erase e' e r)
  then show ?case by (auto simp: me_core_def queue_within_def queue_ids_def drop_held_def)
qed (simp_all add: me_core_def queue_within_def)

lemma path_queue: "me_path E P e e' \<Longrightarrow> queue_within P e \<Longrightarrow> queue_within P e'"
  by (induction rule: rtranclp_induct) (blast intro: move_queue)+

lemma moveI: "me_move E P e e' \<Longrightarrow> me_path E P e e'" by blast

lemma path_aside: "me_core e' = me_core e \<Longrightarrow> me_path E P e e'"
  by (blast intro: mv_aside)

lemma path_trans: "me_path E P e1 e2 \<Longrightarrow> me_path E P e2 e3 \<Longrightarrow> me_path E P e1 e3"
  by simp

lemma path_fold:
  assumes "\<And>x e. x \<in> set xs \<Longrightarrow> queue_within P e \<Longrightarrow> me_path E P e (f x e)" "queue_within P e"
  shows "me_path E P e (fold f xs e)"
  using assms
proof (induction xs arbitrary: e)
  case (Cons x xs)
  have "me_path E P e (f x e)" by (rule Cons.prems(1)) (use Cons.prems in simp_all)
  moreover from path_queue[OF this Cons.prems(2)] have "me_path E P (f x e) (fold f xs (f x e))"
    by (intro Cons.IH) (use Cons.prems(1) in auto)
  ultimately show ?case by simp
qed simp

subsection \<open>Every operation is a path\<close>

lemma core_next_read [simp]: "me_core (next_read e) = me_core e"
  and core_governor [simp]: "me_core (set_governor g e) = (g, me_custody e, me_records e, me_storage e)"
  and core_custody [simp]: "me_core (set_custody s e) = (me_governor e, s, me_records e, me_storage e)"
  and core_map_custody [simp]: "me_core (map_custody f e) = (me_governor e, f (me_custody e), me_records e, me_storage e)"
  by (simp_all add: me_core_def next_read_def set_governor_def set_custody_def map_custody_def)

lemma engine_fields [simp]:
  "me_governor (next_read e) = me_governor e" "me_custody (next_read e) = me_custody e" "me_records (next_read e) = me_records e"
  "me_storage (next_read e) = me_storage e" "me_peers (next_read e) = me_peers e" "me_config (next_read e) = me_config e"
  "me_links (next_read e) = me_links e" "me_lamport (next_read e) = me_lamport e"
  "me_governor (set_governor g e) = g" "me_custody (set_governor g e) = me_custody e" "me_records (set_governor g e) = me_records e"
  "me_storage (set_governor g e) = me_storage e" "me_peers (set_governor g e) = me_peers e" "me_config (set_governor g e) = me_config e"
  "me_links (set_governor g e) = me_links e"
  "me_governor (set_custody s e) = me_governor e" "me_custody (set_custody s e) = s" "me_records (set_custody s e) = me_records e"
  "me_storage (set_custody s e) = me_storage e" "me_peers (set_custody s e) = me_peers e" "me_config (set_custody s e) = me_config e"
  "me_governor (map_custody f e) = me_governor e" "me_custody (map_custody f e) = f (me_custody e)" "me_records (map_custody f e) = me_records e"
  "me_storage (map_custody f e) = me_storage e"
  by (simp_all add: next_read_def set_governor_def set_custody_def map_custody_def)

lemma battery_core [simp]: "me_core (snd (battery_allows_relaying E e)) = me_core e"
  by (simp add: battery_allows_relaying_def split: prod.split)

lemma create_message_core: "me_core (snd (create_message E recipient content priority e)) = me_core e"
proof -
  have "me_core (persist_lamport_clock E e') = me_core e'" for e'
    by (simp add: persist_lamport_clock_def write_lamport_clock_to_storage_def me_core_def next_read_def)
  from this[of "e\<lparr>me_lamport := Lamport_tick (me_lamport e)\<rparr>"] show ?thesis
    by (auto simp: create_message_def create_message_for_app_def Let_def me_core_def split: sum.split)
qed

lemma path_receipt_counter:
  "me_path E P e (map_custody record_receipt_sent e)" "me_path E P e (map_custody record_receipt_dropped e)"
  "me_path E P e (map_custody record_receipt_received e)" "me_path E P e (map_custody record_receipt_ignored e)"
  by (rule moveI, rule mv_quiet[where op = CsReceiptSent], simp_all)
     (rule moveI, rule mv_quiet[where op = CsReceiptDropped], simp_all,
      rule moveI, rule mv_quiet[where op = CsReceiptReceived], simp_all,
      rule moveI, rule mv_quiet[where op = CsReceiptIgnored], simp_all)

lemma path_handled: "me_path E P e (relay_mark_handled E mid e)"
  by (rule moveI, rule mv_governor[where op = "MrHandled (ee_clock E (me_reads e)) (ee_clock E (me_reads e + 1)) (ee_idstr E mid)"])
     (simp_all add: relay_mark_handled_def Let_def me_core_def set_governor_def)

lemma path_links: "me_path E P e (e\<lparr>me_links := l\<rparr>)"
  by (rule path_aside) (simp add: me_core_def)

lemma path_put: "me_path E P e (put_on_arrival_link E depositor m e)"
proof -
  define e0 where "e0 = e\<lparr>me_marked_local := me_marked_local e @ [msg_id m]\<rparr>"
  define e1 where "e1 = relay_mark_handled E (msg_id m) e0"
  obtain r l where r: "send_to_neighbor depositor m (me_links e1) = (r, l)" by fastforce
  have "me_path E P e e0" unfolding e0_def by (rule path_aside) (simp add: me_core_def)
  moreover have "me_path E P e0 e1" unfolding e1_def by (rule path_handled)
  moreover have "me_path E P e1 (e1\<lparr>me_links := l\<rparr>)" by (rule path_links)
  ultimately have "me_path E P e (e1\<lparr>me_links := l\<rparr>)" by (blast intro: path_trans)
  then show ?thesis using path_receipt_counter(1,2)[of E P "e1\<lparr>me_links := l\<rparr>"] r
    by (cases r) (auto simp: put_on_arrival_link_def Let_def e0_def[symmetric] e1_def[symmetric] intro: path_trans)
qed

lemma path_send_receipt: "me_path E P e (send_custody_receipt E depositor mid e)"
proof -
  obtain r e1 where r: "create_message E depositor (encode_receipt (ee_receipt_json E) (ee_idstr E mid)
      (cc_hold_ms (cs_config (me_custody e)))) Low e = (r, e1)" by fastforce
  have e1: "me_path E P e e1" using create_message_core[of E] r by (metis path_aside snd_conv)
  note go = path_receipt_counter(2)[of E P e] path_trans[OF e1 path_receipt_counter(2)] path_trans[OF e1 path_put]
  show ?thesis
    by (cases r; cases "sign_control_message E ((projr r)\<lparr>msg_requires_ack := False\<rparr>) e1")
       (simp_all add: send_custody_receipt_def r go)
qed

lemma delete_record_core:
  "me_core (delete_custody_record_by_key E key e) =
     (me_governor e, me_custody e, me_records (delete_custody_record_by_key E key e), me_storage e)"
  "healthy_host E \<Longrightarrow> me_storage e \<Longrightarrow> me_records (delete_custody_record_by_key E key e) = hm_remove key (me_records e)"
  by (auto simp: delete_custody_record_by_key_def me_core_def next_read_def healthy_host_def)

lemma delete_fields [simp]:
  "me_governor (delete_custody_record E i e) = me_governor e" "me_custody (delete_custody_record E i e) = me_custody e"
  "me_storage (delete_custody_record E i e) = me_storage e"
  "me_governor (delete_custody_record_by_key E k e) = me_governor e" "me_custody (delete_custody_record_by_key E k e) = me_custody e"
  "me_storage (delete_custody_record_by_key E k e) = me_storage e"
  by (auto simp: delete_custody_record_def delete_custody_record_by_key_def)

lemma delete_records_core:
  "me_governor (fold (delete_custody_record E) mids e) = me_governor e"
  "me_custody (fold (delete_custody_record E) mids e) = me_custody e"
  "me_storage (fold (delete_custody_record E) mids e) = me_storage e"
  "healthy_host E \<Longrightarrow> me_storage e \<Longrightarrow> me_records (fold (delete_custody_record E) mids e) = without_records E mids (me_records e)"
  by (induction mids arbitrary: e) (auto simp: without_records_def delete_custody_record_def delete_record_core(2))

lemma persist_fields [simp]:
  "me_governor (persist_custody_record E h e) = me_governor e" "me_custody (persist_custody_record E h e) = me_custody e"
  "me_storage (persist_custody_record E h e) = me_storage e"
  by (auto simp: persist_custody_record_def)

lemma persist_records:
  "healthy_host E \<Longrightarrow> me_storage e \<Longrightarrow>
     me_records (persist_custody_record E h e) = hm_insert (ee_idstr E (msg_id (hf_message h))) (record_of h) (me_records e)"
  by (simp add: persist_custody_record_def healthy_host_def next_read_def)

lemma path_gone:
  assumes "cs_entries (cs_step op (me_custody e)) = filter (\<lambda>p. fst p \<notin> set mids) (cs_entries (me_custody e))"
  shows "me_path E P e (fold (delete_custody_record E) mids (set_custody (cs_step op (me_custody e)) e))"
proof -
  let ?e = "fold (delete_custody_record E) mids (set_custody (cs_step op (me_custody e)) e)"
  have "healthy_host E \<and> me_storage e \<longrightarrow> me_records ?e = without_records E mids (me_records e)"
    using delete_records_core(4)[of E "set_custody (cs_step op (me_custody e)) e"] by simp
  then show ?thesis
    by (intro moveI mv_gone[where op = op and mids = mids and r = "me_records ?e"])
       (simp_all add: assms me_core_def delete_records_core)
qed

lemma path_settle_deposit:
  assumes "judge cand (me_custody e) = (Inr a, s)" "P (ac_id a)"
  shows "me_path E P e (settle_deposit E a (set_custody s (next_read e)))"
proof -
  define e1 where "e1 = fold (delete_custody_record E) (ac_evicted a) (set_custody s (next_read e))"
  define e2 where "e2 = (case map_of (cs_entries (me_custody e1)) (ac_id a) of Some held \<Rightarrow> persist_custody_record E held e1 | None \<Rightarrow> e1)"
  have e1: "me_governor e1 = me_governor e" "me_custody e1 = s" "me_storage e1 = me_storage e"
    "healthy_host E \<Longrightarrow> me_storage e \<Longrightarrow> me_records e1 = without_records E (ac_evicted a) (me_records e)"
    unfolding e1_def by (simp_all add: delete_records_core)
  have "me_core e2 = (me_governor e, s, me_records e2, me_storage e)"
    unfolding e2_def using e1 by (simp add: me_core_def split: option.split)
  moreover have "healthy_host E \<and> me_storage e \<longrightarrow>
      me_records e2 = with_record E (map_of (cs_entries s) (ac_id a)) (without_records E (ac_evicted a) (me_records e))"
    unfolding e2_def using e1 by (auto simp: with_record_def persist_records split: option.split)
  ultimately have "me_path E P e e2" using assms by (intro moveI mv_deposit[where cand = cand and a = a and s = s])
  then show ?thesis using path_send_receipt[of E P e2] unfolding settle_deposit_def Let_def e1_def[symmetric] e2_def[symmetric]
    by (rule path_trans)
qed

lemma accepted_id: "judge cand s = (Inr a, s') \<Longrightarrow> ac_id a = msg_id (ca_message cand)"
  by (auto simp: judge_def apply_budgets_def apply_store_budget_def Let_def split: sum.splits prod.splits if_splits option.splits)

lemma path_return: "P (relay_id relay) \<Longrightarrow> me_path E P e (return_held_to_store relay e)"
  by (rule moveI, rule mv_quiet[where op = "CsReturned (relay_id relay)"]) (simp_all add: return_held_to_store_def)

lemma path_judge:
  assumes "P (relay_id relay)"
  shows "me_path E P e (judge_at_drop_point E relay e)"
proof (cases "pr_custody_target relay")
  case None
  obtain ok e1 where b: "deposit_battery_ok E relay e = (ok, e1)" by fastforce
  have "me_core (snd (deposit_battery_ok E relay e)) = me_core e" by (simp add: deposit_battery_ok_def)
  then have e1: "me_path E P e e1" using b by (simp add: path_aside)
  let ?cand = "deposit_candidate relay ok (ee_wall E (me_reads e1)) e1"
  obtain v s where v: "judge ?cand (me_custody e1) = (v, s)" by fastforce
  show ?thesis
  proof (cases v)
    case (Inl r)
    have "me_path E P e1 (set_custody s (next_read e1))"
      by (rule moveI, rule mv_quiet[where op = "CsJudge ?cand"]) (simp_all add: v Inl)
    then show ?thesis using path_trans[OF e1] None b v Inl by (simp add: judge_at_drop_point_def)
  next
    case (Inr a)
    have "P (ac_id a)" using accepted_id[OF v[unfolded Inr]] assms by (simp add: deposit_candidate_def)
    then have "me_path E P e1 (settle_deposit E a (set_custody s (next_read e1)))"
      using v Inr by (intro path_settle_deposit) simp_all
    then show ?thesis using path_trans[OF e1] None b v Inr by (simp add: judge_at_drop_point_def)
  qed
qed (use assms in \<open>simp add: judge_at_drop_point_def path_return\<close>)

lemma path_transmission:
  assumes "P (relay_id relay)"
  shows "me_path E P e (record_custody_transmission E relay reached e)"
proof (cases reached)
  case True
  let ?i = "relay_id relay"
  obtain r s where d: "record_delivered ?i (me_custody e) = (r, s)" by fastforce
  show ?thesis
  proof (cases r)
    case None
    then have "s = me_custody e" using d by (auto simp: record_delivered_def remove_inner_def split: option.splits prod.splits)
    then show ?thesis using True d None by (auto simp: record_custody_transmission_def me_core_def intro!: path_aside)
  next
    case (Some h)
    have "cs_entries s = hm_remove ?i (cs_entries (me_custody e))"
      using d Some remove_inner_parts[of ?i "me_custody e"]
      by (auto simp: record_delivered_def split: option.splits prod.splits)
    then have "cs_entries (cs_step (CsDelivered ?i) (me_custody e)) = filter (\<lambda>p. fst p \<notin> set [?i]) (cs_entries (me_custody e))"
      using d by (simp add: hm_remove_def)
    from path_gone[OF this, of E P] show ?thesis using True d Some by (simp add: record_custody_transmission_def Let_def)
  qed
next
  case False
  have "me_path E P e (map_custody (record_re_originated (relay_id relay)) e)"
    by (rule moveI, rule mv_quiet[where op = "CsReOriginated (relay_id relay)"]) (simp_all add: assms)
  then show ?thesis using False by (simp add: record_custody_transmission_def Let_def)
qed

lemma path_targets: "me_path E P e (snd (snd (send_to_targets E m direct targets e)))"
proof (induction targets arbitrary: e)
  case (Cons t ts)
  obtain ok g where tok: "take_send_token (ee_clock E (me_reads e)) (me_governor e) = (ok, g)" by fastforce
  let ?e = "set_governor g (next_read e)"
  have tk: "me_path E P e ?e"
    by (rule moveI, rule mv_governor[where op = "MrSend (ee_clock E (me_reads e))"]) (simp_all add: tok)
  show ?case
  proof (cases ok)
    case True
    obtain r l where r: "send_to_neighbor t m (me_links e) = (r, l)" by fastforce
    have l: "me_path E P e (?e\<lparr>me_links := l\<rparr>)" by (rule path_trans[OF tk path_links])
    show ?thesis using path_trans[OF l Cons.IH] l True tok r
      by (cases r) (simp_all add: Let_def split_beta)
  qed (use tok tk in simp)
qed simp

lemma path_hand_back:
  assumes "P (relay_id relay)"
  shows "me_path E P e (hand_back E relay e)"
proof -
  obtain r g where q: "requeue (ee_idstr E) relay (me_governor e) = (r, g)" by fastforce
  have g: "me_path E P e (set_governor g e)"
    by (rule moveI, rule mv_governor[where op = "MrRequeue relay"]) (simp_all add: q assms)
  show ?thesis
  proof (cases r)
    case (Some kept)
    then have "kept = relay" using q by (auto simp: requeue_def split: if_splits)
    then show ?thesis using path_trans[OF g path_return] assms q Some by (simp add: hand_back_def)
  qed (use q g in \<open>simp add: hand_back_def\<close>)
qed

lemma path_settle_forward:
  assumes "P (relay_id relay)"
  shows "me_path E P e (settle_forward E relay reached e)"
proof -
  define e1 where "e1 = (if pr_custody_target relay \<noteq> None then record_custody_transmission E relay reached e else e)"
  have "me_path E P e e1" by (auto simp: e1_def intro!: path_transmission assms)
  moreover have "me_path E P e1 (set_governor (record_forwarded (me_governor e1)) e1)"
    by (rule moveI, rule mv_governor[where op = MrForwarded]) simp_all
  moreover have "me_path E P e' (e'\<lparr>me_events := v\<rparr>)" for e' v by (rule path_aside) (simp add: me_core_def)
  ultimately show ?thesis unfolding settle_forward_def Let_def e1_def[symmetric] by (meson path_trans)
qed

lemma path_forward:
  assumes "P (relay_id relay)"
  shows "me_path E P e (forward_due E neighbors relay e)"
proof -
  define targets where "targets = relay_targets E neighbors relay (me_governor e)"
  define direct where "direct = (case targets of target # _ \<Rightarrow> target = msg_recipient (pr_message relay) | [] \<Rightarrow> False)"
  obtain n reached e1 where t: "send_to_targets E (pr_message relay) direct targets e = (n, reached, e1)" by (metis surj_pair)
  have e1: "me_path E P e e1" using path_targets[of E P e "pr_message relay" direct targets] t by simp
  have cov: "me_path E P e (set_governor (drop_covered relay (me_governor e)) e)"
    by (rule moveI, rule mv_governor[where op = "MrDropCovered relay"]) simp_all
  show ?thesis
    using cov path_trans[OF e1 path_hand_back[of P relay, OF assms]] path_trans[OF e1 path_settle_forward[of P relay, OF assms]]
    unfolding forward_due_def Let_def targets_def[symmetric] direct_def[symmetric] t by simp
qed

lemma path_flush:
  assumes "queue_within P e"
  shows "me_path E P e (flush_mesh_relays_at E now e)"
proof -
  obtain due abandoned g where r: "release_due (ee_idstr E) now (me_governor e) = ((due, abandoned), g)" by (metis surj_pair)
  note members = release_due_members[OF r]
  have P: "P (relay_id x)" if "x \<in> set due \<union> set abandoned" for x
    using that members assms by (auto simp: queue_within_def queue_ids_def)
  have g: "me_path E P e (set_governor g e)"
    by (rule moveI, rule mv_governor[where op = "MrRelease now"]) (simp_all add: r)
  define e1 where "e1 = fold (judge_at_drop_point E) abandoned (set_governor g e)"
  have "me_path E P (set_governor g e) e1" unfolding e1_def
    by (rule path_fold) (use P path_queue[OF g assms] in \<open>auto intro!: path_judge\<close>)
  then have e1: "me_path E P e e1" by (rule path_trans[OF g])
  have "me_path E P e1 (fold (forward_due E (mesh_neighbors (me_links e1))) due e1)"
    by (rule path_fold) (use P path_queue[OF e1 assms] in \<open>auto intro!: path_forward\<close>)
  then show ?thesis using e1 path_trans[OF e1] unfolding flush_mesh_relays_at_def r by (simp add: e1_def[symmetric] Let_def)
qed

lemma path_sweep: "me_path E P e (sweep_custody E e)"
proof -
  have sweep: "me_path E P e (sweep_custody_now E now_ms e)" for e now_ms
  proof -
    define e1 where "e1 = e\<lparr>me_receipts := prune_receipts now_ms (me_receipts e)\<rparr>"
    let ?hold = "cc_hold_ms (cs_config (me_custody e1))"
    obtain ex s where x: "cs_expire now_ms ?hold (me_custody e1) = (ex, s)" by fastforce
    have e1: "me_path E P e e1" unfolding e1_def by (rule path_aside) (simp add: me_core_def)
    have "cs_entries (cs_step (CsExpire now_ms ?hold) (me_custody e1)) = filter (\<lambda>p. fst p \<notin> set ex) (cs_entries (me_custody e1))"
      using x expire_fold_entries[of ex "me_custody e1"] by (auto simp: cs_expire_def Let_def)
    from path_trans[OF e1 path_gone[OF this]] show ?thesis
      using e1 unfolding sweep_custody_now_def Let_def e1_def[symmetric] x by (simp add: x)
  qed
  have "me_path E P e (next_read e)" "me_path E P e (next_read ((next_read e)\<lparr>me_last_sweep := t\<rparr>))" for t
    by (rule path_aside, simp add: me_core_def next_read_def)+
  then show ?thesis using path_trans[OF _ sweep] by (auto simp: sweep_custody_def Let_def)
qed

lemma path_tick:
  assumes "queue_within P e"
  shows "me_path E P e (process_mesh E e)"
proof -
  have n: "me_path E P e (next_read e)" by (rule path_aside) simp
  have "me_path E P e (flush_mesh_relays E e)"
    unfolding flush_mesh_relays_def by (rule path_trans[OF n path_flush[OF path_queue[OF n assms]]])
  then show ?thesis unfolding process_mesh_def by (rule path_trans[OF _ path_sweep])
qed

lemma path_relay:
  assumes "P (msg_id m)"
  shows "me_path E P e (try_relay_message E m peer e)"
proof -
  obtain ab g where a: "absorb_settled_duplicate (ee_idstr E) (ee_clock E (me_reads e)) m peer (me_governor e) = (ab, g)" by fastforce
  define e1 where "e1 = set_governor g (next_read e)"
  have e1: "me_path E P e e1" unfolding e1_def
    by (rule moveI, rule mv_governor[where op = "MrAbsorb (ee_clock E (me_reads e)) m peer"]) (simp_all add: a)
  obtain ok e2 where b: "battery_allows_relaying E e1 = (ok, e2)" by fastforce
  have e2: "me_path E P e e2" by (rule path_trans[OF e1 path_aside]) (use battery_core[of E e1] b in simp)
  have "me_path E P e2 (relay_admit E m peer e2)"
    by (rule moveI, rule mv_governor[where op = "MrAdmit (ee_clock E (me_reads e2)) (ee_clock E (me_reads e2 + 1)) (ee_clock E (me_reads e2 + 2))
          (ee_clock E (me_reads e2 + 3)) m peer (length (mesh_neighbors (me_links e2)))"])
       (simp_all add: relay_admit_def Let_def assms me_core_def set_governor_def)
  from path_trans[OF e2 this] show ?thesis using e1 e2
    unfolding try_relay_message_def a Let_def prod.case e1_def[symmetric] b by (simp split: bool.split)
qed

lemma path_inbound: "P (msg_id m) \<Longrightarrow> me_path E P e (snd (route_inbound E m e))"
  by (simp add: route_inbound_def path_relay)

lemma path_receipt: "me_path E P e (handle_custody_receipt E custodian body minted e)"
proof -
  have "me_path E P e (record_custodian mid custodian u (next_read e))" for mid u
    by (rule path_aside) (simp add: record_custodian_def Let_def me_core_def next_read_def)
  from path_trans[OF this path_receipt_counter(3)] show ?thesis
    using path_receipt_counter(4) by (auto simp: handle_custody_receipt_def Let_def split: sum.split option.split)
qed

lemma suppressed_core: "me_core (snd (custody_suppressed_toward E mid custodian e)) = me_core e"
  by (auto simp: custody_suppressed_toward_def split: option.split)

lemma deposit_frame_core: "me_core (snd (deposit_frame E m class target e)) = me_core e"
  using suppressed_core[of E "msg_id m" target e]
  by (auto simp: deposit_frame_def split: option.split prod.split bool.split)

lemma path_offer_loop: "me_path E P e (snd (offer_loop E m cl targets e))"
proof (induction targets arbitrary: e)
  case (Cons t ts)
  obtain ok g where tok: "take_own_send_token (ee_clock E (me_reads e)) (me_governor e) = (ok, g)" by fastforce
  have tk: "me_path E P e (set_governor g (next_read e))"
    by (rule moveI, rule mv_governor[where op = "MrOwnSend (ee_clock E (me_reads e))"]) (simp_all add: tok)
  obtain f e1 where f: "deposit_frame E m cl t (set_governor g (next_read e)) = (f, e1)" by fastforce
  obtain r l where r: "send_to_neighbor t f (me_links e1) = (r, l)" by fastforce
  have "me_path E P (set_governor g (next_read e)) e1"
    by (rule path_aside) (use deposit_frame_core[of E m cl t "set_governor g (next_read e)"] f in simp)
  then have e1: "me_path E P e (e1\<lparr>me_links := l\<rparr>)" using path_trans[OF tk] path_trans[OF _ path_links] by blast
  show ?case using path_trans[OF e1 Cons.IH] tk tok f r
    by (cases ok; cases r) (simp_all add: split_beta)
qed simp

lemma path_offer: "me_path E P e (snd (offer_to_mesh E m e))"
  unfolding offer_to_mesh_def Let_def by (auto intro: path_trans[OF path_handled path_offer_loop])

lemma path_redeliver_loop:
  assumes "\<And>mid held. mid \<in> set mids \<Longrightarrow> map_of (cs_entries (me_custody e)) mid = Some held \<Longrightarrow> P mid \<and> P (msg_id (hf_message held))"
  shows "me_path E P e (redeliver_loop E peer now mids e)"
  using assms
proof (induction mids arbitrary: e)
  case (Cons mid mids)
  show ?case
  proof (cases "map_of (cs_entries (me_custody e)) mid")
    case None
    have "me_path E P e (redeliver_loop E peer now mids e)" by (rule Cons.IH) (use Cons.prems in auto)
    then show ?thesis using None by simp
  next
    case (Some held)
    have P: "P mid" "P (msg_id (hf_message held))" using Cons.prems[of mid held] Some by simp_all
    obtain r g where r: "admit_held (ee_idstr E) (hf_message held) peer now (me_governor e) = (r, g)" by fastforce
    have g: "me_path E P e (set_governor g e)"
      by (rule moveI, rule mv_governor[where op = "MrAdmitHeld (hf_message held) peer now"]) (simp_all add: r P(2))
    show ?thesis
    proof (cases r)
      case (Inl x)
      have "me_path E P e (redeliver_loop E peer now mids (set_governor g e))"
        by (rule path_trans[OF g Cons.IH]) (use Cons.prems in auto)
      then show ?thesis using Some r Inl g by (cases x) simp_all
    next
      case (Inr u)
      let ?e = "map_custody (mark_queued mid peer) (set_governor g e)"
      have q: "me_path E P (set_governor g e) ?e"
        by (rule moveI, rule mv_quiet[where op = "CsQueued mid peer"]) (simp_all add: P(1))
      have "me_path E P ?e (redeliver_loop E peer now mids ?e)"
      proof (rule Cons.IH)
        fix i h
        assume i: "i \<in> set mids" and h: "map_of (cs_entries (me_custody ?e)) i = Some h"
        obtain h0 where "map_of (cs_entries (me_custody e)) i = Some h0" "hf_message h = hf_message h0"
          using h by (auto simp: mark_queued_def update_held_get split: if_splits)
        then show "P i \<and> P (msg_id (hf_message h))" using Cons.prems[of i h0] i by simp
      qed
      then show ?thesis using path_trans[OF path_trans[OF g q]] Some r Inr by simp
    qed
  qed
qed simp

lemma path_redeliver:
  assumes "cs_books (me_custody e)" "\<And>mid. mid \<in> set (candidates_for peer (me_custody e)) \<Longrightarrow> P mid"
  shows "me_path E P e (redeliver_custody_to E peer e)"
proof -
  obtain ok e1 where b: "battery_allows_relaying E e = (ok, e1)" by fastforce
  have c: "me_core e1 = me_core e" using battery_core[of E e] b by simp
  then have cu: "me_custody e1 = me_custody e" by (simp add: me_core_def)
  have e1: "me_path E P e e1" "me_path E P e (next_read e1)" using c by (simp_all add: path_aside)
  have "me_path E P (next_read e1) (redeliver_loop E peer now (candidates_for peer (me_custody e1)) (next_read e1))" for now
  proof (rule path_redeliver_loop)
    fix mid held
    assume m: "mid \<in> set (candidates_for peer (me_custody e1))" "map_of (cs_entries (me_custody (next_read e1))) mid = Some held"
    have "msg_id (hf_message held) = mid" using m(2) assms(1) keyed_by_id_get by (auto simp: cu cs_books_def)
    then show "P mid \<and> P (msg_id (hf_message held))" using m(1) assms(2) by (simp add: cu)
  qed
  from path_trans[OF e1(2) this] show ?thesis using e1(1) by (simp add: redeliver_custody_to_def b split: bool.split)
qed

lemma delete_all_core:
  "me_governor (snd (delete_all E keys e)) = me_governor e" "me_custody (snd (delete_all E keys e)) = me_custody e"
  "me_storage (snd (delete_all E keys e)) = me_storage e"
  "healthy_host E \<Longrightarrow> me_storage e \<Longrightarrow> me_records (snd (delete_all E keys e)) = fold hm_remove keys (me_records e)"
  by (induction keys arbitrary: e) (auto simp: split_beta delete_record_core(2))

lemma path_erase: "me_path E P e (snd (erase_custody E e))"
proof -
  obtain mids s where er: "cs_erase (me_custody e) = (mids, s)" by fastforce
  have mids: "mids = map fst (cs_entries (me_custody e))" using er by (auto simp: cs_erase_def)
  define e1 where "e1 = (set_governor (drop_held (me_governor e)) (set_custody s e))\<lparr>me_receipts := []\<rparr>"
  have e1: "me_governor e1 = drop_held (me_governor e)" "me_custody e1 = s" "me_records e1 = me_records e" "me_storage e1 = me_storage e"
    by (simp_all add: e1_def)
  define e2 where "e2 = snd (delete_all E (map (ee_idstr E) mids) e1)"
  define e3 where "e3 = snd (delete_all E (map fst (me_records e2)) (next_read e2))"
  have removed: "fold hm_remove (map (ee_idstr E) mids) (me_records e) = without_records E mids (me_records e)"
    by (simp add: without_records_def fold_map o_def)
  have fin: "snd (erase_custody E e) \<in> {e1, e3, next_read e2} \<and> (snd (erase_custody E e) = e1 \<longrightarrow> \<not> me_storage e \<or> e1 = e3 \<or> e1 = next_read e2)"
    by (auto simp: erase_custody_def er Let_def e1_def[symmetric] e1 e2_def e3_def split: prod.splits list_outcome.splits)
  have core: "me_governor x = drop_held (me_governor e) \<and> me_custody x = s \<and> me_storage x = me_storage e" if "x \<in> {e1, e3, next_read e2}" for x
    using that e1 by (auto simp: e2_def e3_def delete_all_core)
  have e2r: "me_records e2 = without_records E mids (me_records e)" if "healthy_host E" "me_storage e"
    using that delete_all_core(4)[of E e1 "map (ee_idstr E) mids"] e1 by (simp add: e2_def removed)
  moreover have "me_records e3 = fold hm_remove (map fst (me_records e2)) (me_records e2)" if "healthy_host E" "me_storage e"
    using that delete_all_core(4)[of E "next_read e2"] core[of "next_read e2"] by (simp add: e3_def)
  ultimately have "healthy_host E \<and> me_storage e \<longrightarrow>
      (\<exists>keys. me_records (snd (erase_custody E e)) = fold hm_remove keys (without_records E (map fst (cs_entries (me_custody e))) (me_records e)))"
    using fin by (auto simp: mids intro: exI[of _ "[]"])
  moreover have "me_core (snd (erase_custody E e)) =
      (drop_held (me_governor e), snd (cs_erase (me_custody e)), me_records (snd (erase_custody E e)), me_storage e)"
    using core fin er by (auto simp: me_core_def)
  ultimately show ?thesis by (intro moveI mv_erase)
qed

text \<open>The operations that concern only frames of \<open>P\<close>.\<close>

fun op_within :: "(message_id \<Rightarrow> bool) \<Rightarrow> me_op \<Rightarrow> mesh_engine \<Rightarrow> bool" where
  "op_within P (MeInbound m) e = P (msg_id m)"
| "op_within P (MeDiscovered peer) e = (\<forall>mid\<in>set (candidates_for peer (me_custody e)). P mid)"
| "op_within P _ e = True"

lemma path_step:
  assumes "queue_within P e" "cs_books (me_custody e)" "op_within P op e"
  shows "me_path E P e (me_step E op e)"
proof (cases op)
  case (MeLost peer)
  have "me_path E P e (forget_neighbor peer e)"
    by (rule moveI, rule mv_governor[where op = "MrForgetPeer peer"]) (simp_all add: forget_neighbor_def)
  then show ?thesis using MeLost by simp
next
  case (MeConditions now battery charging eager soft)
  have "me_path E P e (set_governor (set_conditions now battery charging eager soft (me_governor e)) e)"
    by (rule moveI, rule mv_governor[where op = "MrConditions now battery charging eager soft"]) simp_all
  then show ?thesis using MeConditions by simp
next
  case (MeSettled mid)
  have "me_path E P e (settle_receipts mid e)" by (rule path_aside) (simp add: settle_receipts_def me_core_def)
  then show ?thesis using MeSettled by simp
next
  case (MeWorld facts links)
  have "me_path E P e (e\<lparr>me_peers := facts, me_links := links\<rparr>)" by (rule path_aside) (simp add: me_core_def)
  then show ?thesis using MeWorld by simp
qed (use assms in \<open>simp_all add: path_inbound path_tick path_redeliver path_receipt path_offer path_erase\<close>)

subsection \<open>The invariants of the parts\<close>

definition engine_ok :: "mesh_relay_config \<Rightarrow> custody_config \<Rightarrow> mesh_engine \<Rightarrow> bool" where
  "engine_ok mc c e \<longleftrightarrow> mg_inv mc (me_governor e) \<and> cs_inv c (me_custody e)"

lemma move_custody_inv:
  assumes "me_move E P e e'" "bytes_exact c" "cs_inv c (me_custody e)"
  shows "cs_inv c (me_custody e')"
  using assms
proof (cases rule: me_move.cases)
  case (mv_deposit cand a s r)
  then show ?thesis using judge_ok[OF assms(3,2), of cand] by (simp add: me_core_def)
qed (auto simp: me_core_def cs_step_ok cs_erase_ok)

lemma move_ok:
  assumes "me_move E P e e'" "mesh_config_ok mc" "bytes_exact c" "engine_ok mc c e"
  shows "engine_ok mc c e'"
proof -
  have "mg_inv mc (me_governor e')"
    using assms(1)
  proof (cases rule: me_move.cases)
    case (mv_erase r)
    then show ?thesis using drop_held_ok assms(4) by (simp add: me_core_def engine_ok_def)
  qed (use assms in \<open>auto simp: me_core_def engine_ok_def mr_step_ok\<close>)
  then show ?thesis using move_custody_inv[OF assms(1,3)] assms(4) by (simp add: engine_ok_def)
qed

lemma path_custody_inv: "me_path E P e e' \<Longrightarrow> bytes_exact c \<Longrightarrow> cs_inv c (me_custody e) \<Longrightarrow> cs_inv c (me_custody e')"
  by (induction rule: rtranclp_induct) (auto intro: move_custody_inv)

lemma path_ok: "me_path E P e e' \<Longrightarrow> mesh_config_ok mc \<Longrightarrow> bytes_exact c \<Longrightarrow> engine_ok mc c e \<Longrightarrow> engine_ok mc c e'"
  by (induction rule: rtranclp_induct) (auto intro: move_ok)

lemma path_step_any: "cs_books (me_custody e) \<Longrightarrow> me_path E (\<lambda>_. True) e (me_step E op e)"
  by (rule path_step) (cases op; simp add: queue_within_def)+

lemma step_ok:
  assumes "engine_ok mc c e" "mesh_config_ok mc" "bytes_exact c"
  shows "engine_ok mc c (me_step E op e)"
  using path_ok[OF path_step_any assms(2,3,1)] cs_inv_books assms(1) by (auto simp: engine_ok_def)

interpretation mem: machine "me_step E" "\<lambda>_ _. mesh_config_ok mc \<and> bytes_exact c" "engine_ok mc c" for E mc c
  by unfold_locales (simp add: step_ok)

subsection \<open>What the custody moves do to a held frame\<close>

lemma quiet_lookup:
  assumes "custody_ok lifetime c" "cs_inv c s" "quiet P s op" "map_of (cs_entries (cs_step op s)) i = Some h"
  obtains h0 where "map_of (cs_entries s) i = Some h0" "record_of h = record_of h0" "hf_bytes h = hf_bytes h0"
    "hf_message h = hf_message h0" "\<not> P i \<Longrightarrow> h = h0"
proof (cases op)
  case (CsJudge cand)
  obtain r s' where j: "judge cand s = (Inl r, s')" using assms(3) CsJudge by (cases "judge cand s") auto
  then have "cs_entries (cs_step op s) = cs_entries s"
    using refused_keeps[OF assms(1,2) j] CsJudge by (simp add: count_refusal_def)
  then show thesis using that assms(4) by simp
qed (use assms(3,4) in \<open>auto intro!: that simp: mark_queued_def returned_def record_re_originated_def update_held_get record_of_def Let_def
   record_receipt_sent_def record_receipt_dropped_def record_receipt_received_def record_receipt_ignored_def
   split: if_splits option.splits\<close>)

lemma quiet_dom:
  assumes "custody_ok lifetime c" "cs_inv c s" "quiet P s op"
  shows "map_of (cs_entries (cs_step op s)) i = None \<longleftrightarrow> map_of (cs_entries s) i = None"
proof (cases op)
  case (CsJudge cand)
  obtain r s' where j: "judge cand s = (Inl r, s')" using assms(3) CsJudge by (cases "judge cand s") auto
  then show ?thesis using refused_keeps[OF assms(1,2) j] CsJudge by (simp add: count_refusal_def)
qed (use assms(3) in \<open>simp_all add: mark_queued_def returned_def record_re_originated_def update_held_get Let_def
   record_receipt_sent_def record_receipt_dropped_def record_receipt_received_def record_receipt_ignored_def\<close>)

lemma deposit_lookup:
  assumes "cs_inv c s" "bytes_exact c" "judge cand s = (Inr a, s')"
  obtains h where "map_of (cs_entries s') (ac_id a) = Some h" "msg_id (hf_message h) = ac_id a" "hf_bytes h = frame_footprint (hf_message h)"
    "\<And>i. map_of (cs_entries s') i = (if i = ac_id a then Some h else if i \<in> set (ac_evicted a) then None else map_of (cs_entries s) i)"
proof (rule accepted_spec[OF assms])
  fix adm own rest others rest' h
  assume a: "a = \<lparr>ac_id = msg_id (ca_message cand), ac_depositor = adm_depositor adm, ac_class = adm_token adm, ac_evicted = own @ others\<rparr>"
    and h: "h = \<lparr>hf_message = ca_message cand, hf_depositor = adm_depositor adm, hf_accepted_at_ms = ca_now_ms cand,
          hf_class = adm_token adm, hf_bytes = frame_footprint (ca_message cand), hf_tried = {}, hf_in_flight = None\<rparr>"
    and e: "cs_entries s' = hm_insert (msg_id (ca_message cand)) h (filter (\<lambda>p. fst p \<notin> set (own @ others)) (cs_entries s))"
  have "map_of (cs_entries s') i = (if i = ac_id a then Some h else if i \<in> set (ac_evicted a) then None else map_of (cs_entries s) i)" for i
    by (simp add: e a filter_keys del: set_append)
  then show thesis by (intro that[of h]) (simp_all add: h a)
qed

subsection \<open>A frame whose forward was displaced\<close>

text \<open>The store takes the frame \<open>mid\<close>, if it holds it, to be on its way.\<close>

definition in_flight_if_held :: "message_id \<Rightarrow> mesh_engine \<Rightarrow> bool" where
  "in_flight_if_held mid e \<longleftrightarrow> (\<forall>h. map_of (cs_entries (me_custody e)) mid = Some h \<longrightarrow> hf_in_flight h \<noteq> None)"

lemma move_in_flight:
  assumes "me_move E (\<lambda>i. i \<noteq> mid) e e'" "custody_ok lifetime c" "cs_inv c (me_custody e)" "in_flight_if_held mid e"
  shows "in_flight_if_held mid e'"
  using assms(1)
proof (cases rule: me_move.cases)
  case (mv_quiet op)
  have c: "me_custody e' = cs_step op (me_custody e)" using mv_quiet(1) by (simp add: me_core_def)
  show ?thesis unfolding in_flight_if_held_def
  proof (intro allI impI)
    fix h
    assume "map_of (cs_entries (me_custody e')) mid = Some h"
    from quiet_lookup[OF assms(2,3) mv_quiet(2) this[unfolded c]] show "hf_in_flight h \<noteq> None"
      using assms(4) unfolding in_flight_if_held_def by metis
  qed
next
  case (mv_deposit cand a s r)
  have c: "me_custody e' = s" using mv_deposit(3) by (simp add: me_core_def)
  show ?thesis by (rule deposit_lookup[OF assms(3) custody_okD(5)[OF assms(2)] mv_deposit(1)])
    (use assms(4) mv_deposit(2) in \<open>auto simp: in_flight_if_held_def c split: if_splits\<close>)
next
  case (mv_gone op r mids)
  have "me_custody e' = cs_step op (me_custody e)" using mv_gone(1) by (simp add: me_core_def)
  then show ?thesis using mv_gone(2) assms(4) by (auto simp: in_flight_if_held_def filter_keys split: if_splits)
next
  case (mv_erase r)
  then show ?thesis by (auto simp: me_core_def in_flight_if_held_def cs_erase_def)
qed (use assms(4) in \<open>auto simp: me_core_def in_flight_if_held_def\<close>)

lemma path_in_flight:
  assumes "me_path E (\<lambda>i. i \<noteq> mid) e e'" "custody_ok lifetime c" "cs_inv c (me_custody e)" "in_flight_if_held mid e"
  shows "in_flight_if_held mid e'"
  using assms(1)
proof (induction rule: rtranclp_induct)
  case (step e1 e2)
  have "cs_inv c (me_custody e1)" by (rule path_custody_inv[OF step.hyps(1) custody_okD(5)[OF assms(2)] assms(3)])
  then show ?case by (rule move_in_flight[OF step.hyps(2) assms(2) _ step.IH])
qed (rule assms(4))

lemma not_candidate:
  assumes "cs_books (me_custody e)" "in_flight_if_held mid e"
  shows "mid \<notin> set (candidates_for peer (me_custody e))"
  using assms candidates_for_iff[OF assms(1)] by (auto simp: in_flight_if_held_def eligible_for_def)

definition stranded :: "custody_config \<Rightarrow> message_id \<Rightarrow> mesh_engine \<Rightarrow> bool" where
  "stranded c mid e \<longleftrightarrow> cs_inv c (me_custody e) \<and> in_flight_if_held mid e \<and> mid \<notin> queue_ids (me_governor e)"

lemma stranded_step:
  assumes "stranded c mid e" "custody_ok lifetime c" "\<forall>m. op = MeInbound m \<longrightarrow> msg_id m \<noteq> mid"
  shows "stranded c mid (me_step E op e)"
proof -
  have e: "cs_inv c (me_custody e)" "in_flight_if_held mid e" "queue_within (\<lambda>i. i \<noteq> mid) e"
    using assms(1) by (auto simp: stranded_def queue_within_def)
  note b = cs_inv_books[OF e(1)]
  have "op_within (\<lambda>i. i \<noteq> mid) op e" using assms(3) not_candidate[OF b e(2)] by (cases op) auto
  then have p: "me_path E (\<lambda>i. i \<noteq> mid) e (me_step E op e)" by (rule path_step[OF e(3) b])
  show ?thesis unfolding stranded_def
    using path_custody_inv[OF p custody_okD(5)[OF assms(2)] e(1)] path_in_flight[OF p assms(2) e(1,2)] path_queue[OF p e(3)]
    by (auto simp: queue_within_def)
qed

lemma stranded_run:
  assumes "stranded c mid e" "custody_ok lifetime c" "\<forall>m. MeInbound m \<in> set ops \<longrightarrow> msg_id m \<noteq> mid"
  shows "stranded c mid (fold (me_step E) ops e)"
  using assms
proof (induction ops arbitrary: e)
  case (Cons op ops)
  have "stranded c mid (me_step E op e)" by (rule stranded_step[OF Cons.prems(1,2)]) (use Cons.prems(3) in auto)
  then show ?case using Cons.IH Cons.prems(2,3) by simp
qed simp

subsection \<open>The durable records follow the store\<close>

text \<open>Every held frame has its record under its own key, there is no other record, and the size a frame is booked at
  is the one a restore computes.\<close>

definition mirrored :: "('v, 'w) engine_env \<Rightarrow> mesh_engine \<Rightarrow> bool" where
  "mirrored E e \<longleftrightarrow> hm_inv (me_records e)
     \<and> (\<forall>i. map_of (me_records e) (ee_idstr E i) = map_option record_of (map_of (cs_entries (me_custody e)) i))
     \<and> (\<forall>k. k \<notin> range (ee_idstr E) \<longrightarrow> map_of (me_records e) k = None)
     \<and> (\<forall>i h. map_of (cs_entries (me_custody e)) i = Some h \<longrightarrow> hf_bytes h = frame_footprint (hf_message h))"

lemma mirroredI:
  assumes "hm_inv r" "\<And>i. map_of r (ee_idstr E i) = map_option record_of (map_of (cs_entries s) i)"
    "\<And>k. k \<notin> range (ee_idstr E) \<Longrightarrow> map_of r k = None"
    "\<And>i h. map_of (cs_entries s) i = Some h \<Longrightarrow> hf_bytes h = frame_footprint (hf_message h)"
    "me_records e = r" "me_custody e = s"
  shows "mirrored E e"
  using assms by (simp add: mirrored_def)

lemma mirroredD:
  assumes "mirrored E e"
  shows "hm_inv (me_records e)" "map_of (me_records e) (ee_idstr E i) = map_option record_of (map_of (cs_entries (me_custody e)) i)"
    "k \<notin> range (ee_idstr E) \<Longrightarrow> map_of (me_records e) k = None"
    "map_of (cs_entries (me_custody e)) i = Some h \<Longrightarrow> hf_bytes h = frame_footprint (hf_message h)"
  using assms by (auto simp: mirrored_def)

lemma fold_remove_get: "map_of (fold hm_remove keys r) k = (if k \<in> set keys then None else map_of r k)"
  by (induction keys arbitrary: r) auto

lemma fold_remove_inv: "hm_inv r \<Longrightarrow> hm_inv (fold hm_remove keys r)"
  by (induction keys arbitrary: r) auto

lemma without_records_fold: "without_records E mids r = fold hm_remove (map (ee_idstr E) mids) r"
  by (simp add: without_records_def fold_map comp_def)

lemma without_records_get:
  "map_of (without_records E mids r) k = (if k \<in> ee_idstr E ` set mids then None else map_of r k)"
  by (simp add: without_records_fold fold_remove_get)

lemma without_records_inv: "hm_inv r \<Longrightarrow> hm_inv (without_records E mids r)"
  by (simp add: without_records_fold fold_remove_inv)

lemma quiet_record:
  assumes "custody_ok lifetime c" "cs_inv c s" "quiet P s op"
  shows "map_option record_of (map_of (cs_entries (cs_step op s)) i) = map_option record_of (map_of (cs_entries s) i)"
proof (cases "map_of (cs_entries (cs_step op s)) i")
  case None
  then show ?thesis using quiet_dom[OF assms, of i] by simp
next
  case (Some h)
  then show ?thesis by (rule quiet_lookup[OF assms]) (simp add: Some)
qed

lemma quiet_bytes:
  assumes "custody_ok lifetime c" "cs_inv c s" "quiet P s op" "map_of (cs_entries (cs_step op s)) i = Some h"
    "\<And>i h. map_of (cs_entries s) i = Some h \<Longrightarrow> hf_bytes h = frame_footprint (hf_message h)"
  shows "hf_bytes h = frame_footprint (hf_message h)"
  by (rule quiet_lookup[OF assms(1-4)]) (use assms(5) in auto)

lemma mirrored_deposit:
  assumes "mirrored E e" "inj (ee_idstr E)" "cs_inv c (me_custody e)" "bytes_exact c" "judge cand (me_custody e) = (Inr a, s)"
    "me_custody e' = s" "me_records e' = with_record E (map_of (cs_entries s) (ac_id a)) (without_records E (ac_evicted a) (me_records e))"
  shows "mirrored E e'"
proof (rule deposit_lookup[OF assms(3,4,5)])
  note m = mirroredD[OF assms(1)]
  fix h
  assume h: "map_of (cs_entries s) (ac_id a) = Some h" "msg_id (hf_message h) = ac_id a" "hf_bytes h = frame_footprint (hf_message h)"
    and get: "\<And>i. map_of (cs_entries s) i = (if i = ac_id a then Some h else if i \<in> set (ac_evicted a) then None else map_of (cs_entries (me_custody e)) i)"
  let ?r = "hm_insert (ee_idstr E (ac_id a)) (record_of h) (without_records E (ac_evicted a) (me_records e))"
  have r: "me_records e' = ?r" using assms(7) h(1,2) by (simp add: with_record_def)
  show ?thesis
  proof (rule mirroredI[OF _ _ _ _ r assms(6)])
    show "map_of ?r (ee_idstr E i) = map_option record_of (map_of (cs_entries s) i)" for i
      using inj_eq[OF assms(2)] inj_image_mem_iff[OF assms(2), of i "set (ac_evicted a)"] get[of i] m(2)[of i]
      by (simp add: without_records_get)
    show "hf_bytes h' = frame_footprint (hf_message h')" if "map_of (cs_entries s) i = Some h'" for i h'
      using that get[of i] h(3) m(4) by (auto split: if_splits)
  qed (use m(1,3) in \<open>auto simp: without_records_inv without_records_get\<close>)
qed

lemma mirrored_gone:
  assumes "mirrored E e" "inj (ee_idstr E)"
    "cs_entries (me_custody e') = filter (\<lambda>p. fst p \<notin> set mids) (cs_entries (me_custody e))"
    "me_records e' = without_records E mids (me_records e)"
  shows "mirrored E e'"
proof (rule mirroredI[OF _ _ _ _ assms(4) refl])
  note m = mirroredD[OF assms(1)]
  show "map_of (without_records E mids (me_records e)) (ee_idstr E i) = map_option record_of (map_of (cs_entries (me_custody e')) i)" for i
    using inj_image_mem_iff[OF assms(2), of i "set mids"] m(2)[of i] by (simp add: without_records_get filter_keys assms(3))
  show "hf_bytes h = frame_footprint (hf_message h)" if "map_of (cs_entries (me_custody e')) i = Some h" for i h
    using that m(4) by (auto simp: filter_keys assms(3) split: if_splits)
qed (use mirroredD[OF assms(1)] in \<open>auto simp: without_records_inv without_records_get\<close>)

lemma mirrored_erase:
  assumes "mirrored E e" "inj (ee_idstr E)" "cs_entries (me_custody e') = []"
    "me_records e' = fold hm_remove keys (without_records E (map fst (cs_entries (me_custody e))) (me_records e))"
  shows "mirrored E e'"
proof -
  note m = mirroredD[OF assms(1)]
  have "map_of (me_records e') k = None" for k
  proof (cases "k \<in> range (ee_idstr E)")
    case True
    then obtain i where k: "k = ee_idstr E i" by auto
    have "map_of (me_records e) k = None" if "k \<notin> ee_idstr E ` fst ` set (cs_entries (me_custody e))"
      using that m(2)[of i] k by (auto simp: map_of_eq_None_iff)
    then show ?thesis by (auto simp: assms(4) fold_remove_get without_records_get)
  qed (use m(3) in \<open>simp add: assms(4) fold_remove_get without_records_get\<close>)
  moreover have "hm_inv (me_records e')" using m(1) by (simp add: assms(4) fold_remove_inv without_records_inv)
  ultimately show ?thesis by (intro mirroredI[OF _ _ _ _ refl refl]) (simp_all add: assms(3))
qed

lemma move_mirrored:
  assumes "me_move E P e e'" "healthy_host E" "inj (ee_idstr E)" "custody_ok lifetime c" "cs_inv c (me_custody e)"
    "me_storage e" "mirrored E e"
  shows "me_storage e' \<and> mirrored E e'"
  using assms(1)
proof (cases rule: me_move.cases)
  case (mv_quiet op)
  have c: "me_custody e' = cs_step op (me_custody e)" "me_records e' = me_records e" "me_storage e'"
    using mv_quiet(1) assms(6) by (simp_all add: me_core_def)
  show ?thesis
    using mirroredD[OF assms(7)] c quiet_record[OF assms(4,5) mv_quiet(2)] quiet_bytes[OF assms(4,5) mv_quiet(2)]
    by (auto intro!: mirroredI[of "me_records e" E "cs_step op (me_custody e)"])
next
  case (mv_deposit cand a s r)
  then show ?thesis using mirrored_deposit[OF assms(7,3,5) custody_okD(5)[OF assms(4)] mv_deposit(1)] assms(2,6)
    by (simp add: me_core_def)
next
  case (mv_gone op r mids)
  then show ?thesis using mirrored_gone[OF assms(7,3), of e' mids] assms(2,6) by (simp add: me_core_def)
next
  case (mv_erase r)
  then show ?thesis using mirrored_erase[OF assms(7,3), of e'] assms(2,6) by (auto simp: me_core_def cs_erase_def)
qed (use assms(6,7) in \<open>auto simp: me_core_def mirrored_def\<close>)

lemma path_mirrored:
  assumes "me_path E P e e'" "healthy_host E" "inj (ee_idstr E)" "custody_ok lifetime c" "cs_inv c (me_custody e)"
    "me_storage e" "mirrored E e"
  shows "me_storage e' \<and> mirrored E e'"
  using assms(1)
proof (induction rule: rtranclp_induct)
  case (step e1 e2)
  have "cs_inv c (me_custody e1)" by (rule path_custody_inv[OF step.hyps(1) custody_okD(5)[OF assms(4)] assms(5)])
  then show ?case by (rule move_mirrored[OF step.hyps(2) assms(2,3,4)]) (use step.IH in auto)
qed (use assms(6,7) in simp)

definition launched :: "('v, 'w) engine_env \<Rightarrow> custody_config \<Rightarrow> mesh_engine \<Rightarrow> bool" where
  "launched E c e \<longleftrightarrow> cs_inv c (me_custody e) \<and> me_storage e \<and> mirrored E e"

lemma launched_run:
  assumes "launched E c e" "healthy_host E" "inj (ee_idstr E)" "custody_ok lifetime c"
  shows "launched E c (fold (me_step E) ops e)"
  using assms(1)
proof (induction ops arbitrary: e)
  case (Cons op ops)
  have l: "cs_inv c (me_custody e)" "me_storage e" "mirrored E e" using Cons.prems by (auto simp: launched_def)
  have p: "me_path E (\<lambda>_. True) e (me_step E op e)" by (rule path_step_any[OF cs_inv_books[OF l(1)]])
  have "launched E c (me_step E op e)"
    using path_mirrored[OF p assms(2,3,4) l] path_custody_inv[OF p custody_okD(5)[OF assms(4)] l(1)] by (simp add: launched_def)
  then show ?case using Cons.IH by simp
qed simp

subsection \<open>An engine to try things on\<close>

text \<open>A device called \<open>dave\<close> that relays, holds frames for others and is linked to \<open>bob\<close>; the store of the host never
  fails.  In the second engine a frame held for \<open>bob\<close> has been queued for redelivery, and a more urgent frame has
  then taken its place in the queue.\<close>

definition engine_env_example :: "(unit, unit) engine_env" where
  "engine_env_example = \<lparr>ee_clock = (\<lambda>_. 1000000000), ee_wall = (\<lambda>_. 9), ee_battery = (\<lambda>_. (Some 90, False)), ee_new_id = (\<lambda>_. [9]),
     ee_hash = (\<lambda>_. 0), ee_idstr = bytes_str, ee_id_from_str = (\<lambda>_. None),
     ee_receipt_json = \<lparr>rj_to_string = (\<lambda>_. []), rj_from_str = (\<lambda>_. None), rj_is_object = (\<lambda>_. False), rj_get_v = (\<lambda>_. None), rj_from_value = (\<lambda>_. None)\<rparr>,
     ee_sync_json = \<lparr>sj_from_str = (\<lambda>_. None), sj_get_v = (\<lambda>_. None), sj_kind = (\<lambda>_. None)\<rparr>,
     ee_public_key = None, ee_sign = (\<lambda>_. None), ee_base64 = (\<lambda>_. []), ee_persists = (\<lambda>_. True), ee_deletes = (\<lambda>_. True),
     ee_reads_record = (\<lambda>_. ReadOk), ee_lists = (\<lambda>_. ListOk)\<rparr>"

definition engine_example :: mesh_engine where
  "engine_example = \<lparr>me_config = \<lparr>ec_local_id = ''dave'', ec_app_id = ''chat'', ec_initial_ttl = 8, ec_allow_relay = True,
       ec_relay_priority = Always, ec_min_battery_for_relay = 20, ec_outbox_max_lifetime_ms = 86400000\<rparr>,
     me_peers = \<lparr>pf_confirmed_sessions = {}, pf_data_custody = {}, pf_ctrl_freshness = {}, pf_mls = False, pf_outbox = [], pf_pending_reseal = []\<rparr>,
     me_links = \<lparr>ml_wifi = None, ml_ble = Some (example_link ''bob''), ml_binary_wire = {}\<rparr>,
     me_governor = mg_with_config 0 ''dave'' mesh_relay_config_default, me_custody = cs_new custody_example_config,
     me_receipts = [], me_last_sweep = 0, me_lamport = 0, me_last_persisted_lamport = 0, me_storage = True, me_records = [],
     me_marked_local = [], me_events = [], me_reads = 0\<rparr>"

definition queued_example :: mesh_relay_governor where
  "queued_example = snd (admit_held bytes_str (ca_message (deposit_example 1)) ''bob'' 2 (me_governor engine_example))"

definition displaced_example :: mesh_engine where
  "displaced_example = engine_example
     \<lparr>me_custody := mark_queued [1] ''bob'' (snd (judge (deposit_example 1) (cs_new custody_example_config))),
      me_governor := snd (mr_evict_for bytes_str (relay_example\<lparr>msg_priority := Critical\<rparr>) 3 queued_example)\<rparr>"

lemma queued_example_ids: "map relay_id (mg_pending queued_example) = [[1]]"
  by code_simp

lemma displaced_example_queue: "mg_pending (me_governor displaced_example) = []"
  by code_simp

lemma displaced_example_held: "map_option hf_in_flight (map_of (cs_entries (me_custody displaced_example)) [1]) = Some (Some ''bob'')"
  by code_simp

lemma engine_example_env: "healthy_host engine_env_example \<and> inj (ee_idstr engine_env_example)"
  by (auto simp: healthy_host_def engine_env_example_def inj_def dest: bytes_str_inj)

subsection \<open>What the engine promises\<close>

lemma mirrored_new: "me_records e = [] \<Longrightarrow> me_custody e = cs_new c \<Longrightarrow> mirrored E e"
  by (simp add: mirrored_def cs_new_def)

lemma launched_new: "me_records e = [] \<Longrightarrow> me_custody e = cs_new c \<Longrightarrow> me_storage e \<Longrightarrow> launched E c e"
  by (simp add: launched_def mirrored_new cs_inv_new)

lemma mirrored_keys:
  assumes "mirrored E e"
  shows "set (map fst (me_records e)) = ee_idstr E ` set (map fst (cs_entries (me_custody e)))"
proof -
  note m = mirroredD[OF assms]
  have "k \<in> fst ` set (me_records e) \<longleftrightarrow> (\<exists>i. k = ee_idstr E i \<and> i \<in> fst ` set (cs_entries (me_custody e)))" for k
  proof (cases "k \<in> range (ee_idstr E)")
    case True
    then obtain i where "k = ee_idstr E i" by auto
    moreover have "ee_idstr E j \<in> fst ` set (me_records e) \<longleftrightarrow> j \<in> fst ` set (cs_entries (me_custody e))" for j
      using m(2)[of j] map_of_eq_None_iff[of "me_records e" "ee_idstr E j"] map_of_eq_None_iff[of "cs_entries (me_custody e)" j] by auto
    ultimately show ?thesis by metis
  qed (use m(3) in \<open>auto simp: map_of_eq_None_iff\<close>)
  then show ?thesis by (intro set_eqI) (simp only: set_map image_iff, blast)
qed

lemma mirrored_bound:
  assumes "mirrored E e" "cs_inv c (me_custody e)"
  shows "length (me_records e) \<le> cc_max_entries c"
proof -
  have "length (me_records e) = card (set (map fst (me_records e)))"
    using mirroredD(1)[OF assms(1)] distinct_card[of "map fst (me_records e)"] by (simp add: hm_inv_def)
  also have "\<dots> \<le> length (cs_entries (me_custody e))"
    unfolding mirrored_keys[OF assms(1)] using card_image_le[of "set (map fst (cs_entries (me_custody e)))" "ee_idstr E"]
      card_length[of "map fst (cs_entries (me_custody e))"] by simp
  also have "\<dots> \<le> cc_max_entries c"
    using assms(2) by (simp add: cs_inv_def cs_quotas_def usage_all_def wsum_length[unfolded One_nat_def])
  finally show ?thesis .
qed

text \<open>C4. Whatever frames arrive, whoever comes and goes, whatever is deposited, handed on, expired or erased,
  on a host whose store works the durable custody records are exactly the frames held: one record under
  the key of each held frame, saying who deposited it, when and as what, and no record of anything else.
  The queue of the governor and the records stay within what was configured.\<close>

theorem records_follow_custody:
  assumes "healthy_host E" "inj (ee_idstr E)" "custody_ok lifetime c" "mesh_config_ok mc"
    and "me_governor e0 = mg_with_config t local_id mc" "me_custody e0 = cs_new c" "me_records e0 = []" "me_storage e0"
  shows "let e = fold (me_step E) ops e0 in
    (\<forall>i. map_of (me_records e) (ee_idstr E i) = map_option record_of (map_of (cs_entries (me_custody e)) i))
    \<and> set (map fst (me_records e)) = ee_idstr E ` set (map fst (cs_entries (me_custody e)))
    \<and> distinct (map fst (me_records e)) \<and> length (me_records e) \<le> cc_max_entries c
    \<and> length (mg_pending (me_governor e)) \<le> mc_queue_capacity mc"
proof -
  define e where "e = fold (me_step E) ops e0"
  have l: "mirrored E e" "cs_inv c (me_custody e)" "hm_inv (me_records e)"
    using launched_run[OF launched_new[OF assms(7,6,8), of E] assms(1,2,3)] mirroredD(1)[of E e]
    by (auto simp: e_def launched_def)
  have "engine_ok mc c e0" using mg_inv_new[OF assms(4)] assms(5,6) by (simp add: engine_ok_def cs_inv_new)
  then have q: "length (mg_pending (me_governor e)) \<le> mc_queue_capacity mc"
    using mem.run_inv[of mc c e0 E ops] assms(4) custody_okD(5)[OF assms(3)] by (simp add: e_def engine_ok_def mg_inv_def)
  show ?thesis using l q mirrored_keys[OF l(1)] mirrored_bound[OF l(1,2)] mirroredD(2)[OF l(1)] by (simp add: e_def[symmetric] hm_inv_def)
qed

theorem records_follow_custody_witness:
  "length (me_records (fold (me_step engine_env_example) [MeInbound relay_example, MeTick, MeDiscovered ''bob''] engine_example)) \<le> 512"
proof -
  have "mesh_config_ok mesh_relay_config_default" by (rule mesh_config_default_ok)
  then show ?thesis
    using records_follow_custody[of engine_env_example 86400000 custody_example_config mesh_relay_config_default engine_example 0 "''dave''"
        "[MeInbound relay_example, MeTick, MeDiscovered ''bob'']"] engine_example_env custody_example_ok
    by (simp add: Let_def engine_example_def custody_example_config_def custody_config_default_def del: fold.simps fold_simps)
qed

text \<open>C40. A frame held for others that was queued for redelivery and then lost its place in the queue is
  stranded.  The store still takes it to be on its way, and nothing that happens afterwards, short of
  another copy of the frame arriving, makes it a candidate for any neighbor again or puts it back in the
  queue: not its recipient coming into range, not the tick, and not the sweep, which can only drop it.\<close>

theorem displaced_forward_strands_frame:
  assumes "custody_ok lifetime c" "cs_inv c (me_custody e)"
    and "map_of (cs_entries (me_custody e)) mid = Some h" "hf_in_flight h = Some target"
    and "mid \<notin> relay_id ` set (mg_pending (me_governor e))"
    and "\<forall>m. MeInbound m \<in> set ops \<longrightarrow> msg_id m \<noteq> mid"
  shows "let e' = fold (me_step E) ops e in
    mid \<notin> set (candidates_for peer (me_custody e')) \<and> mid \<notin> relay_id ` set (mg_pending (me_governor e'))"
proof -
  have "stranded c mid e" using assms(2-5) by (simp add: stranded_def in_flight_if_held_def queue_ids_def)
  then have "stranded c mid (fold (me_step E) ops e)" by (rule stranded_run[OF _ assms(1,6)])
  then show ?thesis using not_candidate cs_inv_books by (auto simp: stranded_def queue_ids_def)
qed

theorem displaced_forward_strands_frame_witness:
  "[1] \<in> relay_id ` set (mg_pending queued_example) \<and> hm_contains [1] (cs_entries (me_custody displaced_example))
   \<and> [1] \<notin> set (candidates_for ''bob'' (me_custody (fold (me_step engine_env_example) [MeTick, MeDiscovered ''bob'', MeTick] displaced_example)))"
proof -
  have inv: "cs_inv custody_example_config (me_custody displaced_example)"
    using cs_step_ok[where op = "CsQueued [1] ''bob''", OF cs_step_ok[where op = "CsJudge (deposit_example 1)", OF cs_inv_new]]
      custody_okD(5)[OF custody_example_ok] by (simp add: displaced_example_def)
  obtain h where h: "map_of (cs_entries (me_custody displaced_example)) [1] = Some h" "hf_in_flight h = Some ''bob''"
    using displaced_example_held by auto
  have "[1] \<notin> set (candidates_for ''bob'' (me_custody (fold (me_step engine_env_example) [MeTick, MeDiscovered ''bob'', MeTick] displaced_example)))"
    using displaced_forward_strands_frame[OF custody_example_ok inv h, of "[MeTick, MeDiscovered ''bob'', MeTick]" engine_env_example "''bob''"]
      displaced_example_queue by (simp add: Let_def del: fold.simps fold_simps me_step.simps)
  moreover have "[1] \<in> relay_id ` set (mg_pending queued_example)"
    using arg_cong[OF queued_example_ids, of set] by auto
  ultimately show ?thesis using h(1) by (simp add: hm_contains_def)
qed

end
