(* ===== verification/Custody_Restart.thy ===== *)
theory Custody_Restart
  imports Mesh_Custody
begin

text \<open>Custody across a restart.  The frames held for others are promised for hours, and the process that promised them
  may not live that long: \<open>restore_custody\<close> (\<open>src/crates/offline-protocol/src/protocol/custodian.rs\<close>) rebuilds the
  store from the durable records.

  The first part follows the listing (\<open>restore_key\<close>), the second the admissions (\<open>restore_record\<close>), which must all
  succeed because the records are those of a store that was within its budgets.  The last part puts them
  together with the invariant of \<open>Mesh_Custody\<close>.\<close>

subsection \<open>Sums over the held frames\<close>

lemma wsum_Cons [simp]: "wsum w (p # m) = w (snd p) + wsum w m"
  by (simp add: wsum_def split_beta)

lemma wsum_append [simp]: "wsum w (m @ m') = wsum w m + wsum w m'"
  by (simp add: wsum_def)

lemma wsum_Nil [simp]: "wsum w [] = 0"
  by (simp add: wsum_def)

lemma wsum_sum:
  assumes "hm_inv m"
  shows "wsum w m = (\<Sum>i\<in>dom (map_of m). w (the (map_of m i)))"
  using assms
proof (induction m)
  case (Cons p m)
  obtain k h where p: "p = (k, h)" by (cases p)
  have m: "hm_inv m" "k \<notin> dom (map_of m)" using Cons.prems p by (auto simp: hm_inv_def dom_map_of_conv_image_fst)
  have "(\<Sum>i\<in>dom (map_of m). w (the (map_of (p # m) i))) = (\<Sum>i\<in>dom (map_of m). w (the (map_of m i)))"
    by (rule sum.cong) (use m(2) p in auto)
  moreover have "dom (map_of (p # m)) = insert k (dom (map_of m))" using p by auto
  ultimately have "(\<Sum>i\<in>dom (map_of (p # m)). w (the (map_of (p # m) i))) = w h + (\<Sum>i\<in>dom (map_of m). w (the (map_of m i)))"
    using sum.insert[OF finite_dom_map_of m(2), of "\<lambda>i. w (the (map_of (p # m) i))"] p by simp
  then show ?case by (simp only: wsum_Cons p snd_conv Cons.IH[OF m(1)])
qed simp

lemma wsum_below:
  assumes "hm_inv m" "hm_inv m'" "\<And>i h'. map_of m' i = Some h' \<Longrightarrow> \<exists>h. map_of m i = Some h \<and> w h' = w h"
  shows "wsum w m' \<le> wsum w m"
proof -
  have "dom (map_of m') \<subseteq> dom (map_of m)" using assms(3) by fastforce
  moreover have "w (the (map_of m' i)) = w (the (map_of m i))" if "i \<in> dom (map_of m')" for i
  proof -
    obtain h' where h': "map_of m' i = Some h'" using \<open>i \<in> dom (map_of m')\<close> by auto
    then obtain h where "map_of m i = Some h" "w h' = w h" using assms(3) by blast
    then show ?thesis using h' by simp
  qed
  ultimately show ?thesis
    unfolding wsum_sum[OF assms(1)] wsum_sum[OF assms(2)]
    by (simp add: sum_mono2 finite_dom_map_of cong: sum.cong)
qed

text \<open>A part of what is held, booked as it was, is within every budget the whole was within.\<close>

lemma quotas_below:
  assumes "cs_quotas c m" "hm_inv m" "hm_inv m'"
    "\<And>i h'. map_of m' i = Some h' \<Longrightarrow> \<exists>h. map_of m i = Some h \<and> hf_depositor h' = hf_depositor h \<and> hf_bytes h' = hf_bytes h"
  shows "cs_quotas c m'"
proof -
  have "wsum w m' \<le> wsum w m" if "\<And>h h'. hf_depositor h' = hf_depositor h \<Longrightarrow> hf_bytes h' = hf_bytes h \<Longrightarrow> w h' = w h" for w
    by (rule wsum_below[OF assms(2,3)]) (use that assms(4) in blast)
  then have "wsum (\<lambda>_. 1) m' \<le> wsum (\<lambda>_. 1) m" "wsum hf_bytes m' \<le> wsum hf_bytes m"
    "wsum (of_depositor d (\<lambda>_. 1)) m' \<le> wsum (of_depositor d (\<lambda>_. 1)) m" "wsum (of_depositor d hf_bytes) m' \<le> wsum (of_depositor d hf_bytes) m" for d
    by (simp_all add: of_depositor_def)
  then show ?thesis using assms(1) unfolding cs_quotas_def usage_all_def usage_of_def by (simp, meson le_trans)
qed

subsection \<open>Reading the records back\<close>

definition record_over :: "i64 \<Rightarrow> nat \<Rightarrow> custody_record \<Rightarrow> bool" where
  "record_over now_ms hold_ms r = (int (min hold_ms (2 ^ 63 - 1)) < saturating_sub_i64 now_ms (ctr_accepted_at_ms r))"

lemma record_over_of [simp]: "record_over now_ms hold_ms (record_of h) = hold_over now_ms hold_ms h"
  by (simp add: record_over_def hold_over_def record_of_def)

lemma claim_delete_keeps:
  "me_custody (snd (claim_delete E key be)) = me_custody (snd be) \<and> me_storage (snd (claim_delete E key be)) = me_storage (snd be)
   \<and> (\<forall>k. k \<noteq> key \<longrightarrow> map_of (me_records (snd (claim_delete E key be))) k = map_of (me_records (snd be)) k)"
  by (simp add: claim_delete_def delete_custody_record_by_key_def next_read_def split: prod.split bool.split)

lemma restore_key_readable:
  assumes "ee_reads_record E (me_reads e) = ReadOk" "cc_enabled (cs_config (me_custody e))" "map_of (me_records e) key = Some r"
    "ctr_version r = CUSTODY_RECORD_VERSION" "ee_idstr E (msg_id (ctr_message r)) = key"
  shows "restore_key E now_ms key (rs, b, e) =
    (if record_over now_ms (cc_hold_ms (cs_config (me_custody e))) r then (rs, claim_delete E key (b, next_read e)) else (rs @ [r], b, next_read e))"
  using assms by (simp add: restore_key_def record_over_def Let_def)

lemma restore_keys:
  assumes "\<forall>n. ee_reads_record E n = ReadOk" "cc_enabled (cs_config (me_custody e))" "distinct keys"
    "\<forall>k\<in>set keys. \<exists>r. map_of (me_records e) k = Some r \<and> ctr_version r = CUSTODY_RECORD_VERSION \<and> ee_idstr E (msg_id (ctr_message r)) = k"
  shows "\<exists>b' e'. fold (restore_key E now_ms) keys (rs, b, e)
      = (rs @ filter (\<lambda>r. \<not> record_over now_ms (cc_hold_ms (cs_config (me_custody e))) r) (map (\<lambda>k. the (map_of (me_records e) k)) keys), b', e')
    \<and> me_custody e' = me_custody e \<and> me_storage e' = me_storage e
    \<and> (\<forall>k r. map_of (me_records e) k = Some r \<longrightarrow> \<not> record_over now_ms (cc_hold_ms (cs_config (me_custody e))) r
          \<longrightarrow> map_of (me_records e') k = Some r)"
  using assms
proof (induction keys arbitrary: rs b e)
  case (Cons k keys)
  let ?hold = "cc_hold_ms (cs_config (me_custody e))"
  obtain r where r: "map_of (me_records e) k = Some r" "ctr_version r = CUSTODY_RECORD_VERSION" "ee_idstr E (msg_id (ctr_message r)) = k"
    using Cons.prems(4) by auto
  define rs1 where "rs1 = rs @ (if record_over now_ms ?hold r then [] else [r])"
  obtain b1 e1 where one: "restore_key E now_ms k (rs, b, e) = (rs1, b1, e1)" "me_custody e1 = me_custody e" "me_storage e1 = me_storage e"
    "\<forall>j. j \<noteq> k \<longrightarrow> map_of (me_records e1) j = map_of (me_records e) j"
    "\<not> record_over now_ms ?hold r \<Longrightarrow> map_of (me_records e1) k = Some r"
    using restore_key_readable[OF _ Cons.prems(2) r, of now_ms rs b] Cons.prems(1) claim_delete_keeps[of E k "(b, next_read e)"] r(1)
    by (cases "claim_delete E k (b, next_read e)") (auto simp: rs1_def next_read_def split: if_splits)
  have k: "k \<notin> set keys" "distinct keys" using Cons.prems(3) by auto
  have "\<forall>j\<in>set keys. map_of (me_records e1) j = map_of (me_records e) j" using one(4) k(1) by metis
  then have readable: "\<forall>j\<in>set keys. \<exists>r. map_of (me_records e1) j = Some r \<and> ctr_version r = CUSTODY_RECORD_VERSION \<and> ee_idstr E (msg_id (ctr_message r)) = j"
    using Cons.prems(4) by (metis list.set_intros(2))
  have same: "map (\<lambda>j. the (map_of (me_records e1) j)) keys = map (\<lambda>j. the (map_of (me_records e) j)) keys"
    using one(4) k(1) by (auto intro!: map_cong)
  have "\<exists>b' e'. fold (restore_key E now_ms) keys (rs1, b1, e1)
      = (rs1 @ filter (\<lambda>r. \<not> record_over now_ms (cc_hold_ms (cs_config (me_custody e1))) r) (map (\<lambda>k. the (map_of (me_records e1) k)) keys), b', e')
    \<and> me_custody e' = me_custody e1 \<and> me_storage e' = me_storage e1
    \<and> (\<forall>k r. map_of (me_records e1) k = Some r \<longrightarrow> \<not> record_over now_ms (cc_hold_ms (cs_config (me_custody e1))) r
          \<longrightarrow> map_of (me_records e') k = Some r)"
    by (rule Cons.IH) (use Cons.prems(1,2) k(2) one(2) readable in simp_all)
  then obtain b' e' where ih: "fold (restore_key E now_ms) keys (rs1, b1, e1)
      = (rs1 @ filter (\<lambda>r. \<not> record_over now_ms ?hold r) (map (\<lambda>k. the (map_of (me_records e) k)) keys), b', e')"
    "me_custody e' = me_custody e" "me_storage e' = me_storage e"
    "\<forall>k r. map_of (me_records e1) k = Some r \<longrightarrow> \<not> record_over now_ms ?hold r \<longrightarrow> map_of (me_records e') k = Some r"
    unfolding one(2,3) same by blast
  have "map_of (me_records e') j = Some q" if "map_of (me_records e) j = Some q" "\<not> record_over now_ms ?hold q" for j q
    using that ih(4) one(4,5) r(1) by (cases "j = k") auto
  then show ?case using ih(1-3) one(1) r(1) by (simp add: rs1_def split: if_splits)
qed simp

subsection \<open>Admitting them again\<close>

definition frame_of :: "custody_record \<Rightarrow> held_frame" where
  "frame_of r = \<lparr>hf_message = ctr_message r, hf_depositor = ctr_depositor r, hf_accepted_at_ms = ctr_accepted_at_ms r,
     hf_class = ctr_class r, hf_bytes = frame_footprint (ctr_message r), hf_tried = {}, hf_in_flight = None\<rparr>"

abbreviation record_id :: "custody_record \<Rightarrow> message_id" where
  "record_id r \<equiv> msg_id (ctr_message r)"

abbreviation frames_of :: "custody_record list \<Rightarrow> (message_id, held_frame) hashmap" where
  "frames_of rs \<equiv> map (\<lambda>r. (record_id r, frame_of r)) rs"

lemma frame_of_fields [simp]:
  "hf_message (frame_of r) = ctr_message r" "hf_depositor (frame_of r) = ctr_depositor r" "hf_bytes (frame_of r) = frame_footprint (ctr_message r)"
  "hf_accepted_at_ms (frame_of r) = ctr_accepted_at_ms r"
  by (simp_all add: frame_of_def)

text \<open>The budgets depend on the sums alone.\<close>

lemma quotas_cong: "(\<And>w. wsum w m = wsum w m') \<Longrightarrow> cs_quotas c m = cs_quotas c m'"
  by (simp add: cs_quotas_def usage_all_def usage_of_def)

lemma quotas_fits:
  assumes "cs_inv c s" "cs_quotas c ((record_id r, frame_of r) # rest @ cs_entries s)"
  shows "fits_store (frame_footprint (ctr_message r)) s"
    "fits_depositor (ctr_depositor r) (frame_footprint (ctr_message r)) (max (cc_max_entries_per_depositor c) (cc_stranger_max_entries c))
       (max (cc_max_bytes_per_depositor c) (cc_stranger_max_bytes c)) s"
proof -
  have b: "cs_books s" and c: "cs_config s = c" using assms(1) by (simp_all add: cs_inv_def)
  have t: "cs_total s = usage_all (cs_entries s)" using b by (simp add: cs_books_def)
  have all: "Suc (wsum (\<lambda>_. Suc 0) (cs_entries s)) \<le> cc_max_entries c" "wsum hf_bytes (cs_entries s) + frame_footprint (ctr_message r) \<le> cc_max_bytes c"
    using assms(2) by (simp_all add: cs_quotas_def usage_all_def)
  have own: "Suc (wsum (of_depositor (ctr_depositor r) (\<lambda>_. Suc 0)) (cs_entries s)) \<le> max (cc_max_entries_per_depositor c) (cc_stranger_max_entries c)"
    "wsum (of_depositor (ctr_depositor r) hf_bytes) (cs_entries s) + frame_footprint (ctr_message r) \<le> max (cc_max_bytes_per_depositor c) (cc_stranger_max_bytes c)"
    using assms(2) unfolding cs_quotas_def usage_of_def
    by (auto dest!: spec[of _ "ctr_depositor r"] simp: of_depositor_def)
  show "fits_store (frame_footprint (ctr_message r)) s"
    using all by (simp add: fits_store_def c t usage_all_def sat_add64_def)
  show "fits_depositor (ctr_depositor r) (frame_footprint (ctr_message r)) (max (cc_max_entries_per_depositor c) (cc_stranger_max_entries c))
       (max (cc_max_bytes_per_depositor c) (cc_stranger_max_bytes c)) s"
    using own by (simp add: fits_depositor_def depositor_usage_books[OF b] usage_of_def sat_add64_def Let_def min.coboundedI1)
qed

lemma restore_record_fits:
  assumes "cs_inv c (me_custody e)" "bytes_exact c" "map_of (cs_entries (me_custody e)) (record_id r) = None"
    "cs_quotas c ((record_id r, frame_of r) # rest @ cs_entries (me_custody e))"
  shows "restore_record E r (b, e) = (b, set_custody (cs_insert (frame_of r) (me_custody e)) e)"
    "cs_inv c (cs_insert (frame_of r) (me_custody e))"
proof -
  have c: "cs_config (me_custody e) = c" using assms(1) by (simp add: cs_inv_def)
  note f = quotas_fits[OF assms(1,4)]
  show "restore_record E r (b, e) = (b, set_custody (cs_insert (frame_of r) (me_custody e)) e)"
    using f assms(3) by (simp add: restore_record_def admit_restored_def hm_contains_def c Let_def frame_of_def)
  show "cs_inv c (cs_insert (frame_of r) (me_custody e))"
    by (rule cs_inv_insert[OF assms(1,2), where max_entries = "max (cc_max_entries_per_depositor c) (cc_stranger_max_entries c)"
          and max_bytes = "max (cc_max_bytes_per_depositor c) (cc_stranger_max_bytes c)"])
      (use assms(3) f in \<open>simp_all add: fits_depositor_def Let_def depositor_usage_books[OF cs_inv_books[OF assms(1)]]\<close>)
qed

lemma restore_records:
  assumes "cs_inv c (me_custody e)" "bytes_exact c" "distinct (map record_id rs)"
    "\<forall>r\<in>set rs. map_of (cs_entries (me_custody e)) (record_id r) = None" "cs_quotas c (frames_of rs @ cs_entries (me_custody e))"
  shows "\<exists>s. fold (restore_record E) rs (b, e) = (b, set_custody s e) \<and> cs_inv c s
    \<and> map_of (cs_entries s) = map_of (cs_entries (me_custody e)) ++ map_of (frames_of rs)
    \<and> cs_order s = cs_order (me_custody e) @ map record_id rs"
  using assms
proof (induction rs arbitrary: e)
  case Nil
  then show ?case by (intro exI[of _ "me_custody e"]) (simp add: set_custody_def)
next
  case (Cons r rs)
  let ?s = "cs_insert (frame_of r) (me_custody e)" and ?e = "set_custody (cs_insert (frame_of r) (me_custody e)) e"
  have new: "map_of (cs_entries (me_custody e)) (record_id r) = None" using Cons.prems(4) by simp
  have q: "cs_quotas c ((record_id r, frame_of r) # frames_of rs @ cs_entries (me_custody e))" using Cons.prems(5) by simp
  note one = restore_record_fits(1)[OF Cons.prems(1,2) new q, where E = E and b = b] restore_record_fits(2)[OF Cons.prems(1,2) new q]
  have entries: "cs_entries ?s = hm_insert (record_id r) (frame_of r) (cs_entries (me_custody e))"
    and order: "cs_order ?s = cs_order (me_custody e) @ [record_id r]" by (simp_all add: cs_insert_def Let_def)
  have e: "me_custody ?e = ?s" by (simp add: set_custody_def)
  have apart: "record_id q \<noteq> record_id r" if "q \<in> set rs" for q using Cons.prems(3) that by (auto simp: image_iff)
  have "cs_quotas c (frames_of rs @ cs_entries ?s)"
    by (rule iffD1[OF quotas_cong q]) (simp add: entries wsum_fresh[OF new])
  then have "\<exists>s. fold (restore_record E) rs (b, ?e) = (b, set_custody s ?e) \<and> cs_inv c s
    \<and> map_of (cs_entries s) = map_of (cs_entries (me_custody ?e)) ++ map_of (frames_of rs)
    \<and> cs_order s = cs_order (me_custody ?e) @ map record_id rs"
    by (intro Cons.IH) (use Cons.prems one(2) in \<open>auto simp: e entries apart\<close>)
  then obtain s where s: "fold (restore_record E) rs (b, ?e) = (b, set_custody s e)" "cs_inv c s"
    "map_of (cs_entries s) = map_of (cs_entries ?s) ++ map_of (frames_of rs)" "cs_order s = cs_order ?s @ map record_id rs"
    unfolding e by (auto simp: set_custody_def)
  have "map_of (frames_of rs) (record_id r) = None" using Cons.prems(3) by (auto simp: map_of_eq_None_iff)
  then have "map_of (cs_entries s) = map_of (cs_entries (me_custody e)) ++ map_of (frames_of (r # rs))"
    by (auto simp: s(3) entries map_add_def fun_eq_iff split: option.splits)
  moreover have "fold (restore_record E) (r # rs) (b, e) = (b, set_custody s e)" using s(1) one(1) by simp
  moreover have "cs_order s = cs_order (me_custody e) @ map record_id (r # rs)" using s(4) order by simp
  ultimately show ?case using s(2) by blast
qed

subsection \<open>The whole restart\<close>

lemma lex_fst_le: "(a, b) \<le> (a', b') \<Longrightarrow> a \<le> a'" for a :: int and b :: string
  by (simp add: less_eq_prod_def) linarith

lemma oldest_first_sorted: "sorted (map (\<lambda>r. sint (ctr_accepted_at_ms r)) (oldest_first E rs))"
proof -
  let ?key = "\<lambda>r. (sint (ctr_accepted_at_ms r), ee_idstr E (msg_id (ctr_message r)))"
  have "sorted_wrt (\<lambda>r r'. ?key r \<le> ?key r') (oldest_first E rs)"
    unfolding oldest_first_def by (rule iffD1[OF sorted_map sorted_sort_key])
  then have "sorted_wrt (\<lambda>r r'. sint (ctr_accepted_at_ms r) \<le> sint (ctr_accepted_at_ms r')) (oldest_first E rs)"
    by (rule sorted_wrt_mono_rel[rotated]) (erule lex_fst_le)
  then show ?thesis by (rule iffD2[OF sorted_map])
qed

lemma stored_message_simps [simp]:
  "msg_id (stored_message m) = msg_id m" "frame_footprint (stored_message m) = frame_footprint m" "stored_message (stored_message m) = stored_message m"
  by (simp_all add: stored_message_def frame_footprint_def)

lemma record_of_fields [simp]:
  "ctr_version (record_of h) = CUSTODY_RECORD_VERSION" "ctr_message (record_of h) = stored_message (hf_message h)"
  "ctr_depositor (record_of h) = hf_depositor h" "ctr_accepted_at_ms (record_of h) = hf_accepted_at_ms h" "ctr_class (record_of h) = hf_class h"
  by (simp_all add: record_of_def)

text \<open>What a held frame is after the restart.\<close>

definition rested :: "held_frame \<Rightarrow> held_frame" where
  "rested h = h\<lparr>hf_message := stored_message (hf_message h), hf_tried := {}, hf_in_flight := None\<rparr>"

lemma frame_of_record: "hf_bytes h = frame_footprint (hf_message h) \<Longrightarrow> frame_of (record_of h) = rested h"
  by (simp add: frame_of_def rested_def)

text \<open>The records a listing keeps: one for each held frame whose hold is not over.\<close>

definition kept_records :: "i64 \<Rightarrow> nat \<Rightarrow> (string, custody_record) hashmap \<Rightarrow> custody_record list" where
  "kept_records now_ms hold_ms m = filter (\<lambda>r. \<not> record_over now_ms hold_ms r) (map (\<lambda>k. the (map_of m k)) (map fst m))"

lemma mirrored_record:
  assumes "mirrored E e" "cs_books (me_custody e)" "k \<in> fst ` set (me_records e)"
  obtains i h where "k = ee_idstr E i" "map_of (cs_entries (me_custody e)) i = Some h" "map_of (me_records e) k = Some (record_of h)"
    "msg_id (hf_message h) = i"
proof -
  obtain i where k: "k = ee_idstr E i" "i \<in> fst ` set (cs_entries (me_custody e))" using mirrored_keys[OF assms(1)] assms(3) by auto
  then obtain h where h: "map_of (cs_entries (me_custody e)) i = Some h"
    using map_of_eq_None_iff[of "cs_entries (me_custody e)" i] by auto
  moreover have "msg_id (hf_message h) = i" using h assms(2) keyed_by_id_get by (auto simp: cs_books_def)
  ultimately show thesis using that k(1) mirroredD(2)[OF assms(1), of i] by simp
qed

lemma kept_records_spec:
  assumes "mirrored E e" "cs_books (me_custody e)" "inj (ee_idstr E)"
  shows "distinct (map record_id (kept_records now_ms hold_ms (me_records e)))"
    "set (kept_records now_ms hold_ms (me_records e))
      = {record_of h | i h. map_of (cs_entries (me_custody e)) i = Some h \<and> \<not> hold_over now_ms hold_ms h}"
proof -
  let ?get = "\<lambda>k. the (map_of (me_records e) k)"
  have id: "ee_idstr E (record_id (?get k)) = k" if "k \<in> fst ` set (me_records e)" for k
    by (rule mirrored_record[OF assms(1,2) that]) simp
  have "inj_on (\<lambda>k. record_id (?get k)) (fst ` set (me_records e))" by (rule inj_on_inverseI[of _ "ee_idstr E"]) (rule id)
  moreover have "distinct (map fst (me_records e))" using mirroredD(1)[OF assms(1)] by (simp add: hm_inv_def)
  ultimately have d: "distinct (map (\<lambda>k. record_id (?get k)) (map fst (me_records e)))"
    unfolding distinct_map[of _ "map fst (me_records e)"] set_map by blast
  then have "distinct (map record_id (map ?get (map fst (me_records e))))" by (simp only: map_map comp_def)
  then show "distinct (map record_id (kept_records now_ms hold_ms (me_records e)))"
    unfolding kept_records_def by (rule distinct_map_filter)
  have all: "?get ` fst ` set (me_records e) = {record_of h | i h. map_of (cs_entries (me_custody e)) i = Some h}"
  proof (intro equalityI subsetI)
    fix r
    assume "r \<in> ?get ` fst ` set (me_records e)"
    then obtain k where k: "k \<in> fst ` set (me_records e)" "r = ?get k" by auto
    show "r \<in> {record_of h | i h. map_of (cs_entries (me_custody e)) i = Some h}"
      by (rule mirrored_record[OF assms(1,2) k(1)]) (use k(2) in auto)
  next
    fix r
    assume "r \<in> {record_of h | i h. map_of (cs_entries (me_custody e)) i = Some h}"
    then obtain i h where h: "r = record_of h" "map_of (cs_entries (me_custody e)) i = Some h" by auto
    then have r: "map_of (me_records e) (ee_idstr E i) = Some r" using mirroredD(2)[OF assms(1), of i] by simp
    then have "ee_idstr E i \<in> fst ` set (me_records e)" using map_of_eq_None_iff[of "me_records e" "ee_idstr E i"] by simp
    then show "r \<in> ?get ` fst ` set (me_records e)" by (rule image_eqI[rotated]) (simp add: r)
  qed
  have "set (kept_records now_ms hold_ms (me_records e)) = {r \<in> ?get ` fst ` set (me_records e). \<not> record_over now_ms hold_ms r}"
    by (simp only: kept_records_def set_filter set_map)
  then show "set (kept_records now_ms hold_ms (me_records e))
      = {record_of h | i h. map_of (cs_entries (me_custody e)) i = Some h \<and> \<not> hold_over now_ms hold_ms h}"
    unfolding all mem_Collect_eq by (simp only:) (rule Collect_cong, metis record_over_of)
qed

lemma frames_of_kept:
  assumes "mirrored E e" "cs_books (me_custody e)" "distinct (map record_id rs)"
    "set rs = {record_of h | i h. map_of (cs_entries (me_custody e)) i = Some h \<and> \<not> hold_over now_ms hold_ms h}"
  shows "map_of (frames_of rs) i = (case map_of (cs_entries (me_custody e)) i of
      Some h \<Rightarrow> if hold_over now_ms hold_ms h then None else Some (rested h) | None \<Rightarrow> None)"
proof -
  have d: "distinct (map fst (frames_of rs))" using assms(3) by (simp add: comp_def)
  have id: "msg_id (hf_message h) = j" if "map_of (cs_entries (me_custody e)) j = Some h" for j h
    using that assms(2) keyed_by_id_get by (auto simp: cs_books_def)
  have r: "map_of (cs_entries (me_custody e)) j = Some h \<Longrightarrow> frame_of (record_of h) = rested h"
    "map_of (cs_entries (me_custody e)) j = Some h \<Longrightarrow> record_id (record_of h) = j" for j h
    by (rule frame_of_record, erule mirroredD(4)[OF assms(1)]) (simp add: id)
  have some: "map_of (frames_of rs) i = Some f \<longleftrightarrow> (\<exists>q\<in>set rs. record_id q = i \<and> frame_of q = f)" for f
    unfolding map_of_eq_Some_iff[OF d] by auto
  show ?thesis
  proof (cases "map_of (frames_of rs) i")
    case (Some f)
    then obtain q where q: "q \<in> set rs" "record_id q = i" "frame_of q = f" using some by blast
    then obtain j h where h: "q = record_of h" "map_of (cs_entries (me_custody e)) j = Some h" "\<not> hold_over now_ms hold_ms h"
      using assms(4) by blast
    then have "j = i" "f = rested h" using r[OF h(2)] q by simp_all
    then show ?thesis using Some h by simp
  next
    case None
    have "hold_over now_ms hold_ms h" if h: "map_of (cs_entries (me_custody e)) i = Some h" for h
    proof (rule ccontr)
      assume "\<not> hold_over now_ms hold_ms h"
      then have "record_of h \<in> set rs" using h assms(4) by blast
      then show False using some[of "frame_of (record_of h)"] r(2)[OF h] None by auto
    qed
    then show ?thesis using None by (simp split: option.split)
  qed
qed

lemma frames_of_get:
  assumes "distinct (map record_id rs)" "r \<in> set rs"
  shows "map_of (frames_of rs) (record_id r) = Some (frame_of r)"
  using assms by (intro map_of_is_SomeI) (auto simp: comp_def)

lemma restart_readable:
  assumes "mirrored E e" "cs_books (me_custody e)" "me_records e1 = me_records e"
  shows "\<forall>k\<in>set (map fst (me_records e)). \<exists>r. map_of (me_records e1) k = Some r \<and> ctr_version r = CUSTODY_RECORD_VERSION
      \<and> ee_idstr E (msg_id (ctr_message r)) = k"
proof
  fix k
  assume "k \<in> set (map fst (me_records e))"
  then have "k \<in> fst ` set (me_records e)" by simp
  then show "\<exists>r. map_of (me_records e1) k = Some r \<and> ctr_version r = CUSTODY_RECORD_VERSION \<and> ee_idstr E (msg_id (ctr_message r)) = k"
    by (rule mirrored_record[OF assms(1,2)]) (simp add: assms(3))
qed

lemma quotas_kept:
  assumes "mirrored E e" "cs_inv c (me_custody e)" "distinct (map record_id rs)"
    "set rs = {record_of h | i h. map_of (cs_entries (me_custody e)) i = Some h \<and> \<not> hold_over now_ms hold_ms h}"
  shows "cs_quotas c (frames_of rs)"
proof (rule quotas_below)
  show "cs_quotas c (cs_entries (me_custody e))" "hm_inv (cs_entries (me_custody e))"
    using assms(2) by (simp_all add: cs_inv_def cs_books_def)
  show "hm_inv (frames_of rs)" using assms(3) by (simp add: hm_inv_def comp_def)
  show "\<exists>h. map_of (cs_entries (me_custody e)) i = Some h \<and> hf_depositor f = hf_depositor h \<and> hf_bytes f = hf_bytes h"
    if "map_of (frames_of rs) i = Some f" for i f
    using that frames_of_kept[OF assms(1) cs_inv_books[OF assms(2)] assms(3,4), of i]
    by (auto simp: rested_def split: option.splits if_splits)
qed

lemma set_custody_parts: "me_custody (set_custody s e) = s" "me_records (set_custody s e) = me_records e"
  by (simp_all add: set_custody_def)

lemma restore_custody_all:
  assumes "mirrored E e" "cs_inv c (me_custody e)" "inj (ee_idstr E)" "custody_ok lifetime c" "cc_max_entries c \<le> u64_max"
    "\<forall>n. ee_reads_record E n = ReadOk" "\<forall>n. ee_lists E n = ListOk"
    "me_storage e1" "me_custody e1 = cs_new c" "me_records e1 = me_records e" "me_records e \<noteq> []"
  defines "now_ms \<equiv> ee_wall E (me_reads e1 + 1)"
  defines "rs \<equiv> oldest_first E (kept_records now_ms (cc_hold_ms c) (me_records e))"
  obtains allowance' e2 where "restore_custody E allowance e1 = (allowance', e2)" "cs_inv c (me_custody e2)"
    "map_of (cs_entries (me_custody e2)) = map_of (frames_of rs)" "cs_order (me_custody e2) = map record_id rs"
    "\<And>k r. map_of (me_records e) k = Some r \<Longrightarrow> \<not> record_over now_ms (cc_hold_ms c) r \<Longrightarrow> map_of (me_records e2) k = Some r"
proof -
  note b = cs_inv_books[OF assms(2)]
  let ?e = "e1\<lparr>me_reads := me_reads e1 + 2\<rparr>" and ?kept = "kept_records now_ms (cc_hold_ms c) (me_records e)"
  have on: "cs_config (cs_new c) = c" "cc_enabled c" "cs_entries (cs_new c) = []" "cs_order (cs_new c) = []"
    using assms(4) by (simp_all add: cs_new_def custody_ok_def)
  have keys: "take (max (min (cc_max_entries c * 4) u64_max) 1) (map fst (me_records e1)) = map fst (me_records e)"
    using mirrored_bound[OF assms(1,2)] assms(5,10) by (simp add: le_max_iff_disj)
  have d: "distinct (map fst (me_records e))" using mirroredD(1)[OF assms(1)] by (simp add: hm_inv_def)
  have readable: "\<forall>k\<in>set (map fst (me_records e)). \<exists>r. map_of (me_records ?e) k = Some r \<and> ctr_version r = CUSTODY_RECORD_VERSION
      \<and> ee_idstr E (msg_id (ctr_message r)) = k" by (rule restart_readable[OF assms(1) b]) (simp add: assms(10))
  have enabled: "cc_enabled (cs_config (me_custody ?e))" using on assms(9) by simp
  obtain b1 e' where listed: "fold (restore_key E now_ms) (map fst (me_records e)) ([], refusing_private allowance, ?e) = (?kept, b1, e')"
    "me_custody e' = cs_new c" "me_storage e'"
    "\<And>k r. map_of (me_records e) k = Some r \<Longrightarrow> \<not> record_over now_ms (cc_hold_ms c) r \<Longrightarrow> map_of (me_records e') k = Some r"
    using restore_keys[OF assms(6) enabled d readable, of now_ms "[]" "refusing_private allowance"] on(1) assms(8-10)
    unfolding kept_records_def by auto
  have kept: "distinct (map record_id rs)"
    "set rs = {record_of h | i h. map_of (cs_entries (me_custody e)) i = Some h \<and> \<not> hold_over now_ms (cc_hold_ms c) h}"
    using kept_records_spec[OF assms(1) b assms(3), of now_ms "cc_hold_ms c"]
    by (simp_all add: rs_def oldest_first_def distinct_map)
  obtain s where admitted: "fold (restore_record E) rs (b1, e') = (b1, set_custody s e')" "cs_inv c s"
    "map_of (cs_entries s) = map_of (frames_of rs)" "cs_order s = map record_id rs"
    using restore_records[of c e' rs E b1] cs_inv_new custody_okD(5)[OF assms(4)] kept(1) quotas_kept[OF assms(1,2) kept] listed(2) on(3,4)
    by auto
  have "restore_custody E allowance e1 = (give_back b1 allowance, set_custody s e')"
    using listed(1) admitted(1) keys assms(7,8,9,10,11) on(1) by (simp add: restore_custody_def Let_def now_ms_def rs_def)
  then show thesis
    by (rule that) (simp_all add: set_custody_parts admitted(2-4) listed(4))
qed

text \<open>C3. A restart loses nothing that is still owed.  When the process dies after any history on a host whose
  store works, and the next launch restores custody from the records alone, it holds exactly the frames
  held before whose hold is not over at the time of the launch: the same message, depositor, class and time
  of acceptance, booked at the same size, with no neighbor tried and nothing in flight, in the order in
  which they were accepted.  None is refused for want of room, and the record of each is still there for
  the launch after that.\<close>

theorem restart_restores_custody:
  assumes "healthy_host E" "\<forall>n. ee_reads_record E n = ReadOk" "\<forall>n. ee_lists E n = ListOk" "inj (ee_idstr E)"
    and "custody_ok lifetime c" "cc_max_entries c \<le> u64_max" "launched E c e0"
    and "me_storage e1" "me_custody e1 = cs_new c" "me_records e1 = me_records (fold (me_step E) ops e0)"
  shows "let e = fold (me_step E) ops e0; e2 = snd (restore_custody E allowance e1); now_ms = ee_wall E (me_reads e1 + 1);
      held = map_of (cs_entries (me_custody e)); held' = map_of (cs_entries (me_custody e2))
    in (\<forall>i. held' i = (case held i of
          Some h \<Rightarrow> if hold_over now_ms (cc_hold_ms c) h then None
                    else Some (h\<lparr>hf_message := stored_message (hf_message h), hf_tried := {}, hf_in_flight := None\<rparr>)
        | None \<Rightarrow> None))
      \<and> (\<forall>i. case held' i of Some h \<Rightarrow> map_of (me_records e2) (ee_idstr E i) = Some (record_of h) | None \<Rightarrow> True)
      \<and> sorted (map (\<lambda>i. sint (hf_accepted_at_ms (the (held' i)))) (cs_order (me_custody e2)))
      \<and> cs_inv c (me_custody e2)"
proof -
  define e where "e = fold (me_step E) ops e0"
  define now_ms where "now_ms = ee_wall E (me_reads e1 + 1)"
  have m: "mirrored E e" and i: "cs_inv c (me_custody e)"
    using launched_run[OF assms(7,1,4,5), of ops] by (simp_all add: launched_def e_def)
  note b = cs_inv_books[OF i] and rec = assms(10)[folded e_def]
  show ?thesis
  proof (cases "me_records e = []")
    case True
    have "map_of (cs_entries (me_custody e)) j = None" for j using mirroredD(2)[OF m, of j] True by simp
    moreover have "snd (restore_custody E allowance e1) = next_read e1"
      using True assms(3,8) rec by (simp add: restore_custody_def)
    ultimately show ?thesis
      unfolding Let_def e_def[symmetric] using assms(9) cs_inv_new[of c] by (simp add: next_read_def cs_new_def)
  next
    case False
    let ?rs = "oldest_first E (kept_records now_ms (cc_hold_ms c) (me_records e))"
    obtain allowance' e2 where e2: "restore_custody E allowance e1 = (allowance', e2)" "cs_inv c (me_custody e2)"
      "map_of (cs_entries (me_custody e2)) = map_of (frames_of ?rs)" "cs_order (me_custody e2) = map record_id ?rs"
      "\<And>k r. map_of (me_records e) k = Some r \<Longrightarrow> \<not> record_over now_ms (cc_hold_ms c) r \<Longrightarrow> map_of (me_records e2) k = Some r"
      by (rule restore_custody_all[OF m i assms(4,5,6,2,3,8,9) rec False, of allowance, folded now_ms_def]) (rule that)
    have kept: "distinct (map record_id ?rs)"
      "set ?rs = {record_of h | i h. map_of (cs_entries (me_custody e)) i = Some h \<and> \<not> hold_over now_ms (cc_hold_ms c) h}"
      using kept_records_spec[OF m b assms(4), of now_ms "cc_hold_ms c"] by (simp_all add: oldest_first_def distinct_map)
    have held: "map_of (cs_entries (me_custody e2)) j = (case map_of (cs_entries (me_custody e)) j of
        Some h \<Rightarrow> if hold_over now_ms (cc_hold_ms c) h then None else Some (rested h) | None \<Rightarrow> None)" for j
      unfolding e2(3) by (rule frames_of_kept[OF m b kept])
    have records: "case map_of (cs_entries (me_custody e2)) j of Some h \<Rightarrow> map_of (me_records e2) (ee_idstr E j) = Some (record_of h) | None \<Rightarrow> True" for j
    proof (cases "map_of (cs_entries (me_custody e2)) j")
      case (Some f)
      then obtain h where h: "map_of (cs_entries (me_custody e)) j = Some h" "\<not> hold_over now_ms (cc_hold_ms c) h" "f = rested h"
        using held[of j] by (auto split: option.splits if_splits)
      have "map_of (me_records e2) (ee_idstr E j) = Some (record_of h)"
        by (rule e2(5)) (use mirroredD(2)[OF m, of j] h in simp_all)
      then show ?thesis using Some h(3) by (simp add: rested_def record_of_def)
    qed simp
    have "map (\<lambda>i. sint (hf_accepted_at_ms (the (map_of (cs_entries (me_custody e2)) i)))) (cs_order (me_custody e2))
        = map (\<lambda>r. sint (ctr_accepted_at_ms r)) ?rs"
      by (simp add: e2(3,4) frames_of_get[OF kept(1)])
    then have order: "sorted (map (\<lambda>i. sint (hf_accepted_at_ms (the (map_of (cs_entries (me_custody e2)) i)))) (cs_order (me_custody e2)))"
      using oldest_first_sorted[of E] by simp
    show ?thesis
      unfolding Let_def e_def[symmetric] now_ms_def[symmetric] e2(1) snd_conv
      by (intro conjI allI held[unfolded rested_def] records order e2(2))
  qed
qed

text \<open>The engine \<open>dave\<close> with a frame of \<open>alice\<close> for \<open>bob\<close> accepted at time 7 and its record written.\<close>

definition holding_example :: mesh_engine where
  "holding_example = (let s = snd (judge (deposit_example 1) (cs_new custody_example_config)) in
     engine_example\<lparr>me_custody := s, me_records := map (\<lambda>(i, h). (bytes_str i, record_of h)) (cs_entries s)\<rparr>)"

lemma holding_example_frame: "cs_entries (me_custody holding_example) = [([1], \<lparr>hf_message = ca_message (deposit_example 1), hf_depositor = ''alice'',
    hf_accepted_at_ms = 7, hf_class = ''data'', hf_bytes = frame_footprint (ca_message (deposit_example 1)), hf_tried = {}, hf_in_flight = None\<rparr>)]"
  by code_simp

lemma holding_example_launched: "launched engine_env_example custody_example_config holding_example"
proof -
  have "cs_inv custody_example_config (me_custody holding_example)"
    using cs_step_ok[where op = "CsJudge (deposit_example 1)", OF cs_inv_new] custody_okD(5)[OF custody_example_ok]
    by (simp add: holding_example_def Let_def)
  moreover have r: "me_records holding_example = map (\<lambda>(i, h). (bytes_str i, record_of h)) (cs_entries (me_custody holding_example))"
    "me_storage holding_example" by (simp_all add: holding_example_def Let_def engine_example_def)
  moreover have "mirrored engine_env_example holding_example"
    using r bytes_str_inj by (auto simp: mirrored_def holding_example_frame hm_inv_def engine_env_example_def)
  ultimately show ?thesis by (simp add: launched_def)
qed

theorem restart_restores_custody_witness:
  "let e1 = engine_example\<lparr>me_records := me_records holding_example\<rparr>
   in map_option hf_depositor (map_of (cs_entries (me_custody (snd (restore_custody engine_env_example pool e1)))) [1]) = Some ''alice''"
proof -
  let ?e1 = "engine_example\<lparr>me_records := me_records holding_example\<rparr>"
  have e1: "me_storage ?e1" "me_custody ?e1 = cs_new custody_example_config" "me_records ?e1 = me_records (fold (me_step engine_env_example) [] holding_example)"
    by (simp_all add: engine_example_def)
  have env: "\<forall>n. ee_reads_record engine_env_example n = ReadOk" "\<forall>n. ee_lists engine_env_example n = ListOk" "ee_wall engine_env_example n = 9" for n
    by (simp_all add: engine_env_example_def)
  have room: "cc_max_entries custody_example_config \<le> u64_max" "cc_hold_ms custody_example_config = 21600000"
    by (simp_all add: custody_example_config_def custody_config_default_def)
  show ?thesis
    using restart_restores_custody[OF conjunct1[OF engine_example_env] env(1,2) conjunct2[OF engine_example_env] custody_example_ok room(1)
        holding_example_launched e1, of pool, unfolded Let_def, THEN conjunct1, rule_format, of "[1]"]
    by (simp add: Let_def holding_example_frame env(3) room(2) hold_over_def saturating_sub_i64_def)
qed

end
