(* ===== verification/Spec2Isabelle.thy ===== *)
theory Spec2Isabelle
  imports Prelude Relay_Seen Core_Types Ack_Manager Std_Heap Retry_Queue Wire Bytes Address
    Canonical Control_Frames Envelope Membership
    Stream_Framing Dedup Floats Ble_Fragments Transport_Types Ble_Transport Transport_Interface
    Peer_Stream_Transport Relay_Transports Mesh_Relay Custody
    State_Store Mesh_Engine Mesh_Custody Custody_Restart
begin

text \<open>
  A verification of the Offline Protocol SDK: Rust crates under \<open>src/crates\<close> that carry end-to-end encrypted
  messages over whatever link two phones have.  A message is encoded (\<open>offline-protocol-core\<close>), sealed and signed
  (\<open>offline-protocol-sealed\<close> and the MLS library), kept for retry until acknowledged
  (\<open>offline-protocol-reliability\<close>), and moved by a transport (\<open>offline-protocol-transport\<close>).  The engine
  (\<open>offline-protocol\<close>) wires these together; beyond its own traffic it forwards the frames of neighbors and, as a
  custodian, holds some of them for hours.

  \<^bold>\<open>Parts, theories and sources.\<close>  Definitions keep the names of the source, with a prefix where two types share a
  method name (\<open>rs_\<close> for \<open>RelaySeenCache\<close>, \<open>bt_\<close> for \<open>BleTransport\<close>, \<open>cs_\<close> for \<open>CustodyStore\<close>).  A struct is a
  record, an enum a datatype, \<open>\&mut self\<close> a state that is returned, \<open>Result\<close> a sum with the error on the left, a
  panic \<open>None\<close>.

  \<^item> Foundations: \<open>Prelude\<close> (integers, clocks, hash maps, the interfaces \<open>hash_map\<close>, \<open>machine\<close>, \<open>simulation\<close>),
    \<open>Bytes\<close> (fixed-width integers and fields as bytes, the interfaces \<open>codec\<close> and \<open>prefix_codec\<close>), \<open>Floats\<close>
    (rounding of \<open>f32\<close> and \<open>f64\<close>), \<open>Std_Heap\<close> (\<open>BinaryHeap\<close>, the interface \<open>ord_cmp\<close>).
  \<^item> Messages: \<open>Core_Types\<close> (\<open>types.rs\<close>, \<open>message.rs\<close>), \<open>Wire\<close> (\<open>wire.rs\<close>, \<open>common.rs\<close>), \<open>Address\<close>
    (\<open>address.rs\<close>, \<open>derive.rs\<close>).
  \<^item> What is signed and sealed: \<open>Canonical\<close>, \<open>Control_Frames\<close>, \<open>Envelope\<close>, \<open>Membership\<close>, one for each file or group of
    files of the sealed crate.
  \<^item> Reliability: \<open>Relay_Seen\<close>, \<open>Ack_Manager\<close>, \<open>Retry_Queue\<close>, \<open>Dedup\<close>, one for each file of that crate.
  \<^item> Transports: \<open>Transport_Types\<close>, \<open>Stream_Framing\<close>, \<open>Ble_Fragments\<close>, \<open>Ble_Transport\<close>, \<open>Peer_Stream_Transport\<close>
    (\<open>wifi_direct.rs\<close>), \<open>Relay_Transports\<close> (\<open>internet.rs\<close>, \<open>reticulum.rs\<close>).  \<open>Transport_Interface\<close> holds what callers
    rely on of them, the interfaces \<open>peer_links\<close> and \<open>confirmation_loop\<close>, which the transports interpret.
  \<^item> Forwarding and custody: \<open>Mesh_Relay\<close> (\<open>mesh_relay.rs\<close>), \<open>Custody\<close> (\<open>custody.rs\<close>), each with its part of the
    configuration check of \<open>config.rs\<close>.
  \<^item> Durable state: \<open>State_Store\<close> (\<open>state_crypto.rs\<close>, the reads and writes of \<open>storage.rs\<close>, the trait of
    \<open>protocol_state_storage.rs\<close> as the interface \<open>state_storage\<close>, the in-memory store of the web crate).
  \<^item> The engine around forwarding and custody: \<open>Mesh_Engine\<close> (\<open>custodian.rs\<close>, the relaying part of \<open>receive.rs\<close>,
    \<open>offer_to_mesh\<close> of \<open>send.rs\<close>, the mesh links of \<open>transport_manager.rs\<close>, signing a control message), which calls the
    governor, the store and the two transports with direct links.  \<open>Mesh_Custody\<close> and \<open>Custody_Restart\<close> hold what is
    proved of it.

  \<^bold>\<open>What is shown.\<close>  Each component has its state invariant, kept by every operation and hence by every sequence
  (interpretations of \<open>machine\<close>).  Beyond that:

  \<^item> Messages and layouts: every encoder modelled is inverted by its decoder, encodings determine what they encode, no
    media key reaches the wire in either codec, an address has one spelling, payloads for signing bind their domain and
    every field.
  \<^item> Reliability: suppression of forwarded ids for the whole window, the deduplicator against a specification of what
    it must answer (\<open>simulation\<close>), across a restart and in its Bloom mode, the eviction choice of the acknowledgement
    table, the order of the retry queue.
  \<^item> Transports: a Bluetooth message arrives whole through cutting, radio and reassembly; the outbox refines two queues
    with acknowledgements first; a byte stream gives the same frames however it is cut; the links a transport lists
    are those it accepts; every message given to a platform with confirmations is accounted for.
  \<^item> Forwarding: every way of a frame ends, own traffic keeps its reserve in \<open>f32\<close> arithmetic, what the queue remembers,
    releases and abandons, to whom a frame goes.
  \<^item> Custody and durable state: the outcome of a deposit, the books and budgets, that a record survives the store and
    opens only in its slot, that no restore walk starves a later one.
  \<^item> The composition: on a host whose store works the durable custody records are at all times the frames held, and a
    restart holds again exactly what was still owed.
  \<^item> Defects found in the code are theorems too: a checked configuration that forwards nothing, an eviction that
    reopens an id, and a held frame that no neighbor is offered again.

  \<^bold>\<open>How the engine is handled.\<close>  Its operations call each other and read clocks, battery, random ids and host storage.
  All of these are answers of an environment, numbered in the order in which the code asks.  \<open>Mesh_Custody\<close> takes each
  operation apart once into atomic moves (\<open>me_move\<close>) and proves invariants of moves; the set of frame ids a path may
  concern is a parameter of the relation, which is what the theorem on stranded frames needs.

  \<^bold>\<open>Parameters.\<close>  Third-party code is an argument, with what is relied on as a named predicate that a witness
  instantiates: base64, postcard and serde JSON (\<open>wire_laws\<close>, \<open>receipt_json_laws\<close>), bech32m and SHA-256, the
  authenticated cipher (\<open>aead_laws\<close>, \<open>aead_binds\<close>), the signature check of a stream preamble, \<open>DefaultHasher\<close>, the
  range of \<open>chrono\<close>.  A host that never fails is \<open>healthy_host\<close>.  Clock readings are arguments.

  \<^bold>\<open>Bounds and fuel.\<close>  No definition takes fuel: loops of the code are structural recursion over what they consume, or
  functions with a termination proof by the length of what is left.  Sums that the code saturates are saturated in
  the model; theorems that need exact sums say so (\<open>bytes_exact\<close>).  Machine integers keep their width where an
  operation can wrap; \<open>usize\<close> has 64 bits.

  \<^bold>\<open>Not modelled.\<close>  Interleaving of threads inside a call, since every operation takes the engine by unique reference and
  the locks of a transport are held for one queue operation each; log lines and the text of errors; the MLS sessions
  and groups, which are the OpenMLS and mls-rs libraries; the shared documents, which are the Loro library; the Nostr
  carrier with its curve arithmetic; file transfer and telemetry, which are input and output; the bindings, which are
  generated or convert types; the scoring of transports, whose rules are tuned weights.  Of the engine the send
  ladders, session set-up and the restore walks of other record kinds are left out: on every path they call into the
  MLS library or move its opaque records.
\<close>

end
